(* ===== verification/Prelude.thy ===== *)
theory Prelude
  imports Main "HOL-Library.Sublist"
begin

section \<open>Prelude: errors, results and shared list facts\<close>

text \<open>
  What every component shares: the domain error of \<^verbatim>\<open>rust/src/error.rs\<close>, the result type
  \<open>'a result\<close> that stands for Rust's \<^verbatim>\<open>Result<T, AppError>\<close> (\<open>Inl\<close> is \<^verbatim>\<open>Err\<close>, \<open>Inr\<close> is \<^verbatim>\<open>Ok\<close>),
  the collections of rewrite rules the component theories add to, and generic facts on lists.
  The text carried by an error is a diagnostic sentence that no code branches on; the models
  keep the constructor, and the payload where it is data (a revision, a path), and abbreviate
  the sentence.
\<close>

named_theorems str_simps \<open>rewrite rules of the byte-string model\<close>
named_theorems span_simps \<open>rewrite rules of the span map\<close>
named_theorems index_simps \<open>rewrite rules of the index tables\<close>

datatype app_error =
    DiskFull
  | AuthExpired
  | RevisionMismatch string
  | GitConflict
  | PathUnavailable string
  | NotFound string
  | DatabaseError string
  | CryptoError string
  | NetworkError string
  | OAuthStateMismatch
  | OAuthError string
  | IoError string
  | ParseError string

type_synonym 'a result = "app_error + 'a"

text \<open>A half-open range of offsets, Rust's \<^verbatim>\<open>Range<usize>\<close>.\<close>

type_synonym range = "nat \<times> nat"

subsection \<open>Results\<close>

text \<open>The \<^verbatim>\<open>?\<close> operator: an error is returned at once, a value is passed on.\<close>

definition and_then :: "'a result \<Rightarrow> ('a \<Rightarrow> 'b result) \<Rightarrow> 'b result" where
  "and_then r f = (case r of Inl e \<Rightarrow> Inl e | Inr x \<Rightarrow> f x)"

lemma and_then_simps [simp]:
  "and_then (Inl e) f = Inl e"
  "and_then (Inr x) f = f x"
  by (simp_all add: and_then_def)

lemma and_then_Inr_iff:
  "and_then r f = Inr y \<longleftrightarrow> (\<exists>x. r = Inr x \<and> f x = Inr y)"
  by (cases r) auto

lemma and_then_cong [fundef_cong]:
  "r = r' \<Longrightarrow> (\<And>x. r' = Inr x \<Longrightarrow> f x = g x) \<Longrightarrow> and_then r f = and_then r' g"
  by (cases r') auto

text \<open>\<^verbatim>\<open>Option::ok_or_else\<close>.\<close>

definition ok_or :: "app_error \<Rightarrow> 'a option \<Rightarrow> 'a result" where
  "ok_or e x = (case x of None \<Rightarrow> Inl e | Some y \<Rightarrow> Inr y)"

lemma ok_or_simps [simp]:
  "ok_or e None = Inl e"
  "ok_or e (Some y) = Inr y"
  by (simp_all add: ok_or_def)

lemma ok_or_Inr_iff [simp]: "ok_or e x = Inr y \<longleftrightarrow> x = Some y"
  by (cases x) auto

subsection \<open>Options\<close>

lemma bind_Some_iff [simp]: "Option.bind x f = Some y \<longleftrightarrow> (\<exists>z. x = Some z \<and> f z = Some y)"
  by (cases x) auto

subsection \<open>Lists\<close>

lemma take_eq_take_append_drop:
  "i \<le> j \<Longrightarrow> j \<le> length s \<Longrightarrow> take j s = take i s @ take (j - i) (drop i s)"
  by (metis le_add_diff_inverse take_add)

lemma drop_append_take:
  "i \<le> j \<Longrightarrow> drop i s = take (j - i) (drop i s) @ drop j s"
  by (metis append_take_drop_id drop_drop le_add_diff_inverse2)

lemma ex_le_Suc: "(\<exists>k\<le>Suc n. P k) \<longleftrightarrow> P 0 \<or> (\<exists>k\<le>n. P (Suc k))"
proof
  assume "\<exists>k\<le>Suc n. P k"
  then obtain k where "k \<le> Suc n" "P k" by blast
  then show "P 0 \<or> (\<exists>k\<le>n. P (Suc k))" by (cases k) auto
qed auto

lemma take_drop_take_eq:
  assumes "take n (drop m (take k xs)) = ys" and "length ys = n"
  shows "take n (drop m xs) = ys"
proof -
  have eq: "ys = take (min n (k - m)) (drop m xs)"
    using assms(1) by (simp add: drop_take take_take)
  then have "n \<le> min n (k - m)"
    using assms(2) by (metis length_take min.cobounded1 min.bounded_iff order_refl)
  with eq show ?thesis by (simp add: min_absorb1)
qed

lemma foldl_append_concat: "foldl (@) a xs = a @ concat xs"
  by (induction xs arbitrary: a) auto

lemma sum_list_append_map:
  "sum_list (map f (xs @ ys)) = sum_list (map f xs) + (sum_list (map f ys) :: nat)"
  by simp

text \<open>
  \<^verbatim>\<open>Iterator::max_by_key\<close> returns the last of several maximal elements,
  \<^verbatim>\<open>Iterator::min_by_key\<close> the first of several minimal ones.
\<close>

fun max_by_key :: "('a \<Rightarrow> 'k::linorder) \<Rightarrow> 'a list \<Rightarrow> 'a option" where
  "max_by_key k [] = None"
| "max_by_key k (x # xs) =
     (case max_by_key k xs of
        None \<Rightarrow> Some x
      | Some y \<Rightarrow> if k x \<le> k y then Some y else Some x)"

fun min_by_key :: "('a \<Rightarrow> 'k::linorder) \<Rightarrow> 'a list \<Rightarrow> 'a option" where
  "min_by_key k [] = None"
| "min_by_key k (x # xs) =
     (case min_by_key k xs of
        None \<Rightarrow> Some x
      | Some y \<Rightarrow> if k x \<le> k y then Some x else Some y)"

lemma max_by_key_None_iff [simp]: "max_by_key k xs = None \<longleftrightarrow> xs = []"
  by (cases xs) (auto split: option.splits)

lemma min_by_key_None_iff [simp]: "min_by_key k xs = None \<longleftrightarrow> xs = []"
  by (cases xs) (auto split: option.splits)

lemma max_by_key_Some:
  "max_by_key k xs = Some x \<Longrightarrow> x \<in> set xs \<and> (\<forall>y\<in>set xs. k y \<le> k x)"
proof (induction xs arbitrary: x)
  case (Cons a xs)
  then show ?case
    by (cases "max_by_key k xs") (auto split: if_splits)
qed simp

lemma min_by_key_Some:
  "min_by_key k xs = Some x \<Longrightarrow> x \<in> set xs \<and> (\<forall>y\<in>set xs. k x \<le> k y)"
proof (induction xs arbitrary: x)
  case (Cons a xs)
  then show ?case
    by (cases "min_by_key k xs") (auto split: if_splits)
qed simp

end
