(* ===== verification/Utf8.thy ===== *)
theory Utf8
  imports Prelude
begin

section \<open>Rust strings as byte lists\<close>

text \<open>
  A Rust \<^verbatim>\<open>str\<close> is a sequence of bytes that is valid UTF-8. The model is the byte list itself: a
  \<^typ>\<open>char\<close> of HOL is an eight-bit value, so \<^typ>\<open>string\<close> is the list of a string's bytes, \<open>length\<close> is
  \<^verbatim>\<open>str::len\<close>, and an offset is a byte offset. \<open>chars\<close> splits a byte list into its characters, each the
  group of bytes that encodes it: a lead byte and the continuation bytes that follow. The predicate
  \<open>valid_utf8\<close> is the type invariant of \<^verbatim>\<open>str\<close>. The functions of the standard library the sources call
  (slicing, searching, trimming, UTF-16 counting) are modelled here once.
\<close>

subsection \<open>Named bytes\<close>

abbreviation LF :: char where "LF \<equiv> CHR 0x0A"
abbreviation CR :: char where "CR \<equiv> CHR 0x0D"
abbreviation TAB :: char where "TAB \<equiv> CHR 0x09"
abbreviation NUL :: char where "NUL \<equiv> CHR 0x00"
abbreviation BSLASH :: char where "BSLASH \<equiv> CHR 0x5C"
abbreviation DQUOTE :: char where "DQUOTE \<equiv> CHR 0x22"
abbreviation SQUOTE :: char where "SQUOTE \<equiv> CHR 0x27"
abbreviation SLASH :: char where "SLASH \<equiv> CHR ''/''"

definition byte :: "char \<Rightarrow> nat" where
  "byte c = of_char c"

lemma byte_less_256: "byte c < 256"
  by (simp add: byte_def)

text \<open>A continuation byte has the form \<^verbatim>\<open>10xxxxxx\<close>.\<close>

definition is_cont :: "char \<Rightarrow> bool" where
  "is_cont c \<longleftrightarrow> digit7 c \<and> \<not> digit6 c"

definition is_ascii :: "char \<Rightarrow> bool" where
  "is_ascii c \<longleftrightarrow> \<not> digit7 c"

lemma is_ascii_not_cont [simp]: "is_ascii c \<Longrightarrow> \<not> is_cont c"
  by (simp add: is_ascii_def is_cont_def)

lemma is_cont_ranges: "is_cont c \<longleftrightarrow> 128 \<le> byte c \<and> byte c < 192"
proof (cases c)
  case (Char b0 b1 b2 b3 b4 b5 b6 b7)
  then show ?thesis
    by (simp add: is_cont_def byte_def of_char_def horner_sum_simps)
qed

lemma is_ascii_byte: "is_ascii c \<longleftrightarrow> byte c < 128"
proof (cases c)
  case (Char b0 b1 b2 b3 b4 b5 b6 b7)
  then show ?thesis
    by (simp add: is_ascii_def byte_def of_char_def horner_sum_simps)
qed

subsection \<open>Characters\<close>

lemma length_dropWhile_Suc [termination_simp]: "length (dropWhile P xs) < Suc (length xs)"
  by (simp add: le_imp_less_Suc length_dropWhile_le)

fun chars :: "string \<Rightarrow> string list" where
  "chars [] = []"
| "chars (c # cs) = (c # takeWhile is_cont cs) # chars (dropWhile is_cont cs)"

lemma concat_chars [simp]: "concat (chars s) = s"
  by (induction s rule: chars.induct) auto

lemma chars_nonempty: "g \<in> set (chars s) \<Longrightarrow> g \<noteq> []"
  by (induction s rule: chars.induct) auto

lemma chars_eq_Nil_iff [simp]: "chars s = [] \<longleftrightarrow> s = []"
  by (cases s) auto

text \<open>A byte list that does not begin inside a character.\<close>

definition starts_char :: "string \<Rightarrow> bool" where
  "starts_char s \<longleftrightarrow> s = [] \<or> \<not> is_cont (hd s)"

lemma starts_char_simps [simp]:
  "starts_char []"
  "starts_char (c # s) \<longleftrightarrow> \<not> is_cont c"
  by (simp_all add: starts_char_def)

lemma takeWhile_cont_append:
  "starts_char t \<Longrightarrow> takeWhile is_cont (s @ t) = takeWhile is_cont s"
  by (induction s) (cases t, auto)

lemma dropWhile_cont_append:
  "starts_char t \<Longrightarrow> dropWhile is_cont (s @ t) = dropWhile is_cont s @ t"
  by (induction s) (cases t, auto)

lemma chars_append: "starts_char t \<Longrightarrow> chars (s @ t) = chars s @ chars t"
  by (induction s rule: chars.induct) (simp_all add: takeWhile_cont_append dropWhile_cont_append)

lemma starts_char_append:
  "starts_char s \<Longrightarrow> starts_char t \<Longrightarrow> starts_char (s @ t)"
  by (cases s) auto

lemma starts_char_concat:
  "\<forall>s\<in>set ss. starts_char s \<Longrightarrow> starts_char (concat ss)"
  by (induction ss) (auto intro: starts_char_append)

definition char_count :: "string \<Rightarrow> nat" where
  "char_count s = length (chars s)"

lemma char_count_Nil [simp]: "char_count [] = 0"
  by (simp add: char_count_def)

lemma char_count_zero_iff [simp]: "char_count s = 0 \<longleftrightarrow> s = []"
  by (simp add: char_count_def)

lemma char_count_pos_iff [simp]: "0 < char_count s \<longleftrightarrow> s \<noteq> []"
  by (simp add: char_count_def)

lemma char_count_append: "starts_char t \<Longrightarrow> char_count (s @ t) = char_count s + char_count t"
  by (simp add: char_count_def chars_append)

text \<open>A character takes two UTF-16 code units exactly when its UTF-8 form takes four bytes.\<close>

definition len_utf16 :: "string \<Rightarrow> nat" where
  "len_utf16 g = (if length g = 4 then 2 else 1)"

definition utf16_count :: "string \<Rightarrow> nat" where
  "utf16_count s = sum_list (map len_utf16 (chars s))"

lemma len_utf16_pos [simp]: "0 < len_utf16 g"
  by (simp add: len_utf16_def)

lemma len_utf16_neq_0 [simp]: "len_utf16 g \<noteq> 0"
  by (simp add: len_utf16_def)

lemma len_utf16_cases: "len_utf16 g = 1 \<or> len_utf16 g = 2"
  by (simp add: len_utf16_def)

lemma utf16_count_Nil [simp]: "utf16_count [] = 0"
  by (simp add: utf16_count_def)

lemma utf16_count_append:
  "starts_char t \<Longrightarrow> utf16_count (s @ t) = utf16_count s + utf16_count t"
  by (simp add: utf16_count_def chars_append)

subsection \<open>Validity\<close>

text \<open>The well-formed encodings of one Unicode scalar value: no overlong form, no surrogate, nothing past 10FFFF.\<close>

fun valid_char :: "string \<Rightarrow> bool" where
  "valid_char [a] = (byte a < 128)"
| "valid_char [a, b] = (194 \<le> byte a \<and> byte a < 224 \<and> is_cont b)"
| "valid_char [a, b, c] =
     (224 \<le> byte a \<and> byte a < 240 \<and> is_cont b \<and> is_cont c
      \<and> (byte a = 224 \<longrightarrow> 160 \<le> byte b) \<and> (byte a = 237 \<longrightarrow> byte b < 160))"
| "valid_char [a, b, c, d] =
     (240 \<le> byte a \<and> byte a < 245 \<and> is_cont b \<and> is_cont c \<and> is_cont d
      \<and> (byte a = 240 \<longrightarrow> 144 \<le> byte b) \<and> (byte a = 244 \<longrightarrow> byte b < 144))"
| "valid_char _ = False"

definition valid_utf8 :: "string \<Rightarrow> bool" where
  "valid_utf8 s \<longleftrightarrow> list_all valid_char (chars s)"

lemma valid_char_lead: "valid_char (c # cs) \<Longrightarrow> \<not> is_cont c"
  by (induction "c # cs" rule: valid_char.induct) (auto simp: is_cont_ranges)

lemma valid_utf8_Nil [simp]: "valid_utf8 []"
  by (simp add: valid_utf8_def)

lemma valid_utf8_starts_char: "valid_utf8 s \<Longrightarrow> starts_char s"
  by (cases s) (auto simp: valid_utf8_def dest: valid_char_lead)

lemma valid_utf8_append_iff:
  "starts_char t \<Longrightarrow> valid_utf8 (s @ t) \<longleftrightarrow> valid_utf8 s \<and> valid_utf8 t"
  by (simp add: valid_utf8_def chars_append)

lemma valid_utf8_append:
  "valid_utf8 s \<Longrightarrow> valid_utf8 t \<Longrightarrow> valid_utf8 (s @ t)"
  by (simp add: valid_utf8_append_iff valid_utf8_starts_char)

lemma takeWhile_cont_ascii: "list_all is_ascii s \<Longrightarrow> takeWhile is_cont s = []"
  by (cases s) auto

lemma dropWhile_cont_ascii: "list_all is_ascii s \<Longrightarrow> dropWhile is_cont s = s"
  by (cases s) auto

lemma chars_ascii: "list_all is_ascii s \<Longrightarrow> chars s = map (\<lambda>c. [c]) s"
  by (induction s) (auto simp: takeWhile_cont_ascii dropWhile_cont_ascii)

lemma valid_utf8_ascii: "list_all is_ascii s \<Longrightarrow> valid_utf8 s"
  by (simp add: valid_utf8_def chars_ascii list_all_iff is_ascii_byte)

subsection \<open>Boundaries and slices\<close>

text \<open>\<^verbatim>\<open>str::is_char_boundary\<close>.\<close>

definition is_char_boundary :: "string \<Rightarrow> nat \<Rightarrow> bool" where
  "is_char_boundary s i \<longleftrightarrow>
     i = 0 \<or> (if length s \<le> i then i = length s else \<not> is_cont (s ! i))"

lemma is_char_boundary_0 [simp]: "is_char_boundary s 0"
  by (simp add: is_char_boundary_def)

lemma is_char_boundary_length [simp]: "is_char_boundary s (length s)"
  by (simp add: is_char_boundary_def)

lemma is_char_boundary_le: "is_char_boundary s i \<Longrightarrow> i \<le> length s"
  by (auto simp: is_char_boundary_def split: if_splits)

lemma boundary_starts_char:
  "valid_utf8 s \<Longrightarrow> is_char_boundary s i \<Longrightarrow> starts_char (drop i s)"
  by (auto simp: is_char_boundary_def starts_char_def hd_drop_conv_nth valid_utf8_starts_char
      dest: valid_utf8_starts_char split: if_splits) (metis hd_conv_nth list.sel(1) neq_Nil_conv starts_char_simps(2) valid_utf8_starts_char)

lemma starts_char_boundary:
  "i \<le> length s \<Longrightarrow> starts_char (drop i s) \<Longrightarrow> is_char_boundary s i"
  by (auto simp: is_char_boundary_def starts_char_def hd_drop_conv_nth)

lemma valid_utf8_take_drop:
  assumes "valid_utf8 s" and "is_char_boundary s i"
  shows "valid_utf8 (take i s) \<and> valid_utf8 (drop i s)"
  using assms boundary_starts_char [OF assms]
  by (metis append_take_drop_id valid_utf8_append_iff)

text \<open>\<^verbatim>\<open>str::get(range)\<close>: \<^verbatim>\<open>None\<close> unless the range is in bounds and on character boundaries.\<close>

definition str_get :: "string \<Rightarrow> range \<Rightarrow> string option" where
  "str_get s r =
     (case r of (b, e) \<Rightarrow>
        if b \<le> e \<and> e \<le> length s \<and> is_char_boundary s b \<and> is_char_boundary s e
        then Some (take (e - b) (drop b s)) else None)"

lemma str_get_Some_iff:
  "str_get s (b, e) = Some t \<longleftrightarrow>
     b \<le> e \<and> e \<le> length s \<and> is_char_boundary s b \<and> is_char_boundary s e
     \<and> t = take (e - b) (drop b s)"
  by (auto simp: str_get_def)

definition str_upto :: "string \<Rightarrow> nat \<Rightarrow> string option" where
  "str_upto s e = str_get s (0, e)"

definition str_from :: "string \<Rightarrow> nat \<Rightarrow> string option" where
  "str_from s b = str_get s (b, length s)"

lemma str_upto_Some_iff: "str_upto s e = Some t \<longleftrightarrow> is_char_boundary s e \<and> t = take e s"
  using is_char_boundary_le by (auto simp: str_upto_def str_get_Some_iff)

lemma str_from_Some_iff: "str_from s b = Some t \<longleftrightarrow> is_char_boundary s b \<and> t = drop b s"
  using is_char_boundary_le by (auto simp: str_from_def str_get_Some_iff)

lemma str_get_valid:
  assumes "valid_utf8 s" and "str_get s (b, e) = Some t"
  shows "valid_utf8 t"
proof -
  from assms(2) have r: "b \<le> e" "e \<le> length s" "is_char_boundary s b" "is_char_boundary s e"
    and t: "t = take (e - b) (drop b s)"
    by (auto simp: str_get_Some_iff)
  have db: "valid_utf8 (drop b s)"
    using valid_utf8_take_drop [OF assms(1) r(3)] by simp
  have "starts_char (drop (e - b) (drop b s))"
    using boundary_starts_char [OF assms(1) r(4)] r(1) by simp
  with db show ?thesis
    unfolding t by (metis append_take_drop_id valid_utf8_append_iff)
qed

subsection \<open>Prefixes, suffixes and ASCII delimiters\<close>

definition strip_prefix :: "string \<Rightarrow> string \<Rightarrow> string option" where
  "strip_prefix p s = (if prefix p s then Some (drop (length p) s) else None)"

definition strip_suffix :: "string \<Rightarrow> string \<Rightarrow> string option" where
  "strip_suffix p s = (if suffix p s then Some (take (length s - length p) s) else None)"

lemma strip_prefix_append [simp]: "strip_prefix p (p @ s) = Some s"
  by (simp add: strip_prefix_def)

lemma strip_suffix_append [simp]: "strip_suffix p (s @ p) = Some s"
  by (simp add: strip_suffix_def suffix_def)

lemma strip_prefix_Some: "strip_prefix p s = Some t \<longleftrightarrow> s = p @ t"
  by (auto simp: strip_prefix_def prefix_def)

lemma strip_suffix_Some: "strip_suffix p s = Some t \<longleftrightarrow> s = t @ p"
  by (auto simp: strip_suffix_def suffix_def)

text \<open>\<^verbatim>\<open>str::contains(&str)\<close>.\<close>

fun str_contains :: "string \<Rightarrow> string \<Rightarrow> bool" where
  "str_contains p [] = (p = [])"
| "str_contains p (c # s) = (prefix p (c # s) \<or> str_contains p s)"

text \<open>\<^verbatim>\<open>str::split_once(c)\<close> and \<^verbatim>\<open>str::rsplit_once(c)\<close> for an ASCII delimiter.\<close>

fun split_once :: "char \<Rightarrow> string \<Rightarrow> (string \<times> string) option" where
  "split_once d [] = None"
| "split_once d (c # s) =
     (if c = d then Some ([], s)
      else map_option (\<lambda>(a, b). (c # a, b)) (split_once d s))"

definition rsplit_once :: "char \<Rightarrow> string \<Rightarrow> (string \<times> string) option" where
  "rsplit_once d s = map_option (\<lambda>(a, b). (rev b, rev a)) (split_once d (rev s))"

lemma split_once_None_iff: "split_once d s = None \<longleftrightarrow> d \<notin> set s"
  by (induction s) auto

lemma split_once_Some_iff: "split_once d s = Some (a, b) \<longleftrightarrow> s = a @ d # b \<and> d \<notin> set a"
proof (induction s arbitrary: a)
  case (Cons c s)
  then show ?case
    by (cases a) auto
qed simp

lemma rsplit_once_None_iff: "rsplit_once d s = None \<longleftrightarrow> d \<notin> set s"
  by (simp add: rsplit_once_def split_once_None_iff)

lemma rsplit_once_Some_iff: "rsplit_once d s = Some (a, b) \<longleftrightarrow> s = a @ d # b \<and> d \<notin> set b"
proof -
  have "rsplit_once d s = Some (a, b) \<longleftrightarrow> split_once d (rev s) = Some (rev b, rev a)"
    by (auto simp: rsplit_once_def map_option_eq_Some)
  also have "\<dots> \<longleftrightarrow> rev s = rev b @ d # rev a \<and> d \<notin> set b"
    by (simp add: split_once_Some_iff)
  also have "rev s = rev b @ d # rev a \<longleftrightarrow> s = a @ d # b"
    by (metis append.assoc append_Cons append_Nil rev.simps(2) rev_append rev_rev_ident)
  finally show ?thesis .
qed

text \<open>\<^verbatim>\<open>str::split(c)\<close> for an ASCII delimiter, and the join that inverts it.\<close>

fun split_on :: "char \<Rightarrow> string \<Rightarrow> string list" where
  "split_on d [] = [[]]"
| "split_on d (c # s) =
     (if c = d then [] # split_on d s
      else (case split_on d s of [] \<Rightarrow> [[c]] | w # ws \<Rightarrow> (c # w) # ws))"

fun join_with :: "string \<Rightarrow> string list \<Rightarrow> string" where
  "join_with sep [] = []"
| "join_with sep [w] = w"
| "join_with sep (w # v # ws) = w @ sep @ join_with sep (v # ws)"

lemma split_on_nonempty [simp]: "split_on d s \<noteq> []"
  by (induction s) (auto split: list.splits)

lemma join_with_Cons: "ws \<noteq> [] \<Longrightarrow> join_with sep (w # ws) = w @ sep @ join_with sep ws"
  by (cases ws) auto

lemma join_split_on [simp]: "join_with [d] (split_on d s) = s"
proof (induction s)
  case (Cons c s)
  show ?case
  proof (cases "split_on d s")
    case Nil
    then show ?thesis by simp
  next
    case (Cons w ws)
    with Cons.IH show ?thesis
      by (cases ws) (auto simp: join_with_Cons)
  qed
qed simp

lemma split_on_no_delim: "w \<in> set (split_on d s) \<Longrightarrow> d \<notin> set w"
  by (induction s arbitrary: w) (auto split: list.splits if_splits)

lemma split_on_id: "d \<notin> set s \<Longrightarrow> split_on d s = [s]"
  by (induction s) auto

lemma split_on_append: "d \<notin> set a \<Longrightarrow> split_on d (a @ d # s) = a # split_on d s"
  by (induction a) auto

lemma split_join_with:
  "ws \<noteq> [] \<Longrightarrow> \<forall>w\<in>set ws. d \<notin> set w \<Longrightarrow> split_on d (join_with [d] ws) = ws"
proof (induction ws)
  case (Cons w ws)
  then show ?case
    by (cases ws) (auto simp: split_on_id split_on_append join_with_Cons)
qed simp

text \<open>\<^verbatim>\<open>str::split_inclusive(c)\<close>: every piece keeps its terminator, and there is no empty last piece.\<close>

fun split_inclusive :: "char \<Rightarrow> string \<Rightarrow> string list" where
  "split_inclusive d [] = []"
| "split_inclusive d (c # s) =
     (if c = d then [c] # split_inclusive d s
      else (case split_inclusive d s of [] \<Rightarrow> [[c]] | w # ws \<Rightarrow> (c # w) # ws))"

lemma concat_split_inclusive [simp]: "concat (split_inclusive d s) = s"
  by (induction s) (auto split: list.splits)

subsection \<open>Trimming\<close>

text \<open>\<^verbatim>\<open>char::is_whitespace\<close>: the Unicode White_Space property, on the bytes of one character.\<close>

definition is_ws_char :: "string \<Rightarrow> bool" where
  "is_ws_char g =
     (case map byte g of
        [a] \<Rightarrow> (9 \<le> a \<and> a \<le> 13) \<or> a = 32
      | [a, b] \<Rightarrow> a = 194 \<and> (b = 133 \<or> b = 160)
      | [a, b, c] \<Rightarrow>
          (a = 225 \<and> b = 154 \<and> c = 128)
          \<or> (a = 226 \<and> b = 128 \<and> ((128 \<le> c \<and> c \<le> 138) \<or> c = 168 \<or> c = 169 \<or> c = 175))
          \<or> (a = 226 \<and> b = 129 \<and> c = 159)
          \<or> (a = 227 \<and> b = 128 \<and> c = 128)
      | _ \<Rightarrow> False)"

definition str_trim :: "string \<Rightarrow> string" where
  "str_trim s =
     concat (rev (dropWhile is_ws_char (rev (dropWhile is_ws_char (chars s)))))"

text \<open>\<^verbatim>\<open>trim_matches(c)\<close> for one ASCII character and \<^verbatim>\<open>trim_end_matches\<close> for a set of them.\<close>

definition trim_matches :: "char \<Rightarrow> string \<Rightarrow> string" where
  "trim_matches d s = rev (dropWhile ((=) d) (rev (dropWhile ((=) d) s)))"

definition trim_end_matches :: "char list \<Rightarrow> string \<Rightarrow> string" where
  "trim_end_matches ds s = rev (dropWhile (\<lambda>c. c \<in> set ds) (rev s))"

subsection \<open>ASCII classes\<close>

definition is_ascii_digit :: "char \<Rightarrow> bool" where
  "is_ascii_digit c \<longleftrightarrow> 48 \<le> byte c \<and> byte c \<le> 57"

definition is_ascii_alphabetic :: "char \<Rightarrow> bool" where
  "is_ascii_alphabetic c \<longleftrightarrow> (65 \<le> byte c \<and> byte c \<le> 90) \<or> (97 \<le> byte c \<and> byte c \<le> 122)"

definition is_ascii_alphanumeric :: "char \<Rightarrow> bool" where
  "is_ascii_alphanumeric c \<longleftrightarrow> is_ascii_alphabetic c \<or> is_ascii_digit c"

text \<open>\<^verbatim>\<open>u8::is_ascii_whitespace\<close>: space, tab, line feed, form feed, carriage return.\<close>

definition is_ascii_whitespace :: "char \<Rightarrow> bool" where
  "is_ascii_whitespace c \<longleftrightarrow> byte c = 32 \<or> byte c = 9 \<or> byte c = 10 \<or> byte c = 12 \<or> byte c = 13"

end
