(* ===== verification/Md_Ast.thy ===== *)
theory Md_Ast
  imports Utf8
begin

section \<open>The Markdown tree\<close>

text \<open>
  The tree the user interface renders (\<^verbatim>\<open>markdown/ast.rs\<close>), its rendered text (\<^verbatim>\<open>rendered_text\<close> in
  \<^verbatim>\<open>markdown/spans.rs\<close>) and the lookup of a node by \<^verbatim>\<open>block_path\<close> (\<^verbatim>\<open>node_at_path\<close> in
  \<^verbatim>\<open>workspace/persist.rs\<close>). The lemmas give the rendered text of concatenated contents, in bytes and
  in characters.
\<close>

record text_run =
  tr_content :: string
  tr_bold :: bool
  tr_italic :: bool
  tr_strikethrough :: bool
  tr_code :: bool

datatype inline_element =
    Text text_run
  | Link string bool "inline_element list"
  | ExternalLink string "inline_element list"

datatype ast_node =
    Heading nat "inline_element list"
  | Paragraph "inline_element list"
  | MList bool "ast_node list"
  | ListItem "ast_node list" "bool option"
  | Blockquote "ast_node list"
  | CodeBlock "string option" string
  | ThematicBreak
  | Image string string
  | Suggestion "ast_node list option" "ast_node list" "ast_node list"

subsection \<open>Rendered text\<close>

fun push_inline_text :: "inline_element list \<Rightarrow> string \<Rightarrow> string" where
  "push_inline_text [] out = out"
| "push_inline_text (Text run # es) out = push_inline_text es (out @ tr_content run)"
| "push_inline_text (Link t e content # es) out =
     push_inline_text es (push_inline_text content out)"
| "push_inline_text (ExternalLink u content # es) out =
     push_inline_text es (push_inline_text content out)"

definition rendered_inline_text :: "inline_element list \<Rightarrow> string" where
  "rendered_inline_text content = push_inline_text content []"

fun rendered_text :: "ast_node \<Rightarrow> string" where
  "rendered_text (Heading _ content) = rendered_inline_text content"
| "rendered_text (Paragraph content) = rendered_inline_text content"
| "rendered_text (MList _ items) = join_with [LF] (map rendered_text items)"
| "rendered_text (ListItem content _) = join_with [LF] (map rendered_text content)"
| "rendered_text (Blockquote nodes) = join_with [LF] (map rendered_text nodes)"
| "rendered_text (CodeBlock _ code) = code"
| "rendered_text ThematicBreak = []"
| "rendered_text (Image alt_text _) = alt_text"
| "rendered_text (Suggestion base local_c incoming) =
     join_with [LF]
       ((case base of None \<Rightarrow> [] | Some b \<Rightarrow> map rendered_text b)
        @ map rendered_text local_c @ map rendered_text incoming)"

text \<open>The text of one inline element; \<open>push_inline_text\<close> appends these in order.\<close>

fun inline_text :: "inline_element \<Rightarrow> string" where
  "inline_text (Text run) = tr_content run"
| "inline_text (Link t e content) = concat (map inline_text content)"
| "inline_text (ExternalLink u content) = concat (map inline_text content)"

lemma push_inline_text_concat: "push_inline_text es out = out @ concat (map inline_text es)"
  by (induction es out rule: push_inline_text.induct) simp_all

lemma rendered_inline_text_concat [simp]:
  "rendered_inline_text es = concat (map inline_text es)"
  by (simp add: rendered_inline_text_def push_inline_text_concat)

subsection \<open>Addressing\<close>

text \<open>The list \<^verbatim>\<open>node_at_path\<close> descends into; every other node has none, and the descent fails there.\<close>

fun node_children :: "ast_node \<Rightarrow> ast_node list" where
  "node_children (MList _ items) = items"
| "node_children (ListItem content _) = content"
| "node_children (Blockquote nodes) = nodes"
| "node_children (Suggestion _ local_c _) = local_c"
| "node_children _ = []"

fun node_at_path :: "ast_node list \<Rightarrow> nat list \<Rightarrow> ast_node option" where
  "node_at_path nodes [] = None"
| "node_at_path nodes (i # path) =
     (if i < length nodes
      then (if path = [] then Some (nodes ! i) else node_at_path (node_children (nodes ! i)) path)
      else None)"

lemma node_at_path_snoc:
  "path \<noteq> [] \<Longrightarrow>
   node_at_path nodes (path @ [i]) =
     (case node_at_path nodes path of
        None \<Rightarrow> None
      | Some n \<Rightarrow> if i < length (node_children n) then Some (node_children n ! i) else None)"
  by (induction path arbitrary: nodes) (auto split: option.splits)

end
