(* ===== verification/Md_Spans.thy ===== *)
theory Md_Spans
  imports Md_Ast
begin

section \<open>The span map\<close>

text \<open>
  \<^verbatim>\<open>markdown/spans.rs\<close>: the map from a \<open>block_path\<close> to the bytes of the note's source it was parsed from,
  with the inline runs inside each block. Offsets are naturals (\<^verbatim>\<open>usize\<close>); the signed delta of a buffered
  edit is an integer, and the saturating addition is written out. The lookups through child indices
  recurse on a depth bound taken from the longest path of the map; \<open>resolve_at_unfold\<close> shows that the bound
  is enough, so the recursion is the one of the source.
\<close>

type_synonym block_path = "nat list"

record inline_run =
  ir_rendered :: range
  ir_source :: range
  ir_interpolable :: bool

record block_span =
  bs_path :: block_path
  bs_source :: range
  bs_runs :: "inline_run list"
  bs_rendered_len :: nat
  bs_children :: "nat list"

definition is_leaf :: "block_span \<Rightarrow> bool" where
  "is_leaf b \<longleftrightarrow> bs_children b = []"

record rendered_range =
  rr_start_path :: block_path
  rr_start_offset :: nat
  rr_end_path :: block_path
  rr_end_offset :: nat

datatype source_resolution =
    Exact nat
  | Boundary (before: nat) (after: nat)
  | Atomic range

fun res_start :: "source_resolution \<Rightarrow> nat" where
  "res_start (Exact offset) = offset"
| "res_start (Boundary _ a) = a"
| "res_start (Atomic r) = fst r"

fun res_end :: "source_resolution \<Rightarrow> nat" where
  "res_end (Exact offset) = offset"
| "res_end (Boundary b _) = b"
| "res_end (Atomic r) = snd r"

record span_map =
  sm_blocks :: "block_span list"
  sm_by_path :: "block_path \<Rightarrow> nat option"
  sm_frontmatter :: "range option"

subsection \<open>Lookups\<close>

definition block :: "span_map \<Rightarrow> block_path \<Rightarrow> block_span option" where
  "block m path = map_option (\<lambda>index. sm_blocks m ! index) (sm_by_path m path)"

definition block_source :: "span_map \<Rightarrow> string \<Rightarrow> block_path \<Rightarrow> string option" where
  "block_source m src path = Option.bind (block m path) (\<lambda>span. str_get src (bs_source span))"

text \<open>
  The loop over the children of a container: the child that holds the offset, and the offset inside it.
  Children are joined by one byte, and the joiner belongs to the child before it.
\<close>

fun child_at :: "block_span list \<Rightarrow> nat list \<Rightarrow> nat \<Rightarrow> nat \<Rightarrow> (nat \<times> nat) option" where
  "child_at blocks [] consumed rendered_offset = None"
| "child_at blocks (child # children) consumed rendered_offset =
     (let child_len = bs_rendered_len (blocks ! child) in
      if rendered_offset \<le> consumed + child_len then Some (child, rendered_offset - consumed)
      else child_at blocks children (consumed + child_len + 1) rendered_offset)"

text \<open>The loop over the runs of a leaf.\<close>

fun resolve_runs :: "string \<Rightarrow> block_span \<Rightarrow> inline_run list \<Rightarrow> nat option \<Rightarrow> nat \<Rightarrow> source_resolution option" where
  "resolve_runs src blk [] previous_end off =
     (let e = (if bs_runs blk = [] then fst (bs_source blk) else snd (ir_source (last (bs_runs blk))))
      in Some (Boundary e e))"
| "resolve_runs src blk (run # runs) previous_end off =
     (if off = fst (ir_rendered run)
      then Some (Boundary (case previous_end of None \<Rightarrow> fst (ir_source run) | Some e \<Rightarrow> e)
                          (fst (ir_source run)))
      else if off < snd (ir_rendered run)
      then (if \<not> ir_interpolable run then Some (Atomic (ir_source run))
            else (case str_get src (ir_source run) of
                    None \<Rightarrow> None
                  | Some t \<Rightarrow>
                      (let within = off - fst (ir_rendered run) in
                       if within < length (chars t)
                       then Some (Exact (fst (ir_source run) + length (concat (take within (chars t)))))
                       else None)))
      else resolve_runs src blk runs (Some (snd (ir_source run))) off)"

text \<open>\<^verbatim>\<open>resolve_at\<close> and \<^verbatim>\<open>resolve_leaf_at\<close>, on a depth bound.\<close>

definition path_depth :: "span_map \<Rightarrow> nat" where
  "path_depth m = Suc (foldr max (map (\<lambda>b. length (bs_path b)) (sm_blocks m)) 0)"

fun resolve_at_fuel :: "nat \<Rightarrow> span_map \<Rightarrow> string \<Rightarrow> nat \<Rightarrow> nat \<Rightarrow> source_resolution option" where
  "resolve_at_fuel 0 m src index off = None"
| "resolve_at_fuel (Suc n) m src index off =
     (let blk = sm_blocks m ! index in
      if bs_rendered_len blk < off then None
      else if bs_children blk \<noteq> []
      then (case child_at (sm_blocks m) (bs_children blk) 0 off of
              None \<Rightarrow> None
            | Some (child, rest) \<Rightarrow> resolve_at_fuel n m src child rest)
      else resolve_runs src blk (bs_runs blk) None off)"

definition resolve_at :: "span_map \<Rightarrow> string \<Rightarrow> nat \<Rightarrow> nat \<Rightarrow> source_resolution option" where
  "resolve_at m src index off = resolve_at_fuel (path_depth m) m src index off"

fun resolve_leaf_at_fuel ::
    "nat \<Rightarrow> span_map \<Rightarrow> string \<Rightarrow> nat \<Rightarrow> nat \<Rightarrow> (nat \<times> source_resolution) option" where
  "resolve_leaf_at_fuel 0 m src index off = None"
| "resolve_leaf_at_fuel (Suc n) m src index off =
     (let blk = sm_blocks m ! index in
      if bs_rendered_len blk < off then None
      else if bs_children blk = []
      then map_option (Pair index) (resolve_at m src index off)
      else (case child_at (sm_blocks m) (bs_children blk) 0 off of
              None \<Rightarrow> None
            | Some (child, rest) \<Rightarrow> resolve_leaf_at_fuel n m src child rest))"

definition resolve_leaf_at ::
    "span_map \<Rightarrow> string \<Rightarrow> nat \<Rightarrow> nat \<Rightarrow> (nat \<times> source_resolution) option" where
  "resolve_leaf_at m src index off = resolve_leaf_at_fuel (path_depth m) m src index off"

definition resolve_offset :: "span_map \<Rightarrow> string \<Rightarrow> block_path \<Rightarrow> nat \<Rightarrow> source_resolution option" where
  "resolve_offset m src path off =
     Option.bind (sm_by_path m path) (\<lambda>index. resolve_at m src index off)"

definition span_resolve_range :: "span_map \<Rightarrow> string \<Rightarrow> rendered_range \<Rightarrow> range option" where
  "span_resolve_range m src r =
     Option.bind (resolve_offset m src (rr_start_path r) (rr_start_offset r)) (\<lambda>rs.
     Option.bind (resolve_offset m src (rr_end_path r) (rr_end_offset r)) (\<lambda>re.
       if res_end re < res_start rs then None else Some (res_start rs, res_end re)))"

subsection \<open>UTF-16 offsets\<close>

fun utf16_scalar_loop :: "string list \<Rightarrow> nat \<Rightarrow> nat \<Rightarrow> nat \<Rightarrow> nat option" where
  "utf16_scalar_loop [] scalar units u = (if u = units then Some scalar else None)"
| "utf16_scalar_loop (g # gs) scalar units u =
     (if u = units then Some scalar
      else if u < units + len_utf16 g then None
      else utf16_scalar_loop gs (Suc scalar) (units + len_utf16 g) u)"

definition utf16_to_scalar_offset :: "string \<Rightarrow> nat \<Rightarrow> nat option" where
  "utf16_to_scalar_offset text u = utf16_scalar_loop (chars text) 0 0 u"

fun utf16_byte_loop :: "string list \<Rightarrow> nat \<Rightarrow> nat \<Rightarrow> nat \<Rightarrow> nat option" where
  "utf16_byte_loop [] b units u = (if u = units then Some b else None)"
| "utf16_byte_loop (g # gs) b units u =
     (if u = units then Some b
      else if u < units + len_utf16 g then None
      else utf16_byte_loop gs (b + length g) (units + len_utf16 g) u)"

definition utf16_to_byte_offset :: "string \<Rightarrow> nat \<Rightarrow> nat option" where
  "utf16_to_byte_offset text u = utf16_byte_loop (chars text) 0 0 u"

definition resolve_utf16_caret ::
    "span_map \<Rightarrow> string \<Rightarrow> block_path \<Rightarrow> string \<Rightarrow> nat \<Rightarrow> (block_path \<times> nat) option" where
  "resolve_utf16_caret m src top_level_path rendered u =
     (if length top_level_path \<noteq> 1 then None
      else Option.bind (sm_by_path m top_level_path) (\<lambda>index.
        let blk = sm_blocks m ! index in
        if char_count rendered \<noteq> bs_rendered_len blk then None
        else Option.bind (utf16_to_scalar_offset rendered u) (\<lambda>off.
          Option.bind (resolve_leaf_at m src index off) (\<lambda>(leaf_index, resolution).
            let leaf = sm_blocks m ! leaf_index; source_offset = res_start resolution in
            Option.bind (str_get src (bs_source leaf)) (\<lambda>leaf_source.
              if source_offset < fst (bs_source leaf) then None
              else Option.bind (str_upto leaf_source (source_offset - fst (bs_source leaf))) (\<lambda>pre.
                Some (bs_path leaf, utf16_count pre)))))))"

subsection \<open>A buffered edit\<close>

text \<open>\<^verbatim>\<open>usize::saturating_add_signed\<close>, below the machine bound.\<close>

definition shift :: "int \<Rightarrow> nat \<Rightarrow> nat" where
  "shift delta offset = nat (int offset + delta)"

definition shift_range :: "int \<Rightarrow> range \<Rightarrow> range" where
  "shift_range delta r = (shift delta (fst r), shift delta (snd r))"

definition edit_block :: "block_path \<Rightarrow> nat \<Rightarrow> range \<Rightarrow> int \<Rightarrow> nat \<Rightarrow> block_span \<Rightarrow> block_span" where
  "edit_block path index old delta position b =
     (if position = index
      then b\<lparr>bs_source := (fst (bs_source b), shift delta (snd (bs_source b)))\<rparr>
      else if snd old \<le> fst (bs_source b)
      then b\<lparr>bs_source := shift_range delta (bs_source b),
             bs_runs := map (\<lambda>run. run\<lparr>ir_source := shift_range delta (ir_source run)\<rparr>) (bs_runs b)\<rparr>
      else if prefix (bs_path b) path
      then b\<lparr>bs_source := (fst (bs_source b), shift delta (snd (bs_source b)))\<rparr>
      else b)"

definition apply_buffered_edit :: "span_map \<Rightarrow> block_path \<Rightarrow> nat \<Rightarrow> span_map \<times> range option" where
  "apply_buffered_edit m path new_len =
     (case sm_by_path m path of
        None \<Rightarrow> (m, None)
      | Some index \<Rightarrow>
          if \<not> is_leaf (sm_blocks m ! index) then (m, None)
          else
            (let old = bs_source (sm_blocks m ! index);
                 delta = int new_len - (int (snd old) - int (fst old))
             in if delta = 0 then (m, Some old)
                else (m\<lparr>sm_blocks :=
                          map (\<lambda>(position, b). edit_block path index old delta position b)
                            (enumerate 0 (sm_blocks m))\<rparr>, Some old)))"

subsection \<open>The builder\<close>

record span_builder =
  sb_blocks :: "block_span list"
  sb_frontmatter :: "range option"

definition builder_push_block ::
    "span_builder \<Rightarrow> block_path \<Rightarrow> range \<Rightarrow> inline_run list \<Rightarrow> span_builder" where
  "builder_push_block sb path src runs =
     sb\<lparr>sb_blocks := sb_blocks sb @
        [\<lparr>bs_path = path, bs_source = src, bs_runs = runs,
          bs_rendered_len = (if runs = [] then 0 else snd (ir_rendered (last runs))),
          bs_children = []\<rparr>]\<rparr>"

definition set_frontmatter :: "span_builder \<Rightarrow> range \<Rightarrow> span_builder" where
  "set_frontmatter sb src = sb\<lparr>sb_frontmatter := Some src\<rparr>"

text \<open>
  \<^verbatim>\<open>finish\<close>, in its four passes: the path index (a later block with the same path replaces an earlier
  one), the child lists, their order, and the rendered lengths of the containers, deepest first.
\<close>

definition index_by_path :: "block_span list \<Rightarrow> block_path \<Rightarrow> nat option" where
  "index_by_path blocks =
     foldl (\<lambda>by_path (index, b). by_path(bs_path b \<mapsto> index)) Map.empty (enumerate 0 blocks)"

definition push_child :: "block_span list \<Rightarrow> nat \<Rightarrow> nat \<Rightarrow> block_span list" where
  "push_child blocks parent index =
     blocks[parent := (blocks ! parent)\<lparr>bs_children := bs_children (blocks ! parent) @ [index]\<rparr>]"

definition link_child :: "(block_path \<Rightarrow> nat option) \<Rightarrow> block_span list \<Rightarrow> nat \<Rightarrow> block_span list" where
  "link_child by_path blocks index =
     (let path = bs_path (blocks ! index) in
      if length path < 2 then blocks
      else (case by_path (butlast path) of
              None \<Rightarrow> blocks
            | Some parent \<Rightarrow> push_child blocks parent index))"

definition last_component :: "block_span list \<Rightarrow> nat \<Rightarrow> nat" where
  "last_component blocks child =
     (let path = bs_path (blocks ! child) in if path = [] then 0 else last path)"

definition container_len :: "block_span list \<Rightarrow> nat \<Rightarrow> block_span list" where
  "container_len blocks index =
     (let b = blocks ! index in
      if bs_children b = [] then blocks
      else blocks[index := b\<lparr>bs_rendered_len :=
              sum_list (map (\<lambda>child. bs_rendered_len (blocks ! child)) (bs_children b))
              + length (bs_children b) - 1\<rparr>])"

definition by_depth :: "block_span list \<Rightarrow> nat list" where
  "by_depth blocks =
     sort_key (\<lambda>index. - int (length (bs_path (blocks ! index)))) [0..<length blocks]"

definition builder_finish :: "span_builder \<Rightarrow> span_map" where
  "builder_finish sb =
     (let blocks = sb_blocks sb;
          by_path = index_by_path blocks;
          linked = foldl (link_child by_path) blocks [0..<length blocks];
          sorted_b = map (\<lambda>b. b\<lparr>bs_children := sort_key (last_component linked) (bs_children b)\<rparr>) linked;
          final = foldl container_len sorted_b (by_depth sorted_b)
      in \<lparr>sm_blocks = final, sm_by_path = by_path, sm_frontmatter = sb_frontmatter sb\<rparr>)"


section \<open>Facts on the span map\<close>

subsection \<open>Characters and UTF-16 positions\<close>

lemma chars_concat_take: "chars (concat (take k (chars t))) = take k (chars t)"
proof (induction t arbitrary: k rule: chars.induct)
  case (2 c cs)
  show ?case
  proof (cases k)
    case (Suc n)
    let ?tl = "concat (take n (chars (dropWhile is_cont cs)))"
    have "starts_char ?tl"
    proof (cases "dropWhile is_cont cs")
      case Nil
      show ?thesis unfolding Nil by simp
    next
      case (Cons d ds)
      then have "\<not> is_cont d"
        using hd_dropWhile [of is_cont cs] by simp
      then show ?thesis
        unfolding Cons by (cases n) simp_all
    qed
    moreover have "takeWhile is_cont (takeWhile is_cont cs @ ?tl) = takeWhile is_cont cs"
      by (simp add: takeWhile_cont_append \<open>starts_char ?tl\<close>)
    moreover have "dropWhile is_cont (takeWhile is_cont cs @ ?tl) = ?tl"
      by (simp add: dropWhile_cont_append \<open>starts_char ?tl\<close>) (metis dropWhile_eq_Nil_conv set_takeWhileD)
    ultimately show ?thesis
      using Suc 2 by simp
  qed simp
qed simp

lemma concat_take_chars: "concat (take k (chars t)) = take (length (concat (take k (chars t)))) t"
  by (metis append_eq_conv_conj append_take_drop_id concat_append concat_chars)

lemma starts_char_concat_drop:
  "starts_char t \<Longrightarrow> starts_char (concat (drop k (chars t)))"
proof (induction t arbitrary: k rule: chars.induct)
  case (2 c cs)
  show ?case
  proof (cases k)
    case 0
    then show ?thesis using 2 by simp
  next
    case (Suc n)
    have "starts_char (dropWhile is_cont cs)"
      using hd_dropWhile [of is_cont cs] by (auto simp: starts_char_def)
    then show ?thesis using 2 Suc by simp
  qed
qed simp

lemma char_boundary_iff:
  assumes "starts_char t"
  shows "is_char_boundary t b \<longleftrightarrow>
    (\<exists>k\<le>length (chars t). b = length (concat (take k (chars t))))" (is "?L \<longleftrightarrow> ?R")
proof
  assume ?R
  then obtain k where k: "b = length (concat (take k (chars t)))" by blast
  have "drop b t = concat (drop k (chars t))"
    unfolding k by (metis append_eq_conv_conj append_take_drop_id concat_append concat_chars)
  moreover have "b \<le> length t"
    unfolding k by (metis append_take_drop_id concat_append concat_chars le_add1 length_append)
  ultimately show ?L
    using starts_char_concat_drop [OF assms, of k] by (simp add: starts_char_boundary)
next
  assume L: ?L
  then have le: "b \<le> length t" by (rule is_char_boundary_le)
  have "starts_char (drop b t)"
    using L assms by (cases "b = 0") (auto simp: is_char_boundary_def starts_char_def hd_drop_conv_nth split: if_splits)
  then have "chars t = chars (take b t) @ chars (drop b t)"
    by (metis append_take_drop_id chars_append)
  then have "take (length (chars (take b t))) (chars t) = chars (take b t)"
    and "length (chars (take b t)) \<le> length (chars t)"
    by simp_all
  then show ?R
    using le by (intro exI [of _ "length (chars (take b t))"]) simp
qed

lemma take_boundary_chars:
  assumes "b = length (concat (take k (chars t)))"
  shows "chars (take b t) = take k (chars t)"
  using assms chars_concat_take concat_take_chars by metis

lemma utf16_byte_loop_iff:
  "utf16_byte_loop gs b units u = Some r \<longleftrightarrow>
   (\<exists>k\<le>length gs. u = units + sum_list (map len_utf16 (take k gs)) \<and> r = b + length (concat (take k gs)))"
  (is "_ = (\<exists>k\<le>_. ?P gs b units k)")
proof (induction gs arbitrary: b units)
  case (Cons g gs)
  have split: "(\<exists>k\<le>Suc (length gs). ?P (g # gs) b units k) \<longleftrightarrow>
      ?P (g # gs) b units 0 \<or> (\<exists>k\<le>length gs. ?P (g # gs) b units (Suc k))"
    by (rule ex_le_Suc)
  have zero: "(\<exists>k\<le>length gs. ?P (g # gs) b units (Suc k)) \<Longrightarrow> units + len_utf16 g \<le> u"
    by auto
  have step: "(\<exists>k\<le>length gs. ?P (g # gs) b units (Suc k)) \<longleftrightarrow>
      utf16_byte_loop gs (b + length g) (units + len_utf16 g) u = Some r"
    unfolding Cons.IH by (simp add: add.assoc)
  show ?case
  proof (cases "units + len_utf16 g \<le> u")
    case True
    then have "u \<noteq> units" by (metis add_le_same_cancel1 le_zero_eq len_utf16_neq_0)
    with True step show ?thesis
      unfolding length_Cons split by simp
  next
    case False
    with zero show ?thesis
      unfolding length_Cons split by auto
  qed
qed auto

lemma utf16_scalar_loop_iff:
  "utf16_scalar_loop gs scalar units u = Some r \<longleftrightarrow>
   (\<exists>k\<le>length gs. u = units + sum_list (map len_utf16 (take k gs)) \<and> r = scalar + k)"
  (is "_ = (\<exists>k\<le>_. ?P gs scalar units k)")
proof (induction gs arbitrary: scalar units)
  case (Cons g gs)
  have split: "(\<exists>k\<le>Suc (length gs). ?P (g # gs) scalar units k) \<longleftrightarrow>
      ?P (g # gs) scalar units 0 \<or> (\<exists>k\<le>length gs. ?P (g # gs) scalar units (Suc k))"
    by (rule ex_le_Suc)
  have zero: "(\<exists>k\<le>length gs. ?P (g # gs) scalar units (Suc k)) \<Longrightarrow> units + len_utf16 g \<le> u"
    by auto
  have step: "(\<exists>k\<le>length gs. ?P (g # gs) scalar units (Suc k)) \<longleftrightarrow>
      utf16_scalar_loop gs (Suc scalar) (units + len_utf16 g) u = Some r"
    unfolding Cons.IH by (simp add: add.assoc)
  show ?case
  proof (cases "units + len_utf16 g \<le> u")
    case True
    then have "u \<noteq> units" by (metis add_le_same_cancel1 le_zero_eq len_utf16_neq_0)
    with True step show ?thesis
      unfolding length_Cons split by simp
  next
    case False
    with zero show ?thesis
      unfolding length_Cons split by auto
  qed
qed auto

lemma utf16_byte_spec:
  assumes "starts_char t"
  shows "utf16_to_byte_offset t u = Some b \<longleftrightarrow> is_char_boundary t b \<and> utf16_count (take b t) = u"
proof -
  have "is_char_boundary t b \<and> utf16_count (take b t) = u \<longleftrightarrow>
    (\<exists>k\<le>length (chars t). u = sum_list (map len_utf16 (take k (chars t)))
        \<and> b = length (concat (take k (chars t))))"
    unfolding char_boundary_iff [OF assms] utf16_count_def using take_boundary_chars by metis
  then show ?thesis
    by (simp add: utf16_to_byte_offset_def utf16_byte_loop_iff)
qed

lemma utf16_scalar_spec:
  assumes "starts_char t"
  shows "utf16_to_scalar_offset t u = Some n \<longleftrightarrow>
    (\<exists>b. utf16_to_byte_offset t u = Some b \<and> n = char_count (take b t))"
  unfolding utf16_to_scalar_offset_def utf16_to_byte_offset_def utf16_scalar_loop_iff
    utf16_byte_loop_iff char_count_def
  using take_boundary_chars by (metis (no_types, lifting) add_0 length_take min.absorb2)


subsection \<open>The finished map\<close>

lemma index_by_path_snoc:
  "index_by_path (blocks @ [b]) = (index_by_path blocks)(bs_path b \<mapsto> length blocks)"
  by (simp add: index_by_path_def enumerate_append_eq)

lemma index_by_path_Some:
  "index_by_path blocks p = Some i \<Longrightarrow> i < length blocks \<and> bs_path (blocks ! i) = p"
proof (induction blocks rule: rev_induct)
  case Nil
  then show ?case by (simp add: index_by_path_def)
next
  case (snoc b blocks)
  then show ?case
    by (auto simp: index_by_path_snoc nth_append split: if_splits)
qed

lemma index_by_path_dom: "dom (index_by_path blocks) = bs_path ` set blocks"
proof (induction blocks rule: rev_induct)
  case Nil
  show ?case by (simp add: index_by_path_def)
next
  case (snoc b blocks)
  then show ?case by (simp add: index_by_path_snoc del: fun_upd_apply)
qed

lemma index_by_path_distinct:
  assumes "distinct (map bs_path blocks)" and "i < length blocks"
  shows "index_by_path blocks (bs_path (blocks ! i)) = Some i"
proof -
  have "bs_path (blocks ! i) \<in> dom (index_by_path blocks)"
    using assms(2) by (simp add: index_by_path_dom)
  then obtain j where "index_by_path blocks (bs_path (blocks ! i)) = Some j" by blast
  moreover from this have j: "j < length blocks" "bs_path (blocks ! j) = bs_path (blocks ! i)"
    using index_by_path_Some by blast+
  then have "j = i"
    using assms nth_eq_iff_index_eq [of "map bs_path blocks" j i] by simp
  ultimately show ?thesis by simp
qed

text \<open>What the four passes leave alone: the paths, the sources and the runs.\<close>

definition same_spans :: "block_span list \<Rightarrow> block_span list \<Rightarrow> bool" where
  "same_spans bs cs \<longleftrightarrow>
     map bs_path bs = map bs_path cs \<and> map bs_source bs = map bs_source cs
     \<and> map bs_runs bs = map bs_runs cs"

lemma same_spans_nth:
  "same_spans bs cs \<Longrightarrow> i < length cs \<Longrightarrow>
   bs_path (bs ! i) = bs_path (cs ! i) \<and> bs_source (bs ! i) = bs_source (cs ! i)
   \<and> bs_runs (bs ! i) = bs_runs (cs ! i)"
  unfolding same_spans_def by (metis length_map nth_map)

lemma same_spans_length: "same_spans bs cs \<Longrightarrow> length bs = length cs"
  unfolding same_spans_def by (metis length_map)

lemma same_spans_refl [simp]: "same_spans bs bs"
  by (simp add: same_spans_def)

lemma same_spans_trans: "same_spans as bs \<Longrightarrow> same_spans bs cs \<Longrightarrow> same_spans as cs"
  by (simp add: same_spans_def)

lemma same_spans_update:
  assumes "\<And>b. bs_path (f b) = bs_path b" "\<And>b. bs_source (f b) = bs_source b" "\<And>b. bs_runs (f b) = bs_runs b"
  shows "same_spans (bs[i := f (bs ! i)]) bs"
  using assms by (cases "i < length bs") (simp_all add: same_spans_def map_update list_update_same_conv list_update_beyond)

lemma same_spans_container_len: "same_spans (container_len bs i) bs"
  unfolding container_len_def Let_def by (simp add: same_spans_update)

lemma same_spans_link_child: "same_spans (link_child bp bs i) bs"
  unfolding link_child_def push_child_def Let_def
  by (auto split: option.split intro: same_spans_update)

lemma foldl_same_spans:
  "(\<And>bs i. same_spans (f bs i) bs) \<Longrightarrow> same_spans (foldl f bs is) bs"
  by (induction "is" arbitrary: bs) (auto intro: same_spans_trans)

lemma link_child_children:
  assumes "p < length bs" and "\<And>q i. bp q = Some i \<Longrightarrow> i < length bs"
  shows "bs_children (link_child bp bs j ! p) =
    bs_children (bs ! p) @
      (if 2 \<le> length (bs_path (bs ! j)) \<and> bp (butlast (bs_path (bs ! j))) = Some p then [j] else [])"
  using assms by (auto simp: link_child_def push_child_def Let_def nth_list_update split: option.split)

lemma link_children:
  assumes "p < length bs" and "set js \<subseteq> {..<length bs}" and "\<And>q i. bp q = Some i \<Longrightarrow> i < length bs"
  shows "bs_children (foldl (link_child bp) bs js ! p) =
    bs_children (bs ! p) @
      filter (\<lambda>j. 2 \<le> length (bs_path (bs ! j)) \<and> bp (butlast (bs_path (bs ! j))) = Some p) js"
  using assms
proof (induction js rule: rev_induct)
  case (snoc j js)
  let ?l = "foldl (link_child bp) bs js"
  have s: "same_spans ?l bs"
    by (rule foldl_same_spans) (rule same_spans_link_child)
  then have len: "length ?l = length bs" by (rule same_spans_length)
  have path: "bs_path (?l ! j) = bs_path (bs ! j)"
    using same_spans_nth [OF s] snoc.prems(2) by simp
  show ?case
    using link_child_children [of p ?l bp j] snoc len path by simp
qed simp


text \<open>The length pass: once it has run over a list ordered deepest first, every container has its children's length.\<close>

definition children_deeper :: "block_span list \<Rightarrow> bool" where
  "children_deeper bs \<longleftrightarrow>
     (\<forall>i<length bs. \<forall>c\<in>set (bs_children (bs ! i)).
        c < length bs \<and> length (bs_path (bs ! i)) < length (bs_path (bs ! c)))"

definition joined_len :: "block_span list \<Rightarrow> nat \<Rightarrow> nat" where
  "joined_len bs i =
     sum_list (map (\<lambda>c. bs_rendered_len (bs ! c)) (bs_children (bs ! i))) + length (bs_children (bs ! i)) - 1"

definition container_done :: "block_span list \<Rightarrow> nat \<Rightarrow> bool" where
  "container_done bs i \<longleftrightarrow> (bs_children (bs ! i) \<noteq> [] \<longrightarrow> bs_rendered_len (bs ! i) = joined_len bs i)"

lemma container_len_nth:
  "k < length bs \<Longrightarrow>
   container_len bs j ! k =
     (if k = j \<and> bs_children (bs ! j) \<noteq> []
      then (bs ! j)\<lparr>bs_rendered_len := joined_len bs j\<rparr> else bs ! k)"
  by (auto simp: container_len_def joined_len_def Let_def nth_list_update)

lemma container_len_length [simp]: "length (container_len bs j) = length bs"
  by (simp add: container_len_def Let_def)

lemma container_len_children:
  "k < length bs \<Longrightarrow> bs_children (container_len bs j ! k) = bs_children (bs ! k)"
  by (simp add: container_len_nth)

lemma children_deeper_container_len:
  assumes "children_deeper bs"
  shows "children_deeper (container_len bs j)"
  unfolding children_deeper_def
proof (intro allI impI ballI)
  fix i c
  assume i: "i < length (container_len bs j)" and "c \<in> set (bs_children (container_len bs j ! i))"
  then have "c \<in> set (bs_children (bs ! i))"
    by (simp add: container_len_children)
  with i assms have "c < length bs" "length (bs_path (bs ! i)) < length (bs_path (bs ! c))"
    unfolding children_deeper_def by auto
  with i show "c < length (container_len bs j) \<and>
      length (bs_path (container_len bs j ! i)) < length (bs_path (container_len bs j ! c))"
    using same_spans_nth [OF same_spans_container_len] by simp
qed

lemma joined_len_container_len:
  assumes "i < length bs" and "j \<notin> set (bs_children (bs ! i))" and "children_deeper bs"
  shows "joined_len (container_len bs j) i = joined_len bs i"
proof -
  have "bs_rendered_len (container_len bs j ! c) = bs_rendered_len (bs ! c)"
    if "c \<in> set (bs_children (bs ! i))" for c
    using that assms by (auto simp: container_len_nth children_deeper_def)
  then show ?thesis
    using assms(1) by (simp add: joined_len_def container_len_children cong: map_cong)
qed

lemma container_done_step:
  assumes "children_deeper bs" and "i < length bs" and "j < length bs"
    and "container_done bs i \<or> i = j" and "length (bs_path (bs ! j)) \<le> length (bs_path (bs ! i))"
  shows "container_done (container_len bs j) i"
proof -
  have "j \<notin> set (bs_children (bs ! i))"
    using assms(1,2,5) unfolding children_deeper_def by (meson leD)
  then have "joined_len (container_len bs j) i = joined_len bs i"
    using assms by (simp add: joined_len_container_len)
  then show ?thesis
    using assms by (auto simp: container_done_def container_len_nth)
qed

lemma container_lens_done:
  assumes "children_deeper bs" and "set js \<subseteq> {..<length bs}"
    and "sorted_wrt (\<lambda>i j. length (bs_path (bs ! j)) \<le> length (bs_path (bs ! i))) js"
  shows "children_deeper (foldl container_len bs js)
    \<and> (\<forall>i\<in>set js. container_done (foldl container_len bs js) i)"
  using assms
proof (induction js rule: rev_induct)
  case (snoc j js)
  let ?l = "foldl container_len bs js"
  have s: "same_spans ?l bs"
    by (rule foldl_same_spans) (rule same_spans_container_len)
  have l: "length ?l = length bs"
    using s by (rule same_spans_length)
  have IH: "children_deeper ?l" "\<forall>i\<in>set js. container_done ?l i"
    using snoc by (auto simp: sorted_wrt_append)
  have "container_done (container_len ?l j) i" if "i \<in> set (js @ [j])" for i
    using that snoc.prems IH l same_spans_nth [OF s]
    by (intro container_done_step) (auto simp: sorted_wrt_append)
  then show ?case
    using IH(1) children_deeper_container_len by simp
qed simp


text \<open>The well-formedness of a finished map.\<close>

definition wf_map :: "span_map \<Rightarrow> bool" where
  "wf_map m \<longleftrightarrow>
     (\<forall>p i. sm_by_path m p = Some i \<longrightarrow> i < length (sm_blocks m) \<and> bs_path (sm_blocks m ! i) = p)
     \<and> children_deeper (sm_blocks m)
     \<and> (\<forall>i<length (sm_blocks m). container_done (sm_blocks m) i)"

lemma by_depth_sorted:
  "sorted_wrt (\<lambda>i j. length (bs_path (bs ! j)) \<le> length (bs_path (bs ! i))) (by_depth bs)"
proof -
  have "sorted (map (\<lambda>i. - int (length (bs_path (bs ! i)))) (by_depth bs))"
    unfolding by_depth_def by (rule sorted_sort_key)
  then show ?thesis
    by (simp add: sorted_wrt_map)
qed

lemma set_by_depth [simp]: "set (by_depth bs) = {..<length bs}"
  by (auto simp: by_depth_def)

definition linked_blocks :: "block_span list \<Rightarrow> block_span list" where
  "linked_blocks blocks =
     (let linked = foldl (link_child (index_by_path blocks)) blocks [0..<length blocks]
      in map (\<lambda>b. b\<lparr>bs_children := sort_key (last_component linked) (bs_children b)\<rparr>) linked)"

lemma builder_finish_linked:
  "builder_finish sb =
     \<lparr>sm_blocks = foldl container_len (linked_blocks (sb_blocks sb)) (by_depth (linked_blocks (sb_blocks sb))),
      sm_by_path = index_by_path (sb_blocks sb), sm_frontmatter = sb_frontmatter sb\<rparr>"
  by (simp add: builder_finish_def linked_blocks_def Let_def)

lemma same_spans_linked: "same_spans (linked_blocks bs) bs"
proof -
  have "same_spans (foldl (link_child (index_by_path bs)) bs [0..<length bs]) bs"
    by (rule foldl_same_spans) (rule same_spans_link_child)
  then show ?thesis
    by (simp add: linked_blocks_def Let_def same_spans_def comp_def)
qed

lemma linked_children:
  assumes "\<forall>b\<in>set bs. bs_children b = []" and "i < length bs"
  shows "set (bs_children (linked_blocks bs ! i)) =
    {c. c < length bs \<and> 2 \<le> length (bs_path (bs ! c)) \<and> index_by_path bs (butlast (bs_path (bs ! c))) = Some i}"
proof -
  let ?l = "foldl (link_child (index_by_path bs)) bs [0..<length bs]"
  have s: "same_spans ?l bs"
    by (rule foldl_same_spans) (rule same_spans_link_child)
  have "bs_children (?l ! i) = bs_children (bs ! i) @
      filter (\<lambda>j. 2 \<le> length (bs_path (bs ! j)) \<and> index_by_path bs (butlast (bs_path (bs ! j))) = Some i)
        [0..<length bs]"
    using assms(2) index_by_path_Some by (intro link_children) auto
  then show ?thesis
    using assms same_spans_length [OF s] by (auto simp: linked_blocks_def Let_def)
qed

lemma linked_deeper:
  assumes "\<forall>b\<in>set bs. bs_children b = []"
  shows "children_deeper (linked_blocks bs)"
  unfolding children_deeper_def
proof (intro allI impI ballI)
  fix i c
  assume i: "i < length (linked_blocks bs)" and c: "c \<in> set (bs_children (linked_blocks bs ! i))"
  note s = same_spans_linked [of bs]
  have il: "i < length bs"
    using i same_spans_length [OF s] by simp
  with c linked_children [OF assms il] have cc: "c < length bs" "2 \<le> length (bs_path (bs ! c))"
      "index_by_path bs (butlast (bs_path (bs ! c))) = Some i"
    by auto
  then have "bs_path (bs ! i) = butlast (bs_path (bs ! c))"
    using index_by_path_Some by metis
  with cc(2) have "length (bs_path (bs ! i)) < length (bs_path (bs ! c))"
    by (metis diff_less length_butlast less_le_trans zero_less_numeral zero_less_one)
  with il cc(1) show "c < length (linked_blocks bs) \<and>
      length (bs_path (linked_blocks bs ! i)) < length (bs_path (linked_blocks bs ! c))"
    using same_spans_nth [OF s] same_spans_length [OF s] by simp
qed

lemma builder_finish_wf:
  assumes "\<forall>b\<in>set (sb_blocks sb). bs_children b = []"
  shows "wf_map (builder_finish sb) \<and> same_spans (sm_blocks (builder_finish sb)) (sb_blocks sb)"
proof -
  let ?bs = "sb_blocks sb"
  let ?l = "linked_blocks ?bs"
  let ?f = "foldl container_len ?l (by_depth ?l)"
  have s: "same_spans ?f ?bs"
    using foldl_same_spans [of container_len ?l] same_spans_container_len same_spans_linked same_spans_trans
    by blast
  have d: "children_deeper ?f \<and> (\<forall>i\<in>set (by_depth ?l). container_done ?f i)"
    using assms by (intro container_lens_done linked_deeper by_depth_sorted) auto
  have l: "length ?f = length ?bs" "length ?l = length ?bs"
    using s same_spans_linked same_spans_length by blast+
  have "i < length ?f \<and> bs_path (?f ! i) = p" if "index_by_path ?bs p = Some i" for p i
    using index_by_path_Some [OF that] same_spans_nth [OF s] l by simp
  then show ?thesis
    using s d l by (simp add: wf_map_def builder_finish_linked)
qed

lemma foldl_container_len_children:
  "i < length bs \<Longrightarrow> bs_children (foldl container_len bs js ! i) = bs_children (bs ! i)"
  by (induction js arbitrary: bs) (simp_all add: container_len_children)

lemma builder_finish_children:
  assumes "\<forall>b\<in>set (sb_blocks sb). bs_children b = []" and "i < length (sb_blocks sb)"
  shows "set (bs_children (sm_blocks (builder_finish sb) ! i)) =
    {c. c < length (sb_blocks sb) \<and> 2 \<le> length (bs_path (sb_blocks sb ! c))
        \<and> index_by_path (sb_blocks sb) (butlast (bs_path (sb_blocks sb ! c))) = Some i}"
  using assms linked_children same_spans_length [OF same_spans_linked]
  by (simp add: builder_finish_linked foldl_container_len_children)


subsection \<open>Resolution: the depth bound, totality and bounds\<close>

lemma foldr_max_ge: "x \<in> set xs \<Longrightarrow> (x::nat) \<le> foldr max xs 0"
  by (induction xs) auto

lemma path_depth_gt: "i < length (sm_blocks m) \<Longrightarrow> length (bs_path (sm_blocks m ! i)) < path_depth m"
  unfolding path_depth_def by (rule le_imp_less_Suc) (rule foldr_max_ge, simp)

lemma child_at_member: "child_at bs cs k off = Some (c, rest) \<Longrightarrow> c \<in> set cs"
  by (induction cs arbitrary: k) (auto simp: Let_def split: if_splits)

lemma wf_map_child:
  assumes "wf_map m" and "i < length (sm_blocks m)"
    and "child_at (sm_blocks m) (bs_children (sm_blocks m ! i)) k off = Some (c, rest)"
  shows "c < length (sm_blocks m) \<and> length (bs_path (sm_blocks m ! i)) < length (bs_path (sm_blocks m ! c))"
  using assms child_at_member [OF assms(3)] by (auto simp: wf_map_def children_deeper_def)

lemma resolve_at_fuel_enough:
  assumes "wf_map m" and "i < length (sm_blocks m)"
    and "path_depth m - length (bs_path (sm_blocks m ! i)) \<le> n"
    and "path_depth m - length (bs_path (sm_blocks m ! i)) \<le> n'"
  shows "resolve_at_fuel n m src i off = resolve_at_fuel n' m src i off"
  using assms(2-)
proof (induction n arbitrary: i off n')
  case 0
  then show ?case using path_depth_gt [of i m] by simp
next
  case (Suc n)
  then obtain k where k: "n' = Suc k"
    using path_depth_gt [of i m] by (cases n') auto
  have "resolve_at_fuel n m src c rest = resolve_at_fuel k m src c rest"
    if "child_at (sm_blocks m) (bs_children (sm_blocks m ! i)) 0 off = Some (c, rest)" for c rest
    using wf_map_child [OF assms(1) Suc.prems(1) that] Suc.prems(2,3) k by (intro Suc.IH) auto
  then show ?case
    using k by (auto simp: Let_def split: option.split)
qed

lemma resolve_at_unfold:
  assumes "wf_map m" and "i < length (sm_blocks m)"
  shows "resolve_at m src i off =
    (let blk = sm_blocks m ! i in
      if bs_rendered_len blk < off then None
      else if bs_children blk \<noteq> []
      then (case child_at (sm_blocks m) (bs_children blk) 0 off of
              None \<Rightarrow> None
            | Some (child, rest) \<Rightarrow> resolve_at m src child rest)
      else resolve_runs src blk (bs_runs blk) None off)"
proof -
  have "resolve_at m src i off = resolve_at_fuel (Suc (path_depth m)) m src i off"
    unfolding resolve_at_def using assms by (intro resolve_at_fuel_enough) auto
  then show ?thesis
    by (auto simp: Let_def resolve_at_def split: option.split)
qed

text \<open>\<^verbatim>\<open>resolve_leaf_at\<close> finds the leaf that \<^verbatim>\<open>resolve_at\<close> resolves in.\<close>

lemma resolve_leaf_at_fuel_agrees:
  assumes "wf_map m" and "i < length (sm_blocks m)"
    and "path_depth m - length (bs_path (sm_blocks m ! i)) \<le> n"
  shows "map_option snd (resolve_leaf_at_fuel n m src i off) = resolve_at m src i off"
  using assms(2-)
proof (induction n arbitrary: i off)
  case 0
  then show ?case using path_depth_gt [of i m] by simp
next
  case (Suc n)
  have "map_option snd (resolve_leaf_at_fuel n m src c rest) = resolve_at m src c rest"
    if "child_at (sm_blocks m) (bs_children (sm_blocks m ! i)) 0 off = Some (c, rest)" for c rest
    using wf_map_child [OF assms(1) Suc.prems(1) that] Suc.prems(2) by (intro Suc.IH) auto
  then show ?case
    using resolve_at_unfold [OF assms(1) Suc.prems(1), of src off]
    by (auto simp: Let_def option.map_comp comp_def option.map_ident split: option.splits)
qed

lemma resolve_leaf_at_agrees:
  "wf_map m \<Longrightarrow> i < length (sm_blocks m) \<Longrightarrow>
   map_option snd (resolve_leaf_at m src i off) = resolve_at m src i off"
  unfolding resolve_leaf_at_def by (rule resolve_leaf_at_fuel_agrees) auto

text \<open>What a leaf's runs promise: they tile the rendered text, lie in order inside the block, and copy it where they say so.\<close>

fun runs_ok :: "string \<Rightarrow> nat \<Rightarrow> nat \<Rightarrow> nat \<Rightarrow> nat \<Rightarrow> inline_run list \<Rightarrow> bool" where
  "runs_ok src lo hi k n [] = (k = n \<and> lo \<le> hi)"
| "runs_ok src lo hi k n (run # runs) =
     (fst (ir_rendered run) = k \<and> k \<le> snd (ir_rendered run)
      \<and> lo \<le> fst (ir_source run) \<and> fst (ir_source run) \<le> snd (ir_source run)
      \<and> (ir_interpolable run \<longrightarrow>
           (case str_get src (ir_source run) of
              None \<Rightarrow> False | Some t \<Rightarrow> char_count t = snd (ir_rendered run) - k))
      \<and> runs_ok src (snd (ir_source run)) hi (snd (ir_rendered run)) n runs)"

definition leaf_ok :: "string \<Rightarrow> block_span \<Rightarrow> bool" where
  "leaf_ok src b \<longleftrightarrow>
     runs_ok src (fst (bs_source b)) (snd (bs_source b)) 0 (bs_rendered_len b) (bs_runs b)"

definition spans_ok :: "span_map \<Rightarrow> string \<Rightarrow> bool" where
  "spans_ok m src \<longleftrightarrow>
     (\<forall>b\<in>set (sm_blocks m). bs_children b = [] \<longrightarrow> leaf_ok src b)
     \<and> (\<forall>b\<in>set (sm_blocks m). \<forall>c\<in>set (bs_children b).
          fst (bs_source b) \<le> fst (bs_source (sm_blocks m ! c))
          \<and> snd (bs_source (sm_blocks m ! c)) \<le> snd (bs_source b))"

fun res_within :: "nat \<Rightarrow> nat \<Rightarrow> source_resolution \<Rightarrow> bool" where
  "res_within lo hi (Exact o') = (lo \<le> o' \<and> o' < hi)"
| "res_within lo hi (Boundary b a) = (lo \<le> b \<and> b \<le> a \<and> a \<le> hi)"
| "res_within lo hi (Atomic r) = (lo \<le> fst r \<and> fst r \<le> snd r \<and> snd r \<le> hi)"

lemma res_within_mono: "res_within lo hi r \<Longrightarrow> lo' \<le> lo \<Longrightarrow> hi \<le> hi' \<Longrightarrow> res_within lo' hi' r"
  by (cases r) auto

lemma runs_ok_le: "runs_ok src lo hi k n runs \<Longrightarrow> lo \<le> hi \<and> k \<le> n"
  by (induction runs arbitrary: lo k) fastforce+

lemma runs_ok_ordered:
  "runs_ok src lo hi k n runs \<Longrightarrow> run \<in> set runs \<Longrightarrow>
   k \<le> fst (ir_rendered run) \<and> fst (ir_rendered run) \<le> snd (ir_rendered run)"
  by (induction runs arbitrary: lo k) fastforce+

lemma runs_ok_last:
  "runs_ok src lo hi k n runs \<Longrightarrow> runs \<noteq> [] \<Longrightarrow>
   lo \<le> snd (ir_source (last runs)) \<and> snd (ir_source (last runs)) \<le> hi"
proof (induction runs arbitrary: lo k)
  case (Cons run runs)
  then show ?case
    using runs_ok_le [of src "snd (ir_source run)" hi "snd (ir_rendered run)" n runs]
    by (cases "runs = []") fastforce+
qed simp

lemma concat_take_less:
  "k < length gs \<Longrightarrow> \<forall>g\<in>set gs. g \<noteq> [] \<Longrightarrow> length (concat (take k gs)) < length (concat gs)"
proof (induction gs arbitrary: k)
  case (Cons g gs)
  then show ?case by (cases k) auto
qed simp

lemma resolve_runs_total:
  assumes "runs_ok src lo hi k n runs" and "k \<le> off" and "off \<le> n"
    and "prev = None \<or> prev = Some lo" and "lo0 \<le> lo"
    and "lo0 \<le> (if bs_runs blk = [] then fst (bs_source blk) else snd (ir_source (last (bs_runs blk))))"
    and "(if bs_runs blk = [] then fst (bs_source blk) else snd (ir_source (last (bs_runs blk)))) \<le> hi"
  shows "\<exists>r. resolve_runs src blk runs prev off = Some r \<and> res_within lo0 hi r"
  using assms(1-5)
proof (induction runs arbitrary: lo k prev)
  case Nil
  then show ?case using assms(6,7) by (auto simp: Let_def)
next
  case (Cons run runs)
  have hi: "snd (ir_source run) \<le> hi"
    using Cons.prems(1) runs_ok_le by auto
  consider "off = fst (ir_rendered run)" | "off \<noteq> fst (ir_rendered run)" "off < snd (ir_rendered run)"
    | "off \<noteq> fst (ir_rendered run)" "snd (ir_rendered run) \<le> off" by linarith
  then show ?case
  proof cases
    case 1
    then show ?thesis using Cons.prems hi by (auto split: option.split)
  next
    case 2
    show ?thesis
    proof (cases "ir_interpolable run")
      case True
      then obtain t where t: "str_get src (ir_source run) = Some t"
          "length (chars t) = snd (ir_rendered run) - k"
        using Cons.prems(1) by (auto simp: char_count_def split: option.splits)
      have w: "off - fst (ir_rendered run) < length (chars t)"
        using t(2) 2 Cons.prems(1,2) by auto
      have "length (concat (take (off - fst (ir_rendered run)) (chars t))) < length t"
        using concat_take_less [OF w] chars_nonempty concat_chars [of t] by metis
      moreover have "length t = snd (ir_source run) - fst (ir_source run)"
        using t(1) by (cases "ir_source run") (auto simp: str_get_Some_iff)
      ultimately show ?thesis
        using 2 True t(1) w Cons.prems hi by auto
    next
      case False
      then show ?thesis using 2 Cons.prems hi by auto
    qed
  next
    case 3
    then show ?thesis
      using Cons.prems Cons.IH [of "snd (ir_source run)" "snd (ir_rendered run)" "Some (snd (ir_source run))"]
      by auto
  qed
qed

lemma child_at_total:
  assumes "cs \<noteq> []"
    and "off \<le> k + sum_list (map (\<lambda>c. bs_rendered_len (bs ! c)) cs) + length cs - 1" and "k \<le> off"
  shows "\<exists>c rest. child_at bs cs k off = Some (c, rest) \<and> c \<in> set cs \<and> rest \<le> bs_rendered_len (bs ! c)"
  using assms
proof (induction cs arbitrary: k)
  case (Cons c cs)
  show ?case
  proof (cases "off \<le> k + bs_rendered_len (bs ! c)")
    case False
    then have "cs \<noteq> []" using Cons.prems(2) by auto
    then show ?thesis
      using False Cons.prems Cons.IH [of "k + bs_rendered_len (bs ! c) + 1"] by (auto simp: Let_def)
  qed (auto simp: Let_def)
qed simp

lemma resolve_at_total:
  assumes "wf_map m" and "spans_ok m src"
    and "i < length (sm_blocks m)" and "off \<le> bs_rendered_len (sm_blocks m ! i)"
  shows "\<exists>r. resolve_at m src i off = Some r
    \<and> res_within (fst (bs_source (sm_blocks m ! i))) (snd (bs_source (sm_blocks m ! i))) r"
  using assms(3,4)
proof (induction "path_depth m - length (bs_path (sm_blocks m ! i))" arbitrary: i off rule: less_induct)
  case less
  let ?b = "sm_blocks m ! i"
  have mem: "?b \<in> set (sm_blocks m)" using less.prems(1) by simp
  show ?case
  proof (cases "bs_children ?b = []")
    case True
    then have ok: "leaf_ok src ?b" using assms(2) mem by (auto simp: spans_ok_def)
    then have "\<exists>r. resolve_runs src ?b (bs_runs ?b) None off = Some r
        \<and> res_within (fst (bs_source ?b)) (snd (bs_source ?b)) r"
      using less.prems(2) runs_ok_last runs_ok_le unfolding leaf_ok_def
      by (intro resolve_runs_total) (auto split: if_splits)
    then show ?thesis
      using True less.prems resolve_at_unfold [OF assms(1) less.prems(1)] by (simp add: Let_def)
  next
    case False
    then have "bs_rendered_len ?b = joined_len (sm_blocks m) i"
      using assms(1) less.prems(1) by (auto simp: wf_map_def container_done_def)
    then obtain c rest where c: "child_at (sm_blocks m) (bs_children ?b) 0 off = Some (c, rest)"
        "c \<in> set (bs_children ?b)" "rest \<le> bs_rendered_len (sm_blocks m ! c)"
      using child_at_total [OF False, of off 0 "sm_blocks m"] less.prems(2) by (auto simp: joined_len_def)
    note wc = wf_map_child [OF assms(1) less.prems(1) c(1)]
    have "\<exists>r. resolve_at m src c rest = Some r
        \<and> res_within (fst (bs_source (sm_blocks m ! c))) (snd (bs_source (sm_blocks m ! c))) r"
      using wc path_depth_gt [of i m] path_depth_gt [of c m] less.prems(1) c(3)
      by (intro less.hyps) auto
    then show ?thesis
      using False less.prems resolve_at_unfold [OF assms(1) less.prems(1)] c assms(2) mem
        res_within_mono by (fastforce simp: Let_def spans_ok_def)
  qed
qed


subsection \<open>The text at an exact resolution\<close>

text \<open>\<open>rt\<close> is the block's rendered text: an interpolable run's source is the part of it the run covers.\<close>

definition runs_copy :: "string \<Rightarrow> string \<Rightarrow> inline_run list \<Rightarrow> bool" where
  "runs_copy src rt runs \<longleftrightarrow>
     list_all (\<lambda>run. ir_interpolable run \<longrightarrow>
       str_get src (ir_source run) =
         Some (concat (take (snd (ir_rendered run) - fst (ir_rendered run))
                        (drop (fst (ir_rendered run)) (chars rt))))) runs"

definition slice :: "string \<Rightarrow> range \<Rightarrow> string" where
  "slice s r = take (snd r - fst r) (drop (fst r) s)"

lemma str_get_slice: "str_get s r = Some t \<Longrightarrow> slice s r = t"
  by (cases r) (auto simp: str_get_Some_iff slice_def)

lemma concat_take_nth:
  "k < length gs \<Longrightarrow> take (length (gs ! k)) (drop (length (concat (take k gs))) (concat gs)) = gs ! k"
proof (induction gs arbitrary: k)
  case (Cons g gs)
  then show ?case by (cases k) auto
qed simp

lemma chars_take_drop_concat:
  assumes "starts_char rt"
  shows "chars (concat (take n (drop k (chars rt)))) = take n (drop k (chars rt))"
proof -
  have "drop k (chars rt) = chars (concat (drop k (chars rt)))"
    by (metis append_take_drop_id assms chars_append chars_concat_take concat_append concat_chars
        same_append_eq starts_char_concat_drop)
  then show ?thesis
    using chars_concat_take by metis
qed

lemma resolve_runs_exact:
  assumes "resolve_runs src blk runs prev off = Some (Exact o')"
    and "runs_copy src rt runs" and "starts_char rt"
    and "\<forall>run\<in>set runs. fst (ir_rendered run) \<le> off \<or> off < snd (ir_rendered run)"
    and "runs_ok src lo hi k n runs" and "k \<le> off"
  shows "off < char_count rt \<and> slice src (o', o' + length (chars rt ! off)) = chars rt ! off"
  using assms
proof (induction runs arbitrary: prev lo k)
  case (Cons run runs)
  show ?case
  proof (cases "off < snd (ir_rendered run)")
    case False
    then show ?thesis
      using Cons.prems Cons.IH by (auto simp: runs_copy_def split: if_splits)
  next
    case True
    let ?b = "fst (ir_rendered run)" and ?e = "snd (ir_rendered run)"
    have ne: "off \<noteq> ?b"
      using Cons.prems(1) by auto
    then have lt: "?b < off"
      using Cons.prems(5,6) by auto
    have ip: "ir_interpolable run"
      using Cons.prems(1) True ne by (auto split: if_splits)
    let ?gs = "take (?e - ?b) (drop ?b (chars rt))"
    have get: "str_get src (ir_source run) = Some (concat ?gs)"
      using Cons.prems(2) ip by (auto simp: runs_copy_def)
    have gs: "chars (concat ?gs) = ?gs"
      by (rule chars_take_drop_concat) (rule Cons.prems(3))
    have w: "off - ?b < length ?gs"
      and o': "o' = fst (ir_source run) + length (concat (take (off - ?b) ?gs))"
      using Cons.prems(1) True ne ip get gs by (auto simp: Let_def split: if_splits)
    have "?b \<le> length (chars rt)"
      using w lt by auto
    then have nth: "?gs ! (off - ?b) = chars rt ! off"
      using w lt by simp
    have "take (length (?gs ! (off - ?b))) (drop (length (concat (take (off - ?b) ?gs))) (concat ?gs))
        = ?gs ! (off - ?b)"
      using w by (rule concat_take_nth)
    moreover have "concat ?gs = take (snd (ir_source run) - fst (ir_source run)) (drop (fst (ir_source run)) src)"
      using str_get_slice [OF get] by (simp add: slice_def)
    ultimately have "take (length (chars rt ! off))
        (drop (length (concat (take (off - ?b) ?gs)))
          (take (snd (ir_source run) - fst (ir_source run)) (drop (fst (ir_source run)) src))) = chars rt ! off"
      using nth by simp
    then have "take (length (chars rt ! off)) (drop o' src) = chars rt ! off"
      unfolding o' using take_drop_take_eq by (metis add.commute drop_drop)
    moreover have "off < length (chars rt)"
      using w lt by auto
    ultimately show ?thesis
      by (simp add: slice_def char_count_def)
  qed
qed (simp add: Let_def)


subsection \<open>The arithmetic of a buffered edit\<close>

text \<open>The source with \<open>t\<close> written over \<open>old\<close>, and how a range in a map relates to the edited range.\<close>

definition overwrite :: "string \<Rightarrow> range \<Rightarrow> string \<Rightarrow> string" where
  "overwrite src old t = take (fst old) src @ t @ drop (snd old) src"

lemma shift_after:
  "snd old \<le> x \<Longrightarrow> fst old \<le> snd old \<Longrightarrow>
   shift (int n - (int (snd old) - int (fst old))) x = fst old + n + (x - snd old)"
  by (simp add: shift_def)

lemma slice_overwrite_edited:
  assumes "fst old \<le> snd old" and "snd old \<le> length src"
  shows "slice (overwrite src old t)
    (fst old, shift (int (length t) - (int (snd old) - int (fst old))) (snd old)) = t"
  using assms by (simp add: slice_def overwrite_def shift_after)

lemma slice_overwrite_after:
  assumes "fst old \<le> snd old" and "snd old \<le> length src" and "snd old \<le> fst r" and "fst r \<le> snd r"
  shows "slice (overwrite src old t)
    (shift_range (int (length t) - (int (snd old) - int (fst old))) r) = slice src r"
  using assms by (simp add: slice_def overwrite_def shift_after shift_range_def add.commute)

lemma slice_overwrite_before:
  assumes "fst old \<le> snd old" and "snd old \<le> length src" and "snd r \<le> fst old"
  shows "slice (overwrite src old t) r = slice src r"
proof (cases "fst r \<le> snd r")
  case True
  then have "length (take (fst old) src) = fst old" and "fst r \<le> fst old"
    using assms by auto
  then show ?thesis
    using assms True by (simp add: slice_def overwrite_def drop_take)
qed (simp add: slice_def)

lemma slice_overwrite_around:
  assumes "fst r \<le> fst old" and "fst old \<le> snd old" and "snd old \<le> snd r" and "snd r \<le> length src"
  shows "slice (overwrite src old t)
      (fst r, shift (int (length t) - (int (snd old) - int (fst old))) (snd r))
    = slice src (fst r, fst old) @ t @ slice src (snd old, snd r)"
proof -
  have "length (drop (fst r) (take (fst old) src)) = fst old - fst r"
    using assms by simp
  then show ?thesis
    using assms by (simp add: slice_def overwrite_def shift_after drop_take)
qed

lemma edit_block_fields:
  "bs_path (edit_block path index old delta k b) = bs_path b"
  "bs_children (edit_block path index old delta k b) = bs_children b"
  "bs_rendered_len (edit_block path index old delta k b) = bs_rendered_len b"
  by (simp_all add: edit_block_def)

lemma shift_0 [simp]: "shift 0 x = x"
  by (simp add: shift_def)

lemma edit_block_0: "edit_block path index old 0 k b = b"
  by (simp add: edit_block_def shift_range_def)

lemma apply_buffered_edit_Some:
  assumes "apply_buffered_edit m path n = (m', Some old)"
  obtains index where "sm_by_path m path = Some index" "is_leaf (sm_blocks m ! index)"
    "old = bs_source (sm_blocks m ! index)"
    "m' = m\<lparr>sm_blocks := map (\<lambda>(k, b). edit_block path index old
            (int n - (int (snd old) - int (fst old))) k b) (enumerate 0 (sm_blocks m))\<rparr>"
proof -
  obtain index where i: "sm_by_path m path = Some index" "is_leaf (sm_blocks m ! index)"
      "old = bs_source (sm_blocks m ! index)"
    using assms by (auto simp: apply_buffered_edit_def Let_def split: option.splits if_splits)
  have same: "map (\<lambda>(k, b). b) (enumerate 0 bs) = bs" for bs :: "block_span list"
    by (rule nth_equalityI) (auto simp: nth_enumerate_eq)
  show ?thesis
    using assms i by (intro that [of index])
      (auto simp: apply_buffered_edit_def Let_def same edit_block_0 split: if_splits)
qed

lemma apply_buffered_edit_nth:
  assumes "k < length (sm_blocks m)"
  shows "map (\<lambda>(k, b). edit_block path index old delta k b) (enumerate 0 (sm_blocks m)) ! k
    = edit_block path index old delta k (sm_blocks m ! k)"
  using assms by (simp add: nth_enumerate_eq)

text \<open>
  Where a block stands relative to an edited leaf: after it, around it as an ancestor that starts before
  the leaf ends, or before it.
\<close>

definition edit_after :: "range \<Rightarrow> block_span \<Rightarrow> bool" where
  "edit_after old b \<longleftrightarrow> snd old \<le> fst (bs_source b)"

definition edit_around :: "block_path \<Rightarrow> range \<Rightarrow> block_span \<Rightarrow> bool" where
  "edit_around path old b \<longleftrightarrow>
     prefix (bs_path b) path \<and> fst (bs_source b) \<le> fst old \<and> fst (bs_source b) < snd old
     \<and> snd old \<le> snd (bs_source b)"

definition edit_before :: "block_path \<Rightarrow> range \<Rightarrow> block_span \<Rightarrow> bool" where
  "edit_before path old b \<longleftrightarrow>
     \<not> prefix (bs_path b) path \<and> snd (bs_source b) \<le> fst old \<and> fst (bs_source b) < snd old"

definition edit_coherent :: "span_map \<Rightarrow> string \<Rightarrow> block_path \<Rightarrow> bool" where
  "edit_coherent m src path \<longleftrightarrow>
     (\<forall>b\<in>set (sm_blocks m). fst (bs_source b) \<le> snd (bs_source b) \<and> snd (bs_source b) \<le> length src)
     \<and> (case sm_by_path m path of
          None \<Rightarrow> True
        | Some index \<Rightarrow> index < length (sm_blocks m) \<and>
            (let old = bs_source (sm_blocks m ! index) in
              \<forall>k<length (sm_blocks m). k \<noteq> index \<longrightarrow>
                (let b = sm_blocks m ! k in edit_after old b \<or> edit_around path old b \<or> edit_before path old b)))"

definition edited_text :: "string \<Rightarrow> block_path \<Rightarrow> range \<Rightarrow> string \<Rightarrow> block_span \<Rightarrow> string" where
  "edited_text src path old t b =
     (if edit_after old b then slice src (bs_source b)
      else if edit_around path old b
      then slice src (fst (bs_source b), fst old) @ t @ slice src (snd old, snd (bs_source b))
      else slice src (bs_source b))"

lemma edit_block_text:
  assumes "fst old \<le> snd old" "snd old \<le> length src"
    and "fst (bs_source b) \<le> snd (bs_source b)" "snd (bs_source b) \<le> length src"
    and "edit_after old b \<or> edit_around path old b \<or> edit_before path old b" and "k \<noteq> index"
  shows "slice (overwrite src old t)
      (bs_source (edit_block path index old (int (length t) - (int (snd old) - int (fst old))) k b))
    = edited_text src path old t b"
proof (cases "edit_after old b")
  case True
  then show ?thesis
    using assms by (simp add: edit_block_def edited_text_def edit_after_def slice_overwrite_after)
next
  case False
  show ?thesis
  proof (cases "edit_around path old b")
    case True
    with False show ?thesis
      using assms by (simp add: edit_block_def edited_text_def edit_after_def edit_around_def slice_overwrite_around)
  next
    case nar: False
    with False have "edit_before path old b" using assms(5) by simp
    with False nar show ?thesis
      using assms by (simp add: edit_block_def edited_text_def edit_after_def edit_before_def slice_overwrite_before)
  qed
qed


section \<open>Properties of the span map\<close>

text \<open>A two-paragraph note with a quoted paragraph after it, for the witnesses.\<close>

definition demo_run :: "nat \<Rightarrow> nat \<Rightarrow> nat \<Rightarrow> inline_run" where
  "demo_run n b e = \<lparr>ir_rendered = (0, n), ir_source = (b, e), ir_interpolable = True\<rparr>"

definition demo_source :: string where
  "demo_source = ''AAA'' @ [LF, LF] @ ''> BBB'' @ [LF, LF] @ ''CC''"

definition demo_builder :: span_builder where
  "demo_builder =
     builder_push_block (builder_push_block (builder_push_block (builder_push_block
       \<lparr>sb_blocks = [], sb_frontmatter = None\<rparr>
       [0] (0, 3) [demo_run 3 0 3])
       [1, 0] (7, 10) [demo_run 3 7 10])
       [1] (5, 10) [])
       [2] (12, 14) [demo_run 2 12 14]"

definition demo_map :: span_map where
  "demo_map = builder_finish demo_builder"




text \<open>A buffered edit is refused without touching the map when no block has the path or the block is a
  container, and an edit that keeps the length changes nothing.\<close>

theorem apply_buffered_edit_refuses:
  "(sm_by_path m path = None \<longrightarrow> apply_buffered_edit m path n = (m, None))
   \<and> (\<forall>i. sm_by_path m path = Some i \<longrightarrow> bs_children (sm_blocks m ! i) \<noteq> [] \<longrightarrow>
        apply_buffered_edit m path n = (m, None))
   \<and> (\<forall>i b e. sm_by_path m path = Some i \<longrightarrow> bs_children (sm_blocks m ! i) = [] \<longrightarrow>
        bs_source (sm_blocks m ! i) = (b, e) \<longrightarrow> b + n = e \<longrightarrow>
        apply_buffered_edit m path n = (m, Some (b, e)))"
  by (auto simp: apply_buffered_edit_def is_leaf_def)

lemma apply_buffered_edit_refuses_witness:
  "apply_buffered_edit demo_map [9] 4 = (demo_map, None)
   \<and> apply_buffered_edit demo_map [1] 4 = (demo_map, None)
   \<and> apply_buffered_edit demo_map [1, 0] 3 = (demo_map, Some (7, 10))"
proof -
  have "sm_by_path demo_map [9] = None" by code_simp
  moreover have "sm_by_path demo_map [1] = Some 2 \<and> bs_children (sm_blocks demo_map ! 2) \<noteq> []" by code_simp
  moreover have "sm_by_path demo_map [1, 0] = Some 1 \<and> bs_children (sm_blocks demo_map ! 1) = []
      \<and> bs_source (sm_blocks demo_map ! 1) = (7, 10)" by code_simp
  ultimately show ?thesis
    using apply_buffered_edit_refuses [of demo_map "[9]" 4] apply_buffered_edit_refuses [of demo_map "[1]" 4]
      apply_buffered_edit_refuses [of demo_map "[1, 0]" 3] by simp
qed

text \<open>In a finished map whose leaves' runs tile their rendered text, every offset up to a block's rendered
  length resolves, to a place inside the block's own source with the end of the gap not before its start,
  and every offset past the length is refused.\<close>

theorem resolve_offset_total:
  assumes "wf_map m" and "spans_ok m src" and "sm_by_path m path = Some i"
  shows "if off \<le> bs_rendered_len (sm_blocks m ! i)
     then (case resolve_offset m src path off of
             None \<Rightarrow> False
           | Some r \<Rightarrow> res_within (fst (bs_source (sm_blocks m ! i))) (snd (bs_source (sm_blocks m ! i))) r)
     else resolve_offset m src path off = None"
proof -
  have i: "i < length (sm_blocks m)"
    using assms(1,3) by (simp add: wf_map_def)
  show ?thesis
  proof (cases "off \<le> bs_rendered_len (sm_blocks m ! i)")
    case True
    then show ?thesis
      using resolve_at_total [OF assms(1,2) i True] assms(3) by (auto simp: resolve_offset_def)
  next
    case False
    then show ?thesis
      using resolve_at_unfold [OF assms(1) i] assms(3) by (simp add: resolve_offset_def Let_def)
  qed
qed

lemma demo_map_wf: "wf_map demo_map"
  unfolding demo_map_def using builder_finish_wf [of demo_builder]
  by (simp add: demo_builder_def builder_push_block_def)

lemma resolve_offset_total_witness:
  "(case resolve_offset demo_map demo_source [1] 2 of None \<Rightarrow> False | Some r \<Rightarrow> res_within 5 10 r)
   \<and> resolve_offset demo_map demo_source [1] 4 = None"
proof -
  have ok: "spans_ok demo_map demo_source" by code_simp
  have i: "sm_by_path demo_map [1] = Some 2" by code_simp
  have b: "bs_rendered_len (sm_blocks demo_map ! 2) = 3 \<and> bs_source (sm_blocks demo_map ! 2) = (5, 10)"
    by code_simp
  show ?thesis
    using resolve_offset_total [OF demo_map_wf ok i, of 2] resolve_offset_total [OF demo_map_wf ok i, of 4] b
    by (simp split: option.splits)
qed

text \<open>An exact resolution points at the character it names: the bytes of the source at the resolved offset
  are the character of the leaf's rendered text at the rendered offset.\<close>

theorem resolve_offset_exact:
  assumes "wf_map m" and "sm_by_path m path = Some i" and "bs_children (sm_blocks m ! i) = []"
    and "leaf_ok src (sm_blocks m ! i)" and "runs_copy src rt (bs_runs (sm_blocks m ! i))" and "valid_utf8 rt"
    and "resolve_offset m src path off = Some (Exact o')"
  shows "off < char_count rt \<and> slice src (o', o' + length (chars rt ! off)) = chars rt ! off"
proof -
  let ?b = "sm_blocks m ! i"
  have i: "i < length (sm_blocks m)"
    using assms(1,2) by (simp add: wf_map_def)
  have "resolve_runs src ?b (bs_runs ?b) None off = Some (Exact o')" and le: "off \<le> bs_rendered_len ?b"
    using assms(2,3,7) resolve_at_unfold [OF assms(1) i, of src off]
    by (auto simp: resolve_offset_def Let_def split: if_splits)
  moreover have "\<forall>run\<in>set (bs_runs ?b). fst (ir_rendered run) \<le> off \<or> off < snd (ir_rendered run)"
    using runs_ok_ordered assms(4) unfolding leaf_ok_def by force
  ultimately show ?thesis
    using assms(4-6) by (intro resolve_runs_exact) (auto simp: leaf_ok_def valid_utf8_starts_char)
qed

lemma resolve_offset_exact_witness:
  "2 < char_count ''BBB'' \<and> slice demo_source (9, 9 + length (chars ''BBB'' ! 2)) = chars ''BBB'' ! 2"
proof (rule resolve_offset_exact [OF demo_map_wf])
  show "sm_by_path demo_map [1, 0] = Some 1" by code_simp
  show "bs_children (sm_blocks demo_map ! 1) = []" by code_simp
  show "leaf_ok demo_source (sm_blocks demo_map ! 1)" by code_simp
  show "runs_copy demo_source ''BBB'' (bs_runs (sm_blocks demo_map ! 1))" by code_simp
  show "valid_utf8 ''BBB''" by code_simp
  show "resolve_offset demo_map demo_source [1, 0] 2 = Some (Exact 9)" by code_simp
qed

text \<open>The conversion of a caret position from UTF-16 units to a byte offset is exact: it answers the one
  character boundary with that many units before it, and nothing when the position splits a character;
  the conversion to a character offset answers the number of characters before that boundary.\<close>

theorem utf16_offsets_exact:
  assumes "valid_utf8 t"
  shows "(utf16_to_byte_offset t u = Some b \<longleftrightarrow> is_char_boundary t b \<and> utf16_count (take b t) = u)
    \<and> utf16_to_scalar_offset t u = map_option (\<lambda>b. char_count (take b t)) (utf16_to_byte_offset t u)"
proof -
  note s = valid_utf8_starts_char [OF assms]
  have "utf16_to_scalar_offset t u = map_option (\<lambda>b. char_count (take b t)) (utf16_to_byte_offset t u)"
    using utf16_scalar_spec [OF s, of u]
    by (cases "utf16_to_byte_offset t u"; cases "utf16_to_scalar_offset t u") auto
  with utf16_byte_spec [OF s] show ?thesis by blast
qed

lemma utf16_offsets_exact_witness:
  "utf16_to_byte_offset ([CHR ''a'', CHR 0xF0, CHR 0x9F, CHR 0x98, CHR 0x80, CHR ''b'']) 3 = Some 5"
proof -
  have "valid_utf8 [CHR ''a'', CHR 0xF0, CHR 0x9F, CHR 0x98, CHR 0x80, CHR ''b'']" by code_simp
  moreover have "is_char_boundary [CHR ''a'', CHR 0xF0, CHR 0x9F, CHR 0x98, CHR 0x80, CHR ''b''] 5
      \<and> utf16_count (take 5 [CHR ''a'', CHR 0xF0, CHR 0x9F, CHR 0x98, CHR 0x80, CHR ''b'']) = 3" by code_simp
  ultimately show ?thesis
    using utf16_offsets_exact by blast
qed

end
