(* ===== verification/Okf.thy ===== *)
theory Okf
  imports Utf8
begin

section \<open>OKF identities and links\<close>

text \<open>
  The \<^verbatim>\<open>okf\<close> module and the file-name predicates of \<^verbatim>\<open>workspace/mod.rs\<close>: the map between a bundle-relative
  path and a concept id (\<^verbatim>\<open>concept_id.rs\<close>), the classification, resolution and serialization of link
  destinations (\<^verbatim>\<open>links.rs\<close>), and the reading of a note's frontmatter (\<^verbatim>\<open>frontmatter.rs\<close>). The Markdown and
  YAML libraries that \<^verbatim>\<open>frontmatter.rs\<close> calls are arguments of \<open>read_frontmatter\<close>: the event stream of the
  metadata block, the alias scan of the YAML token stream, and the loader.
\<close>

subsection \<open>Concept ids\<close>

definition md_ext :: string where
  "md_ext = ''.md''"

definition path_to_concept_id :: "string \<Rightarrow> string" where
  "path_to_concept_id path =
     (let path = (case strip_prefix [SLASH] path of None \<Rightarrow> path | Some p \<Rightarrow> p)
      in (case strip_suffix md_ext path of None \<Rightarrow> path | Some p \<Rightarrow> p))"

definition concept_id_to_path :: "string \<Rightarrow> string" where
  "concept_id_to_path concept_id = concept_id @ md_ext"

definition reserved_titles :: "string list" where
  "reserved_titles = [''index'', ''log'']"

definition is_reserved_title :: "string \<Rightarrow> bool" where
  "is_reserved_title title \<longleftrightarrow> path_to_concept_id title \<in> set reserved_titles"

subsection \<open>Link destinations\<close>

datatype link_target = Internal string | External string

text \<open>\<^verbatim>\<open>dest.find(':')\<close> and the test of the bytes before it.\<close>

definition has_url_scheme :: "string \<Rightarrow> bool" where
  "has_url_scheme dest =
     (case split_once CHR '':'' dest of
        None \<Rightarrow> False
      | Some (scheme, _) \<Rightarrow>
          scheme \<noteq> [] \<and> is_ascii_alphabetic (hd scheme)
          \<and> list_all (\<lambda>c. is_ascii_alphanumeric c \<or> c \<in> set ''+-.'') (tl scheme))"

text \<open>The segment loop of \<^verbatim>\<open>resolve_path\<close>, on a stack with its top at the head.\<close>

fun resolve_segments :: "string list \<Rightarrow> string list \<Rightarrow> string list option" where
  "resolve_segments stack [] = Some stack"
| "resolve_segments stack (segment # segments) =
     (if segment = [] \<or> segment = ''.'' then resolve_segments stack segments
      else if segment = ''..''
      then (case stack of [] \<Rightarrow> None | _ # below \<Rightarrow> resolve_segments below segments)
      else resolve_segments (segment # stack) segments)"

definition resolve_path :: "string \<Rightarrow> string \<Rightarrow> string option" where
  "resolve_path containing_dir dest =
     map_option (\<lambda>stack. join_with [SLASH] (rev stack))
       (resolve_segments (rev (filter (\<lambda>s. s \<noteq> []) (split_on SLASH containing_dir)))
         (split_on SLASH dest))"

definition resolve_relative :: "string \<Rightarrow> string \<Rightarrow> string option" where
  "resolve_relative containing_dir dest =
     (let dest_without_ext = (case strip_suffix md_ext dest of None \<Rightarrow> dest | Some d \<Rightarrow> d)
      in if last (split_on SLASH dest_without_ext) = [] then None
         else resolve_path containing_dir dest_without_ext)"

definition classify :: "string \<Rightarrow> string \<Rightarrow> link_target" where
  "classify dest containing_dir =
     (if has_url_scheme dest \<or> \<not> suffix md_ext dest then External dest
      else
        (let (base, relative) =
               (case strip_prefix [SLASH] dest of
                  Some absolute \<Rightarrow> ([], absolute)
                | None \<Rightarrow> (containing_dir, dest))
         in (case resolve_relative base relative of
               Some concept_id \<Rightarrow> Internal concept_id
             | None \<Rightarrow> External dest)))"

definition resolve_bundle_path :: "string \<Rightarrow> string \<Rightarrow> string option" where
  "resolve_bundle_path dest containing_dir =
     (if dest = [] \<or> prefix [SLASH] dest \<or> CHR ''#'' \<in> set dest \<or> CHR ''?'' \<in> set dest
         \<or> has_url_scheme dest then None
      else (case resolve_path containing_dir dest of
              None \<Rightarrow> None
            | Some path \<Rightarrow> if path = [] then None else Some path))"

subsection \<open>Serialization\<close>

text \<open>The two escaping loops; the escaped characters are ASCII, so the loop over characters is one over bytes.\<close>

definition escape_set :: "char set \<Rightarrow> string \<Rightarrow> string" where
  "escape_set special text = concat (map (\<lambda>c. if c \<in> special then [BSLASH, c] else [c]) text)"

definition escape_link_text :: "string \<Rightarrow> string" where
  "escape_link_text text =
     escape_set {BSLASH, CHR ''['', CHR '']'', CHR ''<'', CHR ''>'', CHR ''&''} text"

definition escape_destination :: "string \<Rightarrow> string" where
  "escape_destination concept_id = escape_set {BSLASH, CHR ''<'', CHR ''>'', CHR ''&''} concept_id"

definition serialize_destination :: "string \<Rightarrow> string" where
  "serialize_destination path = ''<'' @ escape_destination path @ ''>''"

definition serialize_link :: "string \<Rightarrow> string \<Rightarrow> string" where
  "serialize_link text concept_id =
     ''['' @ escape_link_text text @ '']('' @ serialize_destination (SLASH # concept_id @ md_ext) @ '')''"

subsection \<open>Frontmatter\<close>

record frontmatter =
  note_type :: "string option"
  fm_title :: "string option"
  other_keys :: "string list"

definition frontmatter_default :: frontmatter where
  "frontmatter_default = \<lparr>note_type = None, fm_title = None, other_keys = []\<rparr>"

definition is_conformant :: "frontmatter \<Rightarrow> bool" where
  "is_conformant fm = (case note_type fm of None \<Rightarrow> False | Some t \<Rightarrow> t \<noteq> [])"

text \<open>What \<^verbatim>\<open>extract_yaml_block\<close> tells apart in the event stream of the Markdown parser.\<close>

datatype yaml_block_event = YamlStart | YamlText string | YamlEnd | YamlOther

fun yaml_block_loop :: "string \<Rightarrow> yaml_block_event list \<Rightarrow> string option" where
  "yaml_block_loop yaml [] = None"
| "yaml_block_loop yaml (YamlText text # events) = yaml_block_loop (yaml @ text) events"
| "yaml_block_loop yaml (YamlEnd # events) = (if yaml \<noteq> [] then Some yaml else None)"
| "yaml_block_loop yaml (_ # events) = None"

definition extract_yaml_block :: "(string \<Rightarrow> yaml_block_event list) \<Rightarrow> string \<Rightarrow> string option" where
  "extract_yaml_block pulldown src =
     (case pulldown src of
        YamlStart # events \<Rightarrow> yaml_block_loop [] events
      | _ \<Rightarrow> None)"

text \<open>The token stream of the YAML scanner: an alias, any other token, or a scan error that ends it.\<close>

datatype yaml_token = YAlias | YToken | YScanError

definition max_frontmatter_bytes :: nat where
  "max_frontmatter_bytes = 64 * 1024"

definition max_prescan_events :: nat where
  "max_prescan_events = 4096"

fun alias_loop :: "nat \<Rightarrow> yaml_token list \<Rightarrow> bool" where
  "alias_loop event_count [] = False"
| "alias_loop event_count (event # events) =
     (if max_prescan_events \<le> event_count then True
      else (case event of
              YAlias \<Rightarrow> True
            | YToken \<Rightarrow> alias_loop (Suc event_count) events
            | YScanError \<Rightarrow> False))"

definition contains_alias_reference :: "(string \<Rightarrow> yaml_token list) \<Rightarrow> string \<Rightarrow> bool" where
  "contains_alias_reference scan yaml_text = alias_loop 0 (scan yaml_text)"

text \<open>
  A loaded document: a mapping from keys to values, of which only string keys and string values are read,
  or anything else. The loader answers \<^verbatim>\<open>Err\<close> as \<open>None\<close>.
\<close>

datatype yaml_doc = YMapping "(string option \<times> string option) list" | YScalar

definition managed_keys :: "string list" where
  "managed_keys = [''type'', ''title'']"

definition mapping_get :: "yaml_doc \<Rightarrow> string \<Rightarrow> string option" where
  "mapping_get doc key =
     (case doc of
        YMapping entries \<Rightarrow> Option.bind (map_of entries (Some key)) (\<lambda>v. v)
      | YScalar \<Rightarrow> None)"

definition doc_other_keys :: "yaml_doc \<Rightarrow> string list" where
  "doc_other_keys doc =
     (case doc of
        YMapping entries \<Rightarrow>
          filter (\<lambda>k. k \<notin> set managed_keys) (List.map_filter fst entries)
      | YScalar \<Rightarrow> [])"

definition read_frontmatter ::
    "(string \<Rightarrow> yaml_block_event list) \<Rightarrow> (string \<Rightarrow> yaml_token list)
     \<Rightarrow> (string \<Rightarrow> yaml_doc list option) \<Rightarrow> string \<Rightarrow> frontmatter" where
  "read_frontmatter pulldown scan load src =
     (case extract_yaml_block pulldown src of
        None \<Rightarrow> frontmatter_default
      | Some yaml_text \<Rightarrow>
          if max_frontmatter_bytes < length yaml_text then frontmatter_default
          else if contains_alias_reference scan yaml_text then frontmatter_default
          else (case load yaml_text of
                  None \<Rightarrow> frontmatter_default
                | Some [] \<Rightarrow> frontmatter_default
                | Some (doc # _) \<Rightarrow>
                    \<lparr>note_type = mapping_get doc ''type'', fm_title = mapping_get doc ''title'',
                     other_keys = doc_other_keys doc\<rparr>))"

subsection \<open>Scratch names and directory entries\<close>

definition trash_prefix :: string where
  "trash_prefix = ''.burlmd-trash.''"

definition is_ignored_scratch_name :: "string \<Rightarrow> bool" where
  "is_ignored_scratch_name name \<longleftrightarrow>
     prefix trash_prefix name \<or> (prefix ''.'' name \<and> suffix ''.tmp'' name)"

definition is_decimal :: "string \<Rightarrow> bool" where
  "is_decimal text \<longleftrightarrow> text \<noteq> [] \<and> list_all is_ascii_digit text"

definition is_burlmd_scratch_name :: "string \<Rightarrow> bool" where
  "is_burlmd_scratch_name name =
     (if prefix trash_prefix name then True
      else (case Option.bind (strip_prefix ''.'' name) (strip_suffix ''.tmp'') of
              None \<Rightarrow> False
            | Some rest \<Rightarrow>
                (case rsplit_once CHR ''.'' rest of
                   None \<Rightarrow> False
                 | Some (rest, counter) \<Rightarrow>
                     (case rsplit_once CHR ''.'' rest of
                        None \<Rightarrow> False
                      | Some (stem, pid) \<Rightarrow> stem \<noteq> [] \<and> is_decimal pid \<and> is_decimal counter))))"

datatype bundle_entry = Directory | File | Symlink

definition classify_entry :: "bool \<Rightarrow> bool \<Rightarrow> bundle_entry" where
  "classify_entry file_is_symlink file_is_dir =
     (if file_is_symlink then Symlink else if file_is_dir then Directory else File)"


section \<open>Facts on identities and links\<close>

subsection \<open>Resolution\<close>

definition normal_segment :: "string \<Rightarrow> bool" where
  "normal_segment s \<longleftrightarrow> s \<noteq> [] \<and> s \<noteq> ''.'' \<and> s \<noteq> ''..'' \<and> SLASH \<notin> set s"

text \<open>A bundle-relative path in normal form; the empty path names the bundle root.\<close>

definition normal_path :: "string \<Rightarrow> bool" where
  "normal_path p \<longleftrightarrow> p = [] \<or> list_all normal_segment (split_on SLASH p)"

lemma resolve_segments_normal:
  "list_all normal_segment segs \<Longrightarrow> resolve_segments stack segs = Some (rev segs @ stack)"
  by (induction segs arbitrary: stack) (auto simp: normal_segment_def)

lemma resolve_segments_keeps_normal:
  "resolve_segments stack segs = Some out \<Longrightarrow> list_all normal_segment stack \<Longrightarrow>
   \<forall>s\<in>set segs. SLASH \<notin> set s \<Longrightarrow> list_all normal_segment out"
proof (induction segs arbitrary: stack)
  case (Cons s segs)
  then show ?case
    by (cases stack) (auto simp: normal_segment_def split: if_splits)
qed simp

lemma normal_path_join:
  "list_all normal_segment segs \<Longrightarrow> normal_path (join_with [SLASH] segs)"
  unfolding normal_path_def
  by (cases "segs = []") (auto simp: split_join_with list_all_iff normal_segment_def)

lemma normal_segments_of_path:
  "normal_path p \<Longrightarrow> list_all normal_segment (filter (\<lambda>s. s \<noteq> []) (split_on SLASH p))"
  by (auto simp: normal_path_def list_all_iff)

lemma resolve_path_normal_out:
  assumes "resolve_path dir dest = Some p" and "normal_path dir"
  shows "normal_path p"
proof -
  obtain stack where st: "resolve_segments (rev (filter (\<lambda>s. s \<noteq> []) (split_on SLASH dir))) (split_on SLASH dest)
      = Some stack" and p: "p = join_with [SLASH] (rev stack)"
    using assms(1) by (auto simp: resolve_path_def)
  have "list_all normal_segment stack"
    using normal_segments_of_path [OF assms(2)] split_on_no_delim
    by (intro resolve_segments_keeps_normal [OF st]) auto
  then show ?thesis
    unfolding p by (intro normal_path_join) simp
qed

lemma resolve_path_normal_in:
  assumes "normal_path p" and "p \<noteq> []"
  shows "resolve_path [] p = Some p"
  using assms resolve_segments_normal [of "split_on SLASH p" "[]"]
  by (simp add: resolve_path_def normal_path_def)

lemma resolve_path_dir_nil: "resolve_path dir dest = None \<or> (\<exists>p. resolve_path dir dest = Some p)"
  by (cases "resolve_path dir dest") auto

lemma has_url_scheme_slash [simp]: "\<not> has_url_scheme (SLASH # p)"
  by (auto simp: has_url_scheme_def is_ascii_alphabetic_def byte_def split: option.splits)

lemma strip_md_append [simp]: "strip_suffix md_ext (p @ md_ext) = Some p"
  by simp

lemma last_split_normal:
  "normal_path p \<Longrightarrow> p \<noteq> [] \<Longrightarrow> last (split_on SLASH p) \<noteq> []"
  unfolding normal_path_def list_all_iff normal_segment_def
  by (metis last_in_set split_on_nonempty)

subsection \<open>A reader for the form burlmd writes\<close>

text \<open>
  The inline-link grammar of CommonMark, restricted to the form \<^verbatim>\<open>serialize_link\<close> writes: a backslash before
  an ASCII punctuation character escapes it, and neither a bracket, an angle bracket, an entity nor a
  line ending may stand unescaped where it would change the parse.
\<close>

definition is_ascii_punctuation :: "char \<Rightarrow> bool" where
  "is_ascii_punctuation c \<longleftrightarrow>
     (33 \<le> byte c \<and> byte c \<le> 47) \<or> (58 \<le> byte c \<and> byte c \<le> 64)
     \<or> (91 \<le> byte c \<and> byte c \<le> 96) \<or> (123 \<le> byte c \<and> byte c \<le> 126)"

fun scan_to :: "char \<Rightarrow> char set \<Rightarrow> string \<Rightarrow> (string \<times> string) option" where
  "scan_to close bad [] = None"
| "scan_to close bad [c] = (if c = close then Some ([], []) else None)"
| "scan_to close bad (c # d # s) =
     (if c = BSLASH then
        (if is_ascii_punctuation d then map_option (apfst (Cons d)) (scan_to close bad s)
         else map_option (apfst (Cons c)) (scan_to close bad (d # s)))
      else if c = close then Some ([], d # s)
      else if c \<in> bad then None
      else map_option (apfst (Cons c)) (scan_to close bad (d # s)))"

definition read_destination :: "string \<Rightarrow> (string \<times> string) option" where
  "read_destination s =
     (case s of
        c # s' \<Rightarrow> if c = CHR ''<'' then scan_to CHR ''>'' {CHR ''<'', CHR ''&'', LF, CR} s' else None
      | [] \<Rightarrow> None)"

definition read_link :: "string \<Rightarrow> (string \<times> string \<times> string) option" where
  "read_link s =
     (case strip_prefix ''['' s of
        None \<Rightarrow> None
      | Some s1 \<Rightarrow>
          Option.bind (scan_to CHR '']'' {CHR ''['', CHR ''<'', CHR ''>'', CHR ''&''} s1) (\<lambda>(text, s2).
          Option.bind (strip_prefix ''('' s2) (\<lambda>s3.
          Option.bind (read_destination s3) (\<lambda>(dest, s4).
          map_option (\<lambda>s5. (text, dest, s5)) (strip_prefix '')'' s4)))))"

lemma escape_set_Nil [simp]: "escape_set special [] = []"
  by (simp add: escape_set_def)

lemma escape_set_Cons:
  "escape_set special (c # s) = (if c \<in> special then BSLASH # c # escape_set special s else c # escape_set special s)"
  by (simp add: escape_set_def)

lemma scan_to_escape_set:
  assumes "BSLASH \<in> special" and "close \<in> special" and "\<forall>c\<in>special. is_ascii_punctuation c"
    and "set t \<inter> (bad - special) = {}" and "close \<noteq> BSLASH"
  shows "scan_to close bad (escape_set special t @ close # rest) = Some (t, rest)"
  using assms(4)
proof (induction t)
  case Nil
  show ?case using assms(5) by (cases rest) auto
next
  case (Cons c t)
  have IH: "scan_to close bad (escape_set special t @ close # rest) = Some (t, rest)"
    using Cons by auto
  show ?case
  proof (cases "c \<in> special")
    case True
    then show ?thesis using assms(3) IH by (simp add: escape_set_Cons)
  next
    case False
    then have n: "c \<noteq> BSLASH" "c \<noteq> close" "c \<notin> bad"
      using assms(1,2) Cons.prems by auto
    obtain d s where ds: "escape_set special t @ close # rest = d # s"
      by (cases "escape_set special t @ close # rest") auto
    show ?thesis using False n IH by (simp add: escape_set_Cons ds)
  qed
qed

lemma read_destination_serialize:
  assumes "LF \<notin> set p" and "CR \<notin> set p"
  shows "read_destination (serialize_destination p @ rest) = Some (p, rest)"
proof -
  have "scan_to CHR ''>'' {CHR ''<'', CHR ''&'', LF, CR}
      (escape_set {BSLASH, CHR ''<'', CHR ''>'', CHR ''&''} p @ CHR ''>'' # rest) = Some (p, rest)"
    using assms by (intro scan_to_escape_set) (auto simp: is_ascii_punctuation_def byte_def)
  then show ?thesis
    by (simp add: read_destination_def serialize_destination_def escape_destination_def)
qed

lemma temp_name_is_scratch:
  assumes a: "stem \<noteq> [] \<and> is_decimal pid \<and> is_decimal n"
  shows "is_burlmd_scratch_name (''.'' @ stem @ ''.'' @ pid @ ''.'' @ n @ ''.tmp'')"
proof -
  have nodot: "CHR ''.'' \<notin> set d" if "is_decimal d" for d
    using that by (auto simp: is_decimal_def list_all_iff is_ascii_digit_def byte_def)
  have "strip_suffix ''.tmp'' ((stem @ ''.'' @ pid @ ''.'' @ n) @ ''.tmp'') = Some (stem @ ''.'' @ pid @ ''.'' @ n)"
    by (rule strip_suffix_append)
  moreover have "strip_prefix ''.'' (''.'' @ stem @ ''.'' @ pid @ ''.'' @ n @ ''.tmp'')
      = Some (stem @ ''.'' @ pid @ ''.'' @ n @ ''.tmp'')"
    by (rule strip_prefix_append)
  moreover have "rsplit_once CHR ''.'' (stem @ ''.'' @ pid @ ''.'' @ n) = Some (stem @ ''.'' @ pid, n)"
    using nodot a by (simp add: rsplit_once_Some_iff)
  moreover have "rsplit_once CHR ''.'' (stem @ ''.'' @ pid) = Some (stem, pid)"
    using nodot a by (simp add: rsplit_once_Some_iff)
  ultimately show ?thesis
    using a by (simp add: is_burlmd_scratch_name_def)
qed

section \<open>Properties of identities and links\<close>

text \<open>Paths and concept ids are inverse to each other: a concept id without a leading slash is recovered
  from its path, in the relative and in the absolute form, and a relative note path from its id.\<close>

theorem concept_id_round_trip:
  "(\<not> prefix [SLASH] i \<longrightarrow>
      path_to_concept_id (concept_id_to_path i) = i
      \<and> path_to_concept_id (SLASH # concept_id_to_path i) = i)
   \<and> (\<not> prefix [SLASH] p \<longrightarrow> suffix md_ext p \<longrightarrow> concept_id_to_path (path_to_concept_id p) = p)"
proof (intro conjI impI)
  assume "\<not> prefix [SLASH] i"
  then have "strip_prefix [SLASH] (i @ md_ext) = None"
    by (cases i) (auto simp: strip_prefix_def md_ext_def)
  then show "path_to_concept_id (concept_id_to_path i) = i"
    by (simp add: path_to_concept_id_def concept_id_to_path_def)
  show "path_to_concept_id (SLASH # concept_id_to_path i) = i"
    using strip_prefix_append [of "[SLASH]" "i @ md_ext"]
    by (simp add: path_to_concept_id_def concept_id_to_path_def)
next
  assume "\<not> prefix [SLASH] p" and "suffix md_ext p"
  then show "concept_id_to_path (path_to_concept_id p) = p"
    by (auto simp: path_to_concept_id_def concept_id_to_path_def strip_prefix_def suffix_def)
qed

lemma concept_id_round_trip_witness:
  "path_to_concept_id ''projects/burlmd.md'' = ''projects/burlmd''
   \<and> concept_id_to_path (path_to_concept_id ''a.md'') = ''a.md''"
  using concept_id_round_trip [of "''projects/burlmd''" "''a.md''"]
  by (simp add: concept_id_to_path_def md_ext_def suffix_def)

text \<open>The link burlmd writes to a note reads back as that note: a reader of the CommonMark link grammar
  recovers the visible text and the destination whatever characters they contain, and the destination
  classifies as the same concept id from every directory.\<close>

theorem serialize_link_round_trip:
  assumes "normal_path i" and "i \<noteq> []" and "LF \<notin> set i" and "CR \<notin> set i"
  shows "read_link (serialize_link text i @ rest) = Some (text, SLASH # i @ md_ext, rest)
    \<and> classify (SLASH # i @ md_ext) dir = Internal i"
proof
  have t: "scan_to CHR '']'' {CHR ''['', CHR ''<'', CHR ''>'', CHR ''&''}
      (escape_set {BSLASH, CHR ''['', CHR '']'', CHR ''<'', CHR ''>'', CHR ''&''} text @ CHR '']'' # r)
      = Some (text, r)" for r
    by (intro scan_to_escape_set) (auto simp: is_ascii_punctuation_def byte_def)
  have d: "read_destination (serialize_destination (SLASH # i @ md_ext) @ CHR '')'' # rest)
      = Some (SLASH # i @ md_ext, CHR '')'' # rest)"
    using assms(3,4) by (intro read_destination_serialize) (auto simp: md_ext_def)
  show "read_link (serialize_link text i @ rest) = Some (text, SLASH # i @ md_ext, rest)"
    using t [of "CHR ''('' # serialize_destination (SLASH # i @ md_ext) @ CHR '')'' # rest"] d
    by (simp add: read_link_def serialize_link_def escape_link_text_def strip_prefix_def)
  have "strip_prefix [SLASH] (SLASH # i @ md_ext) = Some (i @ md_ext)"
    using strip_prefix_append [of "[SLASH]" "i @ md_ext"] by simp
  moreover have "suffix md_ext (SLASH # i @ md_ext)"
    by (auto simp: suffix_def)
  ultimately show "classify (SLASH # i @ md_ext) dir = Internal i"
    using assms(1,2) by (simp add: classify_def resolve_relative_def last_split_normal resolve_path_normal_in)
qed

lemma serialize_link_round_trip_witness:
  "read_link (serialize_link ''a]b'' ''x/Q&A'') = Some (''a]b'', ''/x/Q&A.md'', [])
   \<and> classify ''/x/Q&A.md'' ''y'' = Internal ''x/Q&A''"
proof -
  have "normal_path ''x/Q&A''" by code_simp
  then show ?thesis
    using serialize_link_round_trip [of "''x/Q&A''" "''a]b''" "[]" "''y''"] by (simp add: md_ext_def)
qed

text \<open>An internal destination is always reported by a normalized concept id, with no empty, \<^verbatim>\<open>.\<close> or \<^verbatim>\<open>..\<close>
  segment, and the absolute spelling of a destination and the relative one read from the bundle root
  are classified alike.\<close>

theorem classify_normalizes:
  assumes "normal_path dir"
  shows "(\<forall>i. classify dest dir = Internal i \<longrightarrow> normal_path i)
    \<and> (\<forall>i. \<not> prefix [SLASH] dest \<longrightarrow> \<not> has_url_scheme dest \<longrightarrow>
         (classify (SLASH # dest) dir = Internal i \<longleftrightarrow> classify dest [] = Internal i))"
proof -
  have out: "normal_path i" if "resolve_relative d r = Some i" "normal_path d" for d r i
    using that resolve_path_normal_out by (auto simp: resolve_relative_def Let_def split: if_splits)
  have nil: "normal_path []" by (simp add: normal_path_def)
  have "strip_prefix [SLASH] (SLASH # dest) = Some dest"
    using strip_prefix_append [of "[SLASH]" dest] by simp
  moreover have "suffix md_ext (SLASH # dest) \<longleftrightarrow> suffix md_ext dest"
    by (auto simp: suffix_Cons md_ext_def)
  moreover have "strip_prefix [SLASH] dest = None" if "\<not> prefix [SLASH] dest"
    using that by (simp add: strip_prefix_def)
  ultimately show ?thesis
    using out nil assms by (auto simp: classify_def split: option.splits if_splits prod.splits)
qed

lemma classify_normalizes_witness:
  "classify ''../b/./c.md'' ''a'' = Internal ''b/c'' \<and> normal_path ''b/c''
   \<and> classify ''/x/../y.md'' ''a'' = Internal ''y''"
proof -
  have n: "normal_path ''a''" by code_simp
  have c: "classify ''../b/./c.md'' ''a'' = Internal ''b/c''" by code_simp
  have d: "\<not> prefix [SLASH] ''x/../y.md''" "\<not> has_url_scheme ''x/../y.md''"
    and e: "classify ''x/../y.md'' [] = Internal ''y''" by code_simp+
  have "normal_path ''b/c''"
    using classify_normalizes [OF n, THEN conjunct1, rule_format, OF c] .
  moreover have "classify ''/x/../y.md'' ''a'' = Internal ''y''"
    using classify_normalizes [OF n, THEN conjunct2, rule_format, OF d, THEN iffD2, OF e] .
  ultimately show ?thesis
    using c by (intro conjI)
qed

text \<open>The name test that allows a file to be deleted is stricter than the one that keeps it out of a commit,
  and it recognizes every temporary file an atomic write creates and every parked deletion.\<close>

theorem scratch_names:
  "(is_burlmd_scratch_name name \<longrightarrow> is_ignored_scratch_name name)
   \<and> (stem \<noteq> [] \<and> is_decimal pid \<and> is_decimal n \<longrightarrow>
        is_burlmd_scratch_name (''.'' @ stem @ ''.'' @ pid @ ''.'' @ n @ ''.tmp''))
   \<and> is_burlmd_scratch_name (trash_prefix @ name)"
proof (intro conjI impI)
  assume "is_burlmd_scratch_name name"
  then show "is_ignored_scratch_name name"
    by (auto simp: is_burlmd_scratch_name_def is_ignored_scratch_name_def strip_prefix_Some strip_suffix_Some
        suffix_def split: if_splits option.splits)
next
  assume "stem \<noteq> [] \<and> is_decimal pid \<and> is_decimal n"
  then show "is_burlmd_scratch_name (''.'' @ stem @ ''.'' @ pid @ ''.'' @ n @ ''.tmp'')"
    by (rule temp_name_is_scratch)
next
  show "is_burlmd_scratch_name (trash_prefix @ name)"
    by (simp add: is_burlmd_scratch_name_def)
qed

lemma scratch_names_witness:
  "is_burlmd_scratch_name ''.Note.md.17.3.tmp'' \<and> is_ignored_scratch_name ''.Note.md.17.3.tmp''"
proof -
  have "is_decimal ''17'' \<and> is_decimal ''3''" by code_simp
  then show ?thesis
    using scratch_names [of "''.Note.md.17.3.tmp''" "''Note.md''" "''17''" "''3''"] by simp
qed

text \<open>Reading frontmatter never hands the YAML loader an oversized block or one the scan finds an alias in:
  the result does not depend on what the loader would do with such a block, and it is not conformant.\<close>

theorem read_frontmatter_guards:
  "(\<forall>t. length t \<le> max_frontmatter_bytes \<and> \<not> contains_alias_reference scan t \<longrightarrow> load t = load' t) \<longrightarrow>
     read_frontmatter pulldown scan load src = read_frontmatter pulldown scan load' src"
  by (auto simp: read_frontmatter_def split: option.split)

lemma read_frontmatter_guards_witness:
  "read_frontmatter (\<lambda>_. [YamlStart, YamlText ''a: *x'', YamlEnd]) (\<lambda>_. [YToken, YAlias])
      (\<lambda>_. Some [YScalar]) ''---'' =
   read_frontmatter (\<lambda>_. [YamlStart, YamlText ''a: *x'', YamlEnd]) (\<lambda>_. [YToken, YAlias]) (\<lambda>_. None) ''---''"
proof -
  have "contains_alias_reference (\<lambda>_. [YToken, YAlias]) t" for t
    by (simp add: contains_alias_reference_def max_prescan_events_def)
  then show ?thesis
    by (intro read_frontmatter_guards [rule_format]) auto
qed

end
