(* ===== verification/Md_Parser.thy ===== *)
theory Md_Parser
  imports Md_Spans Okf
begin

section \<open>The parser\<close>

text \<open>
  \<^verbatim>\<open>markdown/parser.rs\<close>: the builder that turns the event stream of the Markdown library into the tree and
  the span map. The library itself is the argument \<open>pulldown\<close> of \<open>parse_note\<close>: from the metadata option
  and the source to the list of events with their source ranges. The datatypes of events keep what the
  builder reads of them. \<^verbatim>\<open>frames\<close> and \<^verbatim>\<open>link_stack\<close> are lists with the top of the stack at the head.
\<close>

datatype md_tag =
    TMetadata
  | THeading nat
  | TParagraph
  | TBlockQuote
  | TList "nat option"
  | TItem
  | TFenced string
  | TIndented
  | TLink string
  | TImage string
  | TStrong
  | TEmphasis
  | TStrikethrough
  | TOther

datatype md_tag_end =
    EMetadata
  | EHeading
  | EParagraph
  | EBlockQuote
  | EList
  | EItem
  | ECodeBlock
  | ELink
  | EImage
  | EStrong
  | EEmphasis
  | EStrikethrough
  | EOther

datatype md_event =
    EvStart md_tag
  | EvEnd md_tag_end
  | EvText string
  | EvCode string
  | EvRule
  | EvSoftBreak
  | EvHardBreak
  | EvTaskListMarker bool
  | EvOther

subsection \<open>The builder's state\<close>

record format_state =
  fs_bold :: bool
  fs_italic :: bool
  fs_strikethrough :: bool

definition from_state :: "string \<Rightarrow> format_state \<Rightarrow> bool \<Rightarrow> text_run" where
  "from_state content fs code =
     \<lparr>tr_content = content, tr_bold = fs_bold fs, tr_italic = fs_italic fs,
      tr_strikethrough = fs_strikethrough fs, tr_code = code\<rparr>"

datatype link_kind = LinkK link_target | ImageK string

record link_frame =
  lf_kind :: link_kind
  lf_content :: "inline_element list"
  lf_source :: range
  lf_rendered_chars :: nat

record run_accum =
  ra_runs :: "inline_run list"
  ra_rendered_len :: nat

definition ra_empty :: run_accum where
  "ra_empty = \<lparr>ra_runs = [], ra_rendered_len = 0\<rparr>"

definition ra_push :: "run_accum \<Rightarrow> nat \<Rightarrow> range \<Rightarrow> bool \<Rightarrow> run_accum" where
  "ra_push ra rendered_chars src interpolable =
     (if rendered_chars = 0 then ra
      else \<lparr>ra_runs = ra_runs ra @
              [\<lparr>ir_rendered = (ra_rendered_len ra, ra_rendered_len ra + rendered_chars),
                ir_source = src, ir_interpolable = interpolable\<rparr>],
            ra_rendered_len = ra_rendered_len ra + rendered_chars\<rparr>)"

text \<open>\<^verbatim>\<open>take\<close> hands the runs over and leaves the accumulator empty; \<^verbatim>\<open>clear\<close> only empties it.\<close>

definition ra_take :: "run_accum \<Rightarrow> inline_run list \<times> run_accum" where
  "ra_take ra = (ra_runs ra, ra_empty)"

record code_block_accum =
  ca_language :: "string option"
  ca_code :: string
  ca_source :: range
  ca_runs :: run_accum

datatype frame_kind =
    FHeading nat
  | FParagraph
  | FBlockquote block_path "ast_node list"
  | FList block_path bool "ast_node list"
  | FListItem block_path "ast_node list" "bool option"

fun holds_children :: "frame_kind \<Rightarrow> bool" where
  "holds_children (FBlockquote _ _) = True"
| "holds_children (FList _ _ _) = True"
| "holds_children (FListItem _ _ _) = True"
| "holds_children _ = False"

record frame =
  fr_kind :: frame_kind
  fr_source :: range
  fr_split :: bool

record deferred_block =
  df_node :: ast_node
  df_source :: range
  df_runs :: "inline_run list"

record builder =
  b_root_nodes :: "ast_node list"
  b_frames :: "frame list"
  b_inlines :: "inline_element list"
  b_runs :: run_accum
  b_format :: format_state
  b_code_block :: "code_block_accum option"
  b_link_stack :: "link_frame list"
  b_spans :: span_builder
  b_in_metadata :: bool
  b_deferred :: "deferred_block list"

definition builder_new :: builder where
  "builder_new =
     \<lparr>b_root_nodes = [], b_frames = [], b_inlines = [], b_runs = ra_empty,
      b_format = \<lparr>fs_bold = False, fs_italic = False, fs_strikethrough = False\<rparr>,
      b_code_block = None, b_link_stack = [],
      b_spans = \<lparr>sb_blocks = [], sb_frontmatter = None\<rparr>,
      b_in_metadata = False, b_deferred = []\<rparr>"

subsection \<open>Inline content\<close>

definition same_format :: "text_run \<Rightarrow> text_run \<Rightarrow> bool" where
  "same_format a b \<longleftrightarrow>
     tr_bold a = tr_bold b \<and> tr_italic a = tr_italic b
     \<and> tr_strikethrough a = tr_strikethrough b \<and> tr_code a = tr_code b"

definition merge_step :: "inline_element list \<Rightarrow> inline_element \<Rightarrow> inline_element list" where
  "merge_step merged element =
     (case element of
        Text run \<Rightarrow>
          (case rev merged of
             Text l # _ \<Rightarrow>
               if same_format l run
               then butlast merged @ [Text (l\<lparr>tr_content := tr_content l @ tr_content run\<rparr>)]
               else merged @ [element]
           | _ \<Rightarrow> merged @ [element])
      | _ \<Rightarrow> merged @ [element])"

definition merge_adjacent_text_runs :: "inline_element list \<Rightarrow> inline_element list" where
  "merge_adjacent_text_runs inlines = foldl merge_step [] inlines"

lemma merge_step_links:
  "x \<in> set (merge_step merged e) \<Longrightarrow> (\<forall>run. x \<noteq> Text run) \<Longrightarrow> x \<in> set merged \<or> x = e"
  by (auto simp: merge_step_def split: inline_element.splits list.splits if_splits dest: in_set_butlastD)

lemma merge_links:
  "x \<in> set (foldl merge_step merged es) \<Longrightarrow> (\<forall>run. x \<noteq> Text run) \<Longrightarrow> x \<in> set merged \<or> x \<in> set es"
  by (induction es arbitrary: merged) (auto dest: merge_step_links)

lemma size_inline_member: "x \<in> set es \<Longrightarrow> size x < Suc (size_list size es)"
  by (induction es) auto

function process_inlines :: "inline_element list \<Rightarrow> inline_element list" where
  "process_inlines raw_inlines =
     map (\<lambda>element. case element of
            ExternalLink url content \<Rightarrow> ExternalLink url (process_inlines content)
          | Link target_id ex content \<Rightarrow> Link target_id ex (process_inlines content)
          | Text run \<Rightarrow> Text run)
       (merge_adjacent_text_runs raw_inlines)"
  by pat_completeness auto
termination
proof (relation "measure (size_list size)", goal_cases)
  case (2 es x t e c)
  then have "x \<in> set es"
    using merge_links [of x "[]" es] by (auto simp: merge_adjacent_text_runs_def)
  from size_inline_member [OF this] 2 show ?case
    by simp
next
  case (3 es x u c)
  then have "x \<in> set es"
    using merge_links [of x "[]" es] by (auto simp: merge_adjacent_text_runs_def)
  from size_inline_member [OF this] 3 show ?case
    by simp
qed simp

declare process_inlines.simps [simp del]

lemma process_inlines_code [code]:
  "process_inlines [] = []"
  "process_inlines (e # es) =
     map (\<lambda>element. case element of
            ExternalLink url content \<Rightarrow> ExternalLink url (process_inlines content)
          | Link target_id ex content \<Rightarrow> Link target_id ex (process_inlines content)
          | Text run \<Rightarrow> Text run)
       (merge_adjacent_text_runs (e # es))"
  by (simp_all add: process_inlines.simps [of "[]"] process_inlines.simps [of "e # es"]
      merge_adjacent_text_runs_def)

subsection \<open>Runs and inlines of the block being built\<close>

definition emit_run :: "builder \<Rightarrow> nat \<Rightarrow> range \<Rightarrow> bool \<Rightarrow> builder" where
  "emit_run b rendered_chars src interpolable =
     (case b_link_stack b of
        f # fs \<Rightarrow> b\<lparr>b_link_stack := f\<lparr>lf_rendered_chars := lf_rendered_chars f + rendered_chars\<rparr> # fs\<rparr>
      | [] \<Rightarrow> b\<lparr>b_runs := ra_push (b_runs b) rendered_chars src interpolable\<rparr>)"

definition push_run :: "string \<Rightarrow> builder \<Rightarrow> string \<Rightarrow> range \<Rightarrow> builder" where
  "push_run src b rendered r = emit_run b (char_count rendered) r (str_get src r = Some rendered)"

definition push_inline :: "builder \<Rightarrow> inline_element \<Rightarrow> builder" where
  "push_inline b element =
     (case b_link_stack b of
        f # fs \<Rightarrow> b\<lparr>b_link_stack := f\<lparr>lf_content := lf_content f @ [element]\<rparr> # fs\<rparr>
      | [] \<Rightarrow> b\<lparr>b_inlines := b_inlines b @ [element]\<rparr>)"

definition reset_inlines :: "builder \<Rightarrow> builder" where
  "reset_inlines b = b\<lparr>b_inlines := [], b_runs := ra_empty\<rparr>"

definition open_frame :: "builder \<Rightarrow> frame_kind \<Rightarrow> range \<Rightarrow> builder" where
  "open_frame b kind src = b\<lparr>b_frames := \<lparr>fr_kind = kind, fr_source = src, fr_split = False\<rparr> # b_frames b\<rparr>"

definition run_extent :: "inline_run list \<Rightarrow> range option" where
  "run_extent runs =
     (if runs = [] then None else Some (fst (ir_source (hd runs)), snd (ir_source (last runs))))"

definition split_adjusted_source :: "frame \<Rightarrow> inline_run list \<Rightarrow> range option" where
  "split_adjusted_source f runs = (if \<not> fr_split f then Some (fr_source f) else run_extent runs)"

subsection \<open>Attaching blocks\<close>

text \<open>\<^verbatim>\<open>container_index\<close>: the position of the innermost frame that holds blocks.\<close>

fun container_index :: "frame list \<Rightarrow> nat option" where
  "container_index [] = None"
| "container_index (f # fs) =
     (if holds_children (fr_kind f) then Some 0 else map_option Suc (container_index fs))"

fun kind_path :: "frame_kind \<Rightarrow> block_path" where
  "kind_path (FBlockquote path _) = path"
| "kind_path (FList path _ _) = path"
| "kind_path (FListItem path _ _) = path"
| "kind_path _ = []"

fun kind_nodes :: "frame_kind \<Rightarrow> ast_node list" where
  "kind_nodes (FBlockquote _ nodes) = nodes"
| "kind_nodes (FList _ _ items) = items"
| "kind_nodes (FListItem _ content _) = content"
| "kind_nodes _ = []"

fun kind_push :: "ast_node \<Rightarrow> frame_kind \<Rightarrow> frame_kind" where
  "kind_push node (FBlockquote path nodes) = FBlockquote path (nodes @ [node])"
| "kind_push node (FList path ordered items) = FList path ordered (items @ [node])"
| "kind_push node (FListItem path content checked) = FListItem path (content @ [node]) checked"
| "kind_push node kind = kind"

definition next_path :: "builder \<Rightarrow> block_path" where
  "next_path b =
     (case container_index (b_frames b) of
        None \<Rightarrow> [length (b_root_nodes b)]
      | Some index \<Rightarrow>
          (let kind = fr_kind (b_frames b ! index) in kind_path kind @ [length (kind_nodes kind)]))"

definition attach :: "builder \<Rightarrow> ast_node \<Rightarrow> builder" where
  "attach b node =
     (case container_index (b_frames b) of
        None \<Rightarrow> b\<lparr>b_root_nodes := b_root_nodes b @ [node]\<rparr>
      | Some index \<Rightarrow>
          (let f = b_frames b ! index in
           b\<lparr>b_frames := (b_frames b)[index := f\<lparr>fr_kind := kind_push node (fr_kind f)\<rparr>]\<rparr>))"

definition push_block :: "builder \<Rightarrow> ast_node \<Rightarrow> range option \<Rightarrow> inline_run list \<Rightarrow> builder" where
  "push_block b node src runs =
     attach
       (case src of
          None \<Rightarrow> b
        | Some r \<Rightarrow> b\<lparr>b_spans := builder_push_block (b_spans b) (next_path b) r runs\<rparr>)
       node"

definition push_container :: "builder \<Rightarrow> ast_node \<Rightarrow> block_path \<Rightarrow> range \<Rightarrow> builder" where
  "push_container b node path src =
     attach (b\<lparr>b_spans := builder_push_block (b_spans b) path src []\<rparr>) node"

text \<open>The runs and the processed inlines of the block being built, handed over: the builder is left without them.\<close>

definition take_inlines :: "builder \<Rightarrow> inline_run list \<times> inline_element list \<times> builder" where
  "take_inlines b =
     (let (runs, ra) = ra_take (b_runs b)
      in (runs, process_inlines (b_inlines b), b\<lparr>b_runs := ra, b_inlines := []\<rparr>))"

definition flush_pending_inlines :: "builder \<Rightarrow> builder" where
  "flush_pending_inlines b =
     (if b_inlines b = [] then b\<lparr>b_runs := ra_empty\<rparr>
      else (let (runs, content, b) = take_inlines b
            in push_block b (Paragraph content) (run_extent runs) runs))"

definition drain_deferred :: "builder \<Rightarrow> builder" where
  "drain_deferred b =
     foldl (\<lambda>b d. push_block b (df_node d) (Some (df_source d)) (df_runs d))
       (b\<lparr>b_deferred := []\<rparr>) (b_deferred b)"

subsection \<open>Events\<close>

definition text_event :: "string \<Rightarrow> builder \<Rightarrow> string \<Rightarrow> range \<Rightarrow> builder" where
  "text_event src b text r =
     (if b_in_metadata b then b
      else if text = [] then b
      else (case b_code_block b of
              Some accum \<Rightarrow>
                b\<lparr>b_code_block := Some (accum\<lparr>
                    ca_code := ca_code accum @ text,
                    ca_runs := ra_push (ca_runs accum) (char_count text) r (str_get src r = Some text)\<rparr>)\<rparr>
            | None \<Rightarrow>
                push_inline (push_run src b text r) (Text (from_state text (b_format b) False))))"

definition code_span :: "string \<Rightarrow> builder \<Rightarrow> string \<Rightarrow> range \<Rightarrow> builder" where
  "code_span src b text r =
     push_inline (push_run src b text r) (Text (from_state text (b_format b) True))"

definition line_break :: "string \<Rightarrow> builder \<Rightarrow> range \<Rightarrow> builder" where
  "line_break src b r =
     push_inline (push_run src b [LF] r) (Text (from_state [LF] (b_format b) False))"

definition open_link :: "builder \<Rightarrow> link_kind \<Rightarrow> range \<Rightarrow> builder" where
  "open_link b kind r =
     b\<lparr>b_link_stack :=
         \<lparr>lf_kind = kind, lf_content = [], lf_source = r, lf_rendered_chars = 0\<rparr> # b_link_stack b\<rparr>"

definition close_link :: "builder \<Rightarrow> builder" where
  "close_link b =
     (case b_link_stack b of
        [] \<Rightarrow> b
      | f # fs \<Rightarrow>
          (let b = b\<lparr>b_link_stack := fs\<rparr> in
           if lf_rendered_chars f = 0 then b
           else
             (let content = process_inlines (lf_content f);
                  element = (case lf_kind f of
                      LinkK (Internal target_id) \<Rightarrow> Link target_id False content
                    | LinkK (External url) \<Rightarrow> ExternalLink url content
                    | ImageK url \<Rightarrow> ExternalLink url content)
              in push_inline (emit_run b (lf_rendered_chars f) (lf_source f) False) element)))"

fun alt_piece :: "inline_element \<Rightarrow> string" where
  "alt_piece (Text run) = tr_content run"
| "alt_piece _ = []"

text \<open>The frame an image came out of: marked as split, and whether the image has to wait for it.\<close>

definition split_top :: "frame list \<Rightarrow> frame list \<times> bool" where
  "split_top frames =
     (case frames of
        [] \<Rightarrow> ([], False)
      | f # fs \<Rightarrow>
          (case fr_kind f of
             FParagraph \<Rightarrow> (f\<lparr>fr_split := True\<rparr> # fs, False)
           | FHeading _ \<Rightarrow> (f\<lparr>fr_split := True\<rparr> # fs, True)
           | _ \<Rightarrow> (frames, False)))"

definition close_image :: "builder \<Rightarrow> builder" where
  "close_image b =
     (case b_link_stack b of
        [] \<Rightarrow> b
      | f # fs \<Rightarrow>
          (let alt_text = concat (map alt_piece (lf_content f));
               (frames, wait) = split_top (b_frames b);
               b = b\<lparr>b_link_stack := fs, b_frames := frames\<rparr>;
               b = (if wait then b else flush_pending_inlines b);
               runs = ra_runs (ra_push ra_empty (char_count alt_text) (lf_source f) False)
           in (case lf_kind f of
                 LinkK _ \<Rightarrow> b
               | ImageK url_or_path \<Rightarrow>
                   (let node = Image alt_text url_or_path in
                    if wait
                    then b\<lparr>b_deferred := b_deferred b @
                             [\<lparr>df_node = node, df_source = lf_source f, df_runs = runs\<rparr>]\<rparr>
                    else push_block b node (Some (lf_source f)) runs))))"

definition start_event :: "string \<Rightarrow> builder \<Rightarrow> md_tag \<Rightarrow> range \<Rightarrow> builder" where
  "start_event containing_dir b tag r =
     (case tag of
        TMetadata \<Rightarrow> b\<lparr>b_spans := set_frontmatter (b_spans b) r, b_in_metadata := True\<rparr>
      | THeading level \<Rightarrow> open_frame (reset_inlines b) (FHeading level) r
      | TParagraph \<Rightarrow> open_frame (reset_inlines b) FParagraph r
      | TBlockQuote \<Rightarrow> open_frame b (FBlockquote (next_path b) []) r
      | TList start_number \<Rightarrow>
          (let b = flush_pending_inlines b
           in open_frame b (FList (next_path b) (start_number \<noteq> None) []) r)
      | TItem \<Rightarrow> open_frame b (FListItem (next_path b) [] None) r
      | TFenced lang \<Rightarrow>
          b\<lparr>b_code_block := Some \<lparr>
              ca_language = (let trimmed = str_trim lang in if trimmed = [] then None else Some trimmed),
              ca_code = [], ca_source = r, ca_runs = ra_empty\<rparr>\<rparr>
      | TIndented \<Rightarrow>
          b\<lparr>b_code_block := Some \<lparr>ca_language = None, ca_code = [], ca_source = r, ca_runs = ra_empty\<rparr>\<rparr>
      | TLink dest_url \<Rightarrow> open_link b (LinkK (classify dest_url containing_dir)) r
      | TImage dest_url \<Rightarrow> open_link b (ImageK dest_url) r
      | TStrong \<Rightarrow> b\<lparr>b_format := (b_format b)\<lparr>fs_bold := True\<rparr>\<rparr>
      | TEmphasis \<Rightarrow> b\<lparr>b_format := (b_format b)\<lparr>fs_italic := True\<rparr>\<rparr>
      | TStrikethrough \<Rightarrow> b\<lparr>b_format := (b_format b)\<lparr>fs_strikethrough := True\<rparr>\<rparr>
      | TOther \<Rightarrow> b)"

text \<open>The closing of the five kinds of frame: the top frame is popped, and is dropped when its kind is not the one closed.\<close>

definition end_heading :: "builder \<Rightarrow> builder" where
  "end_heading b =
     (case b_frames b of
        [] \<Rightarrow> b
      | f # fs \<Rightarrow>
          (let b = b\<lparr>b_frames := fs\<rparr> in
           case fr_kind f of
             FHeading level \<Rightarrow>
               (let (runs, content, b) = take_inlines b
                in drain_deferred (push_block b (Heading level content) (split_adjusted_source f runs) runs))
           | _ \<Rightarrow> b))"

definition end_paragraph :: "builder \<Rightarrow> builder" where
  "end_paragraph b =
     (case b_frames b of
        [] \<Rightarrow> b
      | f # fs \<Rightarrow>
          (let b = b\<lparr>b_frames := fs\<rparr> in
           if fr_kind f \<noteq> FParagraph then b
           else if b_inlines b = [] then b\<lparr>b_runs := ra_empty\<rparr>
           else
             (let (runs, content, b) = take_inlines b
              in push_block b (Paragraph content) (split_adjusted_source f runs) runs)))"

definition end_blockquote :: "builder \<Rightarrow> builder" where
  "end_blockquote b =
     (case b_frames b of
        [] \<Rightarrow> b
      | f # fs \<Rightarrow>
          (let b = b\<lparr>b_frames := fs\<rparr> in
           case fr_kind f of
             FBlockquote path nodes \<Rightarrow> push_container b (Blockquote nodes) path (fr_source f)
           | _ \<Rightarrow> b))"

definition end_list :: "builder \<Rightarrow> builder" where
  "end_list b =
     (case b_frames b of
        [] \<Rightarrow> b
      | f # fs \<Rightarrow>
          (let b = b\<lparr>b_frames := fs\<rparr> in
           case fr_kind f of
             FList path ordered items \<Rightarrow> push_container b (MList ordered items) path (fr_source f)
           | _ \<Rightarrow> b))"

definition end_item :: "builder \<Rightarrow> builder" where
  "end_item b0 =
     (let b = flush_pending_inlines b0 in
      case b_frames b of
        [] \<Rightarrow> b
      | f # fs \<Rightarrow>
          (let b = b\<lparr>b_frames := fs\<rparr> in
           case fr_kind f of
             FListItem path content checked \<Rightarrow> push_container b (ListItem content checked) path (fr_source f)
           | _ \<Rightarrow> b))"

definition end_code_block :: "builder \<Rightarrow> builder" where
  "end_code_block b =
     (case b_code_block b of
        None \<Rightarrow> b
      | Some accum \<Rightarrow>
          push_block (b\<lparr>b_code_block := None\<rparr>) (CodeBlock (ca_language accum) (ca_code accum))
            (Some (ca_source accum)) (ra_runs (ca_runs accum)))"

definition end_event :: "builder \<Rightarrow> md_tag_end \<Rightarrow> builder" where
  "end_event b tag_end =
     (case tag_end of
        EMetadata \<Rightarrow> b\<lparr>b_in_metadata := False\<rparr>
      | EHeading \<Rightarrow> end_heading b
      | EParagraph \<Rightarrow> end_paragraph b
      | EBlockQuote \<Rightarrow> end_blockquote b
      | EList \<Rightarrow> end_list b
      | EItem \<Rightarrow> end_item b
      | ECodeBlock \<Rightarrow> end_code_block b
      | ELink \<Rightarrow> close_link b
      | EImage \<Rightarrow> close_image b
      | EStrong \<Rightarrow> b\<lparr>b_format := (b_format b)\<lparr>fs_bold := False\<rparr>\<rparr>
      | EEmphasis \<Rightarrow> b\<lparr>b_format := (b_format b)\<lparr>fs_italic := False\<rparr>\<rparr>
      | EStrikethrough \<Rightarrow> b\<lparr>b_format := (b_format b)\<lparr>fs_strikethrough := False\<rparr>\<rparr>
      | EOther \<Rightarrow> b)"

definition task_list_marker :: "builder \<Rightarrow> bool \<Rightarrow> builder" where
  "task_list_marker b checked =
     (case b_frames b of
        f # fs \<Rightarrow>
          (case fr_kind f of
             FListItem path content _ \<Rightarrow>
               b\<lparr>b_frames := f\<lparr>fr_kind := FListItem path content (Some checked)\<rparr> # fs\<rparr>
           | _ \<Rightarrow> b)
      | [] \<Rightarrow> b)"

definition handle :: "string \<Rightarrow> string \<Rightarrow> builder \<Rightarrow> md_event \<times> range \<Rightarrow> builder" where
  "handle src containing_dir b er =
     (case er of (event, r) \<Rightarrow>
        (case event of
           EvStart tag \<Rightarrow> start_event containing_dir b tag r
         | EvEnd tag_end \<Rightarrow> end_event b tag_end
         | EvText text \<Rightarrow> text_event src b text r
         | EvCode text \<Rightarrow> code_span src b text r
         | EvRule \<Rightarrow> push_block b ThematicBreak (Some r) []
         | EvSoftBreak \<Rightarrow> line_break src b r
         | EvHardBreak \<Rightarrow> line_break src b r
         | EvTaskListMarker checked \<Rightarrow> task_list_marker b checked
         | EvOther \<Rightarrow> b))"

definition run_builder :: "string \<Rightarrow> string \<Rightarrow> (md_event \<times> range) list \<Rightarrow> builder" where
  "run_builder src containing_dir events = foldl (handle src containing_dir) builder_new events"

record parsed_note =
  pn_ast :: "ast_node list"
  pn_spans :: span_map

definition parse_events :: "string \<Rightarrow> string \<Rightarrow> (md_event \<times> range) list \<Rightarrow> parsed_note" where
  "parse_events src containing_dir events =
     (let b = run_builder src containing_dir events
      in \<lparr>pn_ast = b_root_nodes b, pn_spans = builder_finish (b_spans b)\<rparr>)"

text \<open>The first argument of the library is whether the metadata-block option is set.\<close>

type_synonym pulldown = "bool \<Rightarrow> string \<Rightarrow> (md_event \<times> range) list"

definition parse_note :: "pulldown \<Rightarrow> string \<Rightarrow> string \<Rightarrow> parsed_note" where
  "parse_note pulldown src containing_dir = parse_events src containing_dir (pulldown True src)"

definition parse_markdown_fragment :: "pulldown \<Rightarrow> string \<Rightarrow> string \<Rightarrow> ast_node list" where
  "parse_markdown_fragment pulldown src containing_dir =
     pn_ast (parse_events src containing_dir (pulldown False src))"

definition parse_markdown :: "pulldown \<Rightarrow> string \<Rightarrow> ast_node list" where
  "parse_markdown pulldown input = pn_ast (parse_note pulldown input [])"

end
