(* ===== verification/Md_Tree.thy ===== *)
theory Md_Tree
  imports Md_Parser
begin

section \<open>The parsed tree and its span map\<close>

text \<open>
  What the parser guarantees for every event stream of the Markdown library whose block tags are properly
  nested: each registered block is addressed by a path of its own, the path leads to its node in the tree,
  and the runs of a leaf tile its rendered text and copy it from the source where they are interpolable.
  The proof is an invariant of the builder in two parts, one for the inline content being accumulated and
  one for the tree under construction, preserved by each operation.
\<close>

subsection \<open>Inline content keeps its text\<close>

definition inlines_text :: "inline_element list \<Rightarrow> string" where
  "inlines_text es = concat (map inline_text es)"

lemma inlines_text_simps [simp]:
  "inlines_text [] = []"
  "inlines_text (e # es) = inline_text e @ inlines_text es"
  "inlines_text (es @ fs) = inlines_text es @ inlines_text fs"
  by (simp_all add: inlines_text_def)

lemma inline_text_links [simp]:
  "inline_text (Link t e content) = inlines_text content"
  "inline_text (ExternalLink u content) = inlines_text content"
  by (simp_all add: inlines_text_def)

lemma merge_step_text: "inlines_text (merge_step merged e) = inlines_text merged @ inline_text e"
proof (cases "\<exists>run l ms. e = Text run \<and> rev merged = Text l # ms \<and> same_format l run")
  case True
  then obtain run l ms where h: "e = Text run" "rev merged = Text l # ms" "same_format l run" by blast
  from h(2) have "merged = rev ms @ [Text l]" by (metis rev.simps(2) rev_rev_ident)
  with h show ?thesis by (simp add: merge_step_def)
next
  case False
  then have "merge_step merged e = merged @ [e]"
    by (auto simp: merge_step_def split: inline_element.splits list.splits)
  then show ?thesis by simp
qed

lemma merge_text: "inlines_text (foldl merge_step merged es) = inlines_text merged @ inlines_text es"
  by (induction es arbitrary: merged) (simp_all add: merge_step_text)

lemma process_inlines_text: "inlines_text (process_inlines es) = inlines_text es"
proof (induction es rule: process_inlines.induct)
  case (1 es)
  let ?f = "\<lambda>element. case element of
            ExternalLink url content \<Rightarrow> ExternalLink url (process_inlines content)
          | Link target_id ex content \<Rightarrow> Link target_id ex (process_inlines content)
          | Text run \<Rightarrow> Text run"
  have "inline_text (?f x) = inline_text x" if "x \<in> set (merge_adjacent_text_runs es)" for x
    using 1 that by (cases x) (simp_all del: inline_text.simps(2,3))
  then have "inlines_text (map ?f (merge_adjacent_text_runs es)) = inlines_text (merge_adjacent_text_runs es)"
    by (simp add: inlines_text_def cong: map_cong)
  then show ?case
    by (simp add: process_inlines.simps [of es] merge_adjacent_text_runs_def merge_text)
qed

definition inlines_ok :: "inline_element list \<Rightarrow> bool" where
  "inlines_ok es \<longleftrightarrow> list_all (\<lambda>e. starts_char (inline_text e)) es"

lemma inlines_ok_simps [simp]:
  "inlines_ok []"
  "inlines_ok (es @ fs) \<longleftrightarrow> inlines_ok es \<and> inlines_ok fs"
  "inlines_ok [e] \<longleftrightarrow> starts_char (inline_text e)"
  by (auto simp: inlines_ok_def)

lemma inlines_ok_text: "inlines_ok es \<Longrightarrow> starts_char (inlines_text es)"
  unfolding inlines_ok_def inlines_text_def by (intro starts_char_concat) (auto simp: list_all_iff)

subsection \<open>Runs render the text they were pushed with\<close>

fun tiles :: "nat \<Rightarrow> nat \<Rightarrow> inline_run list \<Rightarrow> bool" where
  "tiles k n [] = (k = n)"
| "tiles k n (run # runs) =
     (fst (ir_rendered run) = k \<and> k < snd (ir_rendered run) \<and> tiles (snd (ir_rendered run)) n runs)"

lemma tiles_le: "tiles k n runs \<Longrightarrow> k \<le> n"
  by (induction runs arbitrary: k) fastforce+

lemma tiles_snoc:
  "tiles k n runs \<Longrightarrow> 0 < w \<Longrightarrow>
   tiles k (n + w) (runs @ [\<lparr>ir_rendered = (n, n + w), ir_source = r, ir_interpolable = ip\<rparr>])"
  by (induction runs arbitrary: k) auto

lemma tiles_member: "tiles k n runs \<Longrightarrow> run \<in> set runs \<Longrightarrow>
    k \<le> fst (ir_rendered run) \<and> fst (ir_rendered run) < snd (ir_rendered run) \<and> snd (ir_rendered run) \<le> n"
proof (induction runs arbitrary: k)
  case (Cons a runs)
  then show ?case using tiles_le [of "snd (ir_rendered a)" n runs] by fastforce
qed simp

lemma tiles_last: "tiles k n runs \<Longrightarrow> runs \<noteq> [] \<Longrightarrow> snd (ir_rendered (last runs)) = n"
  by (induction runs arbitrary: k) (auto split: if_splits)

definition renders :: "string \<Rightarrow> string \<Rightarrow> inline_run list \<Rightarrow> bool" where
  "renders src rt runs \<longleftrightarrow> tiles 0 (char_count rt) runs \<and> runs_copy src rt runs"

definition ra_renders :: "string \<Rightarrow> string \<Rightarrow> run_accum \<Rightarrow> bool" where
  "ra_renders src rt ra \<longleftrightarrow> ra_rendered_len ra = char_count rt \<and> renders src rt (ra_runs ra)"

lemma ra_renders_empty [simp]: "ra_renders src [] ra_empty"
  by (simp add: ra_renders_def renders_def ra_empty_def runs_copy_def)

lemma runs_copy_append:
  assumes "tiles 0 (char_count rt) runs" and "runs_copy src rt runs" and "starts_char t"
  shows "runs_copy src (rt @ t) runs"
proof -
  have "concat (take (snd (ir_rendered run) - fst (ir_rendered run))
            (drop (fst (ir_rendered run)) (chars (rt @ t))))
      = concat (take (snd (ir_rendered run) - fst (ir_rendered run))
            (drop (fst (ir_rendered run)) (chars rt)))" if "run \<in> set runs" for run
    using tiles_member [OF assms(1) that] assms(3) by (simp add: chars_append char_count_def)
  then show ?thesis
    using assms(2) by (simp add: runs_copy_def list_all_iff)
qed

lemma ra_push_renders:
  assumes "ra_renders src rt ra" and "starts_char t" and "ip \<longrightarrow> str_get src r = Some t"
  shows "ra_renders src (rt @ t) (ra_push ra (char_count t) r ip)"
proof (cases "t = []")
  case True
  then show ?thesis using assms(1) by (simp add: ra_push_def)
next
  case False
  let ?run = "\<lparr>ir_rendered = (char_count rt, char_count rt + char_count t), ir_source = r, ir_interpolable = ip\<rparr>"
  have len: "char_count (rt @ t) = char_count rt + char_count t"
    using assms(2) by (rule char_count_append)
  have old: "tiles 0 (char_count rt) (ra_runs ra)" "runs_copy src rt (ra_runs ra)" "ra_rendered_len ra = char_count rt"
    using assms(1) by (simp_all add: ra_renders_def renders_def)
  have "tiles 0 (char_count rt + char_count t) (ra_runs ra @ [?run])"
    using old(1) False by (intro tiles_snoc) auto
  moreover have "runs_copy src (rt @ t) (ra_runs ra)"
    using old assms(2) by (intro runs_copy_append)
  moreover have "runs_copy src (rt @ t) [?run]"
    using assms(2,3) by (auto simp: runs_copy_def chars_append char_count_def)
  ultimately show ?thesis
    using old(3) False len by (simp add: ra_renders_def renders_def ra_push_def runs_copy_def)
qed

lemma builder_push_block_blocks:
  assumes "renders src rt runs"
  shows "sb_blocks (builder_push_block sb path r runs) = sb_blocks sb @
    [\<lparr>bs_path = path, bs_source = r, bs_runs = runs, bs_rendered_len = char_count rt, bs_children = []\<rparr>]"
  using assms tiles_last by (auto simp: builder_push_block_def renders_def)

subsection \<open>The content invariant\<close>

definition link_ok :: "link_frame \<Rightarrow> bool" where
  "link_ok f \<longleftrightarrow> inlines_ok (lf_content f) \<and> lf_rendered_chars f = char_count (inlines_text (lf_content f))"

definition code_ok :: "string \<Rightarrow> code_block_accum \<Rightarrow> bool" where
  "code_ok src accum \<longleftrightarrow> ra_renders src (ca_code accum) (ca_runs accum)"

definition deferred_ok :: "string \<Rightarrow> deferred_block \<Rightarrow> bool" where
  "deferred_ok src d \<longleftrightarrow> renders src (rendered_text (df_node d)) (df_runs d) \<and> node_children (df_node d) = []"

definition content_inv :: "string \<Rightarrow> builder \<Rightarrow> bool" where
  "content_inv src b \<longleftrightarrow>
     inlines_ok (b_inlines b) \<and> ra_renders src (inlines_text (b_inlines b)) (b_runs b)
     \<and> list_all link_ok (b_link_stack b)
     \<and> (case b_code_block b of None \<Rightarrow> True | Some accum \<Rightarrow> code_ok src accum)
     \<and> list_all (deferred_ok src) (b_deferred b)"

lemma attach_fields [simp]:
  "b_inlines (attach b n) = b_inlines b" "b_runs (attach b n) = b_runs b"
  "b_link_stack (attach b n) = b_link_stack b" "b_code_block (attach b n) = b_code_block b"
  "b_deferred (attach b n) = b_deferred b" "b_spans (attach b n) = b_spans b"
  by (simp_all add: attach_def Let_def split: option.split)

lemma push_block_fields [simp]:
  "b_inlines (push_block b n r runs) = b_inlines b" "b_runs (push_block b n r runs) = b_runs b"
  "b_link_stack (push_block b n r runs) = b_link_stack b"
  "b_code_block (push_block b n r runs) = b_code_block b"
  "b_deferred (push_block b n r runs) = b_deferred b"
  by (simp_all add: push_block_def split: option.split)

lemma content_push_block [simp]: "content_inv src (push_block b n r runs) = content_inv src b"
  by (simp add: content_inv_def)

lemma content_push_container [simp]: "content_inv src (push_container b n p r) = content_inv src b"
  by (simp add: content_inv_def push_container_def)

lemma content_frames [simp]: "content_inv src (b\<lparr>b_frames := fs\<rparr>) = content_inv src b"
  by (simp add: content_inv_def)

lemma content_flush: "content_inv src b \<Longrightarrow> content_inv src (flush_pending_inlines b)"
  by (auto simp: flush_pending_inlines_def take_inlines_def ra_take_def Let_def content_inv_def)

lemma content_drain_fold:
  "content_inv src (foldl (\<lambda>b d. push_block b (df_node d) (Some (df_source d)) (df_runs d)) b ds)
     = content_inv src b"
  by (induction ds arbitrary: b) simp_all

lemma content_drain: "content_inv src b \<Longrightarrow> content_inv src (drain_deferred b)"
  unfolding drain_deferred_def content_drain_fold by (simp add: content_inv_def)

lemma content_push_text:
  assumes "content_inv src b" and "starts_char t" and "tr_content run = t"
  shows "content_inv src (push_inline (push_run src b t r) (Text run))"
proof (cases "b_link_stack b")
  case Nil
  then show ?thesis
    using assms ra_push_renders [of src "inlines_text (b_inlines b)" "b_runs b" t "str_get src r = Some t" r]
    by (simp add: content_inv_def push_inline_def push_run_def emit_run_def)
next
  case (Cons f fs)
  then show ?thesis
    using assms by (auto simp: content_inv_def push_inline_def push_run_def emit_run_def link_ok_def
        char_count_append)
qed

lemma content_push_link:
  assumes "content_inv src b" and "starts_char (inline_text e)" and "n = char_count (inline_text e)"
  shows "content_inv src (push_inline (emit_run b n r False) e)"
proof (cases "b_link_stack b")
  case Nil
  then show ?thesis
    using assms ra_push_renders [of src "inlines_text (b_inlines b)" "b_runs b" "inline_text e" False r]
    by (simp add: content_inv_def push_inline_def emit_run_def)
next
  case (Cons f fs)
  then show ?thesis
    using assms by (auto simp: content_inv_def push_inline_def emit_run_def link_ok_def char_count_append)
qed

lemma content_close_link:
  assumes "content_inv src b"
  shows "content_inv src (close_link b)"
proof (cases "b_link_stack b")
  case Nil
  then show ?thesis using assms by (simp add: close_link_def)
next
  case (Cons f fs)
  let ?b = "b\<lparr>b_link_stack := fs\<rparr>"
  have b: "content_inv src ?b" and f: "link_ok f"
    using assms Cons by (simp_all add: content_inv_def)
  let ?e = "case lf_kind f of
        LinkK (Internal target_id) \<Rightarrow> Link target_id False (process_inlines (lf_content f))
      | LinkK (External url) \<Rightarrow> ExternalLink url (process_inlines (lf_content f))
      | ImageK url \<Rightarrow> ExternalLink url (process_inlines (lf_content f))"
  have e: "inline_text ?e = inlines_text (lf_content f)"
    by (auto simp: process_inlines_text simp del: inline_text.simps(2,3) split: link_kind.split link_target.split)
  show ?thesis
    using Cons b f e content_push_link [OF b, of ?e "lf_rendered_chars f" "lf_source f"] inlines_ok_text
    by (simp add: close_link_def link_ok_def Let_def)
qed

lemma split_top_frames: "fst (split_top fs) = fs \<or> (\<exists>f g. fs = f # g \<and> fst (split_top fs) = f\<lparr>fr_split := True\<rparr> # g)"
  by (auto simp: split_top_def split: list.splits frame_kind.splits)

lemma char_count_alt: "renders src alt (ra_runs (ra_push ra_empty (char_count alt) r False))"
proof (cases "alt = []")
  case True
  then show ?thesis by (simp add: ra_push_def ra_empty_def renders_def runs_copy_def)
next
  case False
  then show ?thesis by (simp add: ra_push_def ra_empty_def renders_def runs_copy_def)
qed

lemma content_close_image:
  assumes "content_inv src b"
  shows "content_inv src (close_image b)"
proof (cases "b_link_stack b")
  case Nil
  then show ?thesis using assms by (simp add: close_image_def)
next
  case (Cons f fs)
  let ?b = "b\<lparr>b_link_stack := fs, b_frames := fst (split_top (b_frames b))\<rparr>"
  let ?alt = "concat (map alt_piece (lf_content f))"
  have c: "content_inv src ?b"
    using assms Cons by (simp add: content_inv_def)
  have d: "content_inv src (?b\<lparr>b_deferred := b_deferred b @ [\<lparr>df_node = Image ?alt u, df_source = lf_source f,
      df_runs = ra_runs (ra_push ra_empty (char_count ?alt) (lf_source f) False)\<rparr>]\<rparr>)" for u
    using c char_count_alt [of src ?alt "lf_source f"] by (simp add: content_inv_def deferred_ok_def)
  show ?thesis
    using Cons c d content_flush [OF c]
    by (simp add: close_image_def Let_def case_prod_unfold split: link_kind.split)
qed

lemma content_code_text:
  assumes "content_inv src b" and "b_code_block b = Some accum" and "starts_char t"
  shows "content_inv src (b\<lparr>b_code_block := Some (accum\<lparr>
      ca_code := ca_code accum @ t,
      ca_runs := ra_push (ca_runs accum) (char_count t) r (str_get src r = Some t)\<rparr>)\<rparr>)"
  using assms ra_push_renders [of src "ca_code accum" "ca_runs accum" t "str_get src r = Some t" r]
  by (simp add: content_inv_def code_ok_def)


text \<open>The event payloads are Rust strings: valid UTF-8.\<close>

fun event_ok :: "md_event \<times> range \<Rightarrow> bool" where
  "event_ok (EvText t, r) = valid_utf8 t"
| "event_ok (EvCode t, r) = valid_utf8 t"
| "event_ok _ = True"

lemma not_is_cont_LF [simp]: "\<not> is_cont LF"
  by (simp add: is_cont_def)

lemma content_end_frames:
  assumes "content_inv src b"
  shows "content_inv src (end_heading b)" "content_inv src (end_paragraph b)"
    "content_inv src (end_blockquote b)" "content_inv src (end_list b)" "content_inv src (end_item b)"
proof -
  have t: "content_inv src (b\<lparr>b_frames := fs, b_runs := ra_empty, b_inlines := []\<rparr>)" for fs
    using assms by (simp add: content_inv_def)
  have r: "b_inlines b = [] \<Longrightarrow> content_inv src (b\<lparr>b_frames := fs, b_runs := ra_empty\<rparr>)" for fs
    using assms by (simp add: content_inv_def)
  show "content_inv src (end_heading b)" "content_inv src (end_paragraph b)"
    using assms t r
    by (auto simp: end_heading_def end_paragraph_def take_inlines_def ra_take_def Let_def
        intro!: content_drain split: list.split frame_kind.split)
  show "content_inv src (end_blockquote b)" "content_inv src (end_list b)" "content_inv src (end_item b)"
    using assms content_flush [OF assms]
    by (auto simp: end_blockquote_def end_list_def end_item_def Let_def split: list.split frame_kind.split)
qed

lemma content_end_code:
  assumes "content_inv src b"
  shows "content_inv src (end_code_block b)"
proof -
  have "content_inv src (b\<lparr>b_code_block := None\<rparr>)"
    using assms by (simp add: content_inv_def)
  then show ?thesis
    using assms by (auto simp: end_code_block_def split: option.split)
qed

lemma content_other_fields:
  assumes "content_inv src b"
  shows "content_inv src (b\<lparr>b_format := fs\<rparr>)" "content_inv src (b\<lparr>b_in_metadata := m\<rparr>)"
    "content_inv src (b\<lparr>b_spans := sp, b_in_metadata := m\<rparr>)"
    "content_inv src (open_link b k r)" "content_inv src (open_frame b fk r)"
    "content_inv src (open_frame (reset_inlines b) fk r)"
    "content_inv src (b\<lparr>b_code_block := Some \<lparr>ca_language = l, ca_code = [], ca_source = r, ca_runs = ra_empty\<rparr>\<rparr>)"
  using assms by (simp_all add: content_inv_def open_link_def open_frame_def reset_inlines_def link_ok_def code_ok_def)

lemma content_handle:
  assumes "content_inv src b" and "event_ok er"
  shows "content_inv src (handle src dir b er)"
proof -
  obtain ev r where er: "er = (ev, r)" by (cases er)
  note tx = content_push_text [OF assms(1)] content_code_text [OF assms(1)]
  show ?thesis
  proof (cases ev)
    case (EvStart tag)
    then show ?thesis
      using assms(1) content_flush [OF assms(1)]
      by (cases tag) (simp_all add: er handle_def start_event_def content_other_fields Let_def)
  next
    case (EvEnd t)
    then show ?thesis
      using assms(1) content_end_frames [OF assms(1)] content_end_code [OF assms(1)]
        content_close_link [OF assms(1)] content_close_image [OF assms(1)]
      by (cases t) (simp_all add: er handle_def end_event_def content_other_fields)
  next
    case (EvText t)
    then show ?thesis
      using assms tx valid_utf8_starts_char [of t]
      by (auto simp: er handle_def text_event_def from_state_def split: option.split)
  next
    case (EvCode t)
    then show ?thesis
      using assms tx valid_utf8_starts_char [of t] by (simp add: er handle_def code_span_def from_state_def)
  next
    case (EvTaskListMarker c)
    then show ?thesis
      using assms by (auto simp: er handle_def task_list_marker_def split: list.split frame_kind.split)
  qed (simp_all add: er handle_def line_break_def from_state_def assms tx)
qed

subsection \<open>Addresses in the tree under construction\<close>

text \<open>
  The levels of the tree under construction: the root nodes, then the nodes of each open container, outermost
  first. An address descends level by level: the entry equal to the number of finished nodes of a level
  is the open container, whose nodes are the next level.
\<close>

definition levels :: "ast_node list \<Rightarrow> frame list \<Rightarrow> ast_node list list" where
  "levels root frames =
     root # rev (map (\<lambda>f. kind_nodes (fr_kind f)) (filter (\<lambda>f. holds_children (fr_kind f)) frames))"

fun paddr :: "ast_node list list \<Rightarrow> block_path \<Rightarrow> ast_node option" where
  "paddr [] p = None"
| "paddr [ns] p = node_at_path ns p"
| "paddr (ns # l # ls) [] = None"
| "paddr (ns # l # ls) (i # p) =
     (if i < length ns then node_at_path ns (i # p)
      else if i = length ns then paddr (l # ls) p else None)"

lemma paddr_Nil [simp]: "paddr ls [] = None"
  by (cases "(ls, [] :: block_path)" rule: paddr.cases) auto

lemma node_at_path_append:
  "node_at_path ns p = Some n \<Longrightarrow> node_at_path (ns @ ms) p = Some n"
  by (cases p) (auto simp: nth_append split: if_splits)

lemma paddr_Cons:
  "ls \<noteq> [] \<Longrightarrow> paddr (ns # ls) (i # p) =
     (if i < length ns then node_at_path ns (i # p)
      else if i = length ns then paddr ls p else None)"
  by (cases ls) auto

lemma paddr_attach:
  "paddr (ls @ [ns]) p = Some n \<Longrightarrow> paddr (ls @ [ns @ [m]]) p = Some n"
proof (induction ls arbitrary: p)
  case Nil
  then show ?case by (simp add: node_at_path_append)
next
  case (Cons l ls)
  then show ?case by (cases p) (auto simp: paddr_Cons split: if_splits)
qed

lemma paddr_new: "paddr (ls @ [ns @ [m]]) (map length (ls @ [ns])) = Some m"
  by (induction ls) (auto simp: paddr_Cons)

lemma paddr_fresh: "paddr (ls @ [ns]) (map length (ls @ [ns])) = None"
  by (induction ls) (auto simp: paddr_Cons)

lemma paddr_open: "paddr (ls @ [ns]) p = Some n \<Longrightarrow> paddr (ls @ [ns, []]) p = Some n"
proof (induction ls arbitrary: p)
  case Nil
  then show ?case by (cases p) (auto split: if_splits)
next
  case (Cons l ls)
  then show ?case by (cases p) (auto simp: paddr_Cons split: if_splits)
qed

lemma paddr_close:
  "paddr (ls @ [ns, cs]) p = Some n \<Longrightarrow> node_children m = cs \<Longrightarrow> paddr (ls @ [ns @ [m]]) p = Some n"
proof (induction ls arbitrary: p)
  case Nil
  show ?case
  proof (cases p)
    case (Cons i q)
    with Nil show ?thesis
      by (cases q) (auto simp: nth_append split: if_splits)
  qed (use Nil in simp)
next
  case (Cons l ls)
  then show ?case by (cases p) (auto simp: paddr_Cons split: if_splits)
qed

lemma paddr_container_fresh: "paddr (ls @ [ns, cs]) (map length (ls @ [ns])) = None"
  by (induction ls) (auto simp: paddr_Cons)

text \<open>Every open container's path is the address it will have.\<close>

fun chain :: "ast_node list \<Rightarrow> frame list \<Rightarrow> bool" where
  "chain root [] = True"
| "chain root (f # fs) =
     ((holds_children (fr_kind f) \<longrightarrow> kind_path (fr_kind f) = map length (levels root fs)) \<and> chain root fs)"

lemma container_index_Some:
  "container_index fs = Some k \<Longrightarrow>
   \<exists>pre f post. fs = pre @ f # post \<and> length pre = k \<and> holds_children (fr_kind f)
     \<and> (\<forall>x\<in>set pre. \<not> holds_children (fr_kind x))"
proof (induction fs arbitrary: k)
  case (Cons a fs)
  show ?case
  proof (cases "holds_children (fr_kind a)")
    case True
    with Cons.prems show ?thesis by (intro exI [of _ "[]"]) auto
  next
    case False
    then obtain j where "container_index fs = Some j" "k = Suc j" using Cons.prems by auto
    with Cons.IH [of j] obtain pre f post where h: "fs = pre @ f # post" "length pre = j"
        "holds_children (fr_kind f)" "\<forall>x\<in>set pre. \<not> holds_children (fr_kind x)" by blast
    with False \<open>k = Suc j\<close> show ?thesis by (intro exI [of _ "a # pre"]) auto
  qed
qed simp

lemma container_index_None: "container_index fs = None \<longleftrightarrow> (\<forall>x\<in>set fs. \<not> holds_children (fr_kind x))"
  by (induction fs) auto

lemma levels_skip: "\<forall>x\<in>set pre. \<not> holds_children (fr_kind x) \<Longrightarrow> levels root (pre @ fs) = levels root fs"
  by (simp add: levels_def)

lemma levels_Cons:
  "levels root (f # fs) =
     (if holds_children (fr_kind f) then levels root fs @ [kind_nodes (fr_kind f)] else levels root fs)"
  by (simp add: levels_def)

lemma chain_none: "\<forall>x\<in>set fs. \<not> holds_children (fr_kind x) \<Longrightarrow> chain root fs"
  by (induction fs) auto

lemma chain_append: "chain root (pre @ fs) \<Longrightarrow> chain root fs"
  by (induction pre) auto

lemma kind_push_simps [simp]:
  "holds_children (kind_push n k) = holds_children k"
  "kind_path (kind_push n k) = kind_path k"
  "holds_children k \<Longrightarrow> kind_nodes (kind_push n k) = kind_nodes k @ [n]"
  by (cases k; simp)+

lemma levels_snoc: "\<exists>ls ns. levels root fs = ls @ [ns]"
  by (metis append_butlast_last_id levels_def list.distinct(1))

lemma next_path_levels:
  assumes "chain (b_root_nodes b) (b_frames b)"
  shows "next_path b = map length (levels (b_root_nodes b) (b_frames b))"
proof (cases "container_index (b_frames b)")
  case None
  then have "filter (\<lambda>f. holds_children (fr_kind f)) (b_frames b) = []"
    by (simp add: container_index_None filter_empty_conv)
  then show ?thesis using None by (simp add: next_path_def levels_def)
next
  case (Some k)
  then obtain pre f post where h: "b_frames b = pre @ f # post" "length pre = k"
      "holds_children (fr_kind f)" "\<forall>x\<in>set pre. \<not> holds_children (fr_kind x)"
    using container_index_Some by blast
  then have "chain (b_root_nodes b) (f # post)"
    using assms chain_append by metis
  then have "kind_path (fr_kind f) = map length (levels (b_root_nodes b) post)"
    using h(3) by simp
  moreover have "b_frames b ! k = f" using h(1,2) by auto
  ultimately show ?thesis
    using Some h by (simp add: next_path_def Let_def levels_skip levels_Cons)
qed

lemma attach_levels:
  assumes "chain (b_root_nodes b) (b_frames b)"
  shows "\<exists>ls ns. levels (b_root_nodes b) (b_frames b) = ls @ [ns]
    \<and> levels (b_root_nodes (attach b n)) (b_frames (attach b n)) = ls @ [ns @ [n]]
    \<and> chain (b_root_nodes (attach b n)) (b_frames (attach b n))"
proof (cases "container_index (b_frames b)")
  case None
  then have no: "\<forall>x\<in>set (b_frames b). \<not> holds_children (fr_kind x)"
    by (simp add: container_index_None)
  then have "chain r (b_frames b)" for r
    by (rule chain_none)
  moreover have "levels r (b_frames b) = [r]" for r
    using no by (simp add: levels_def filter_empty_conv)
  ultimately show ?thesis
    using None by (intro exI [of _ "[]"] exI [of _ "b_root_nodes b"]) (simp add: attach_def)
next
  case (Some k)
  then obtain pre f post where h: "b_frames b = pre @ f # post" "length pre = k"
      "holds_children (fr_kind f)" "\<forall>x\<in>set pre. \<not> holds_children (fr_kind x)"
    using container_index_Some by blast
  let ?f = "f\<lparr>fr_kind := kind_push n (fr_kind f)\<rparr>"
  have fr: "b_frames (attach b n) = pre @ ?f # post" "b_root_nodes (attach b n) = b_root_nodes b"
    using Some h by (auto simp: attach_def Let_def nth_append)
  have "chain (b_root_nodes b) (f # post)"
    using assms h(1) chain_append by metis
  then have "chain (b_root_nodes b) (?f # post)"
    using h(3) by simp
  then have "chain (b_root_nodes b) (pre @ ?f # post)"
    using h(4) by (induction pre) auto
  moreover have "levels (b_root_nodes b) (b_frames b) = levels (b_root_nodes b) post @ [kind_nodes (fr_kind f)]"
    using h by (simp add: levels_skip levels_Cons)
  moreover have "levels (b_root_nodes b) (pre @ ?f # post)
      = levels (b_root_nodes b) post @ [kind_nodes (fr_kind f) @ [n]]"
    using h by (simp add: levels_skip levels_Cons)
  ultimately show ?thesis
    unfolding fr by blast
qed


subsection \<open>The tree invariant\<close>

fun is_container :: "ast_node \<Rightarrow> bool" where
  "is_container (MList _ _) = True"
| "is_container (ListItem _ _) = True"
| "is_container (Blockquote _) = True"
| "is_container _ = False"

definition span_node :: "string \<Rightarrow> ast_node \<Rightarrow> block_span \<Rightarrow> bool" where
  "span_node src n s \<longleftrightarrow>
     is_container n
     \<or> (node_children n = [] \<and> renders src (rendered_text n) (bs_runs s)
        \<and> bs_rendered_len s = char_count (rendered_text n))"

definition tree_inv :: "string \<Rightarrow> builder \<Rightarrow> bool" where
  "tree_inv src b \<longleftrightarrow>
     chain (b_root_nodes b) (b_frames b)
     \<and> distinct (map bs_path (sb_blocks (b_spans b)))
     \<and> (\<forall>s\<in>set (sb_blocks (b_spans b)). bs_children s = [] \<and>
          (\<exists>n. paddr (levels (b_root_nodes b) (b_frames b)) (bs_path s) = Some n \<and> span_node src n s))"

definition frame_tags :: "builder \<Rightarrow> md_tag_end list" where
  "frame_tags b =
     map (\<lambda>f. case fr_kind f of
            FHeading _ \<Rightarrow> EHeading | FParagraph \<Rightarrow> EParagraph | FBlockquote _ _ \<Rightarrow> EBlockQuote
          | FList _ _ _ \<Rightarrow> EList | FListItem _ _ _ \<Rightarrow> EItem) (b_frames b)"

lemma kind_push_tag:
  "(case kind_push n k of FHeading _ \<Rightarrow> EHeading | FParagraph \<Rightarrow> EParagraph | FBlockquote _ _ \<Rightarrow> EBlockQuote
      | FList _ _ _ \<Rightarrow> EList | FListItem _ _ _ \<Rightarrow> EItem)
   = (case k of FHeading _ \<Rightarrow> EHeading | FParagraph \<Rightarrow> EParagraph | FBlockquote _ _ \<Rightarrow> EBlockQuote
      | FList _ _ _ \<Rightarrow> EList | FListItem _ _ _ \<Rightarrow> EItem)"
  by (cases k) simp_all

lemma container_index_less: "container_index fs = Some k \<Longrightarrow> k < length fs"
  using container_index_Some by fastforce

lemma frame_tags_attach [simp]: "frame_tags (attach b n) = frame_tags b"
  by (auto simp: attach_def frame_tags_def Let_def map_update kind_push_tag
      dest: container_index_less split: option.split intro!: list_update_same_conv [THEN iffD2])

lemma frame_tags_push [simp]:
  "frame_tags (push_block b n r runs) = frame_tags b"
  "frame_tags (push_container b n p r') = frame_tags b"
  by (simp_all add: push_block_def push_container_def split: option.split) (simp add: frame_tags_def)+

lemma tree_inv_attach:
  assumes "tree_inv src b"
  shows "tree_inv src (attach b n)
    \<and> paddr (levels (b_root_nodes (attach b n)) (b_frames (attach b n))) (next_path b) = Some n
    \<and> next_path b \<notin> set (map bs_path (sb_blocks (b_spans b)))"
proof -
  have c: "chain (b_root_nodes b) (b_frames b)"
    using assms by (simp add: tree_inv_def)
  obtain ls ns where l: "levels (b_root_nodes b) (b_frames b) = ls @ [ns]"
      "levels (b_root_nodes (attach b n)) (b_frames (attach b n)) = ls @ [ns @ [n]]"
      "chain (b_root_nodes (attach b n)) (b_frames (attach b n))"
    using attach_levels [OF c] by blast
  have np: "next_path b = map length (ls @ [ns])"
    using next_path_levels [OF c] l(1) by simp
  have "next_path b \<notin> set (map bs_path (sb_blocks (b_spans b)))"
    using assms l(1) paddr_fresh [of ls ns] np by (auto simp: tree_inv_def)
  then show ?thesis
    using assms l np paddr_attach paddr_new [of ls ns n] unfolding tree_inv_def by fastforce
qed

lemma tree_inv_cong:
  "tree_inv src b \<Longrightarrow> b_root_nodes b' = b_root_nodes b \<Longrightarrow> b_frames b' = b_frames b \<Longrightarrow>
   sb_blocks (b_spans b') = sb_blocks (b_spans b) \<Longrightarrow> tree_inv src b'"
  by (simp add: tree_inv_def)

lemma attach_spans_update:
  "attach (b\<lparr>b_spans := sp\<rparr>) n = (attach b n)\<lparr>b_spans := sp\<rparr>"
  by (simp add: attach_def Let_def split: option.split)

lemma tree_inv_push_block:
  assumes "tree_inv src b" and "r \<noteq> None \<longrightarrow> node_children n = [] \<and> renders src (rendered_text n) runs"
  shows "tree_inv src (push_block b n r runs)"
proof (cases r)
  case None
  then show ?thesis using tree_inv_attach [OF assms(1)] by (simp add: push_block_def)
next
  case (Some range)
  have rn: "node_children n = []" "renders src (rendered_text n) runs"
    using assms(2) Some by simp_all
  note a = tree_inv_attach [OF assms(1), of n]
  have "push_block b n r runs
      = (attach b n)\<lparr>b_spans := builder_push_block (b_spans b) (next_path b) range runs\<rparr>"
    using Some by (simp add: push_block_def attach_spans_update)
  then show ?thesis
    using a builder_push_block_blocks [OF rn(2)] rn by (auto simp: tree_inv_def span_node_def)
qed

lemma tree_inv_pop_plain:
  assumes "tree_inv src b" and "b_frames b = f # fs" and "\<not> holds_children (fr_kind f)"
  shows "tree_inv src (b\<lparr>b_frames := fs\<rparr>)"
  using assms by (simp add: tree_inv_def levels_Cons)

lemma tree_inv_close:
  assumes "tree_inv src b" and "b_frames b = f # fs" and "holds_children (fr_kind f)"
    and "node_children n = kind_nodes (fr_kind f)" and "is_container n"
  shows "tree_inv src (push_container (b\<lparr>b_frames := fs\<rparr>) n (kind_path (fr_kind f)) r)"
proof -
  let ?b = "b\<lparr>b_frames := fs, b_spans := (b_spans b)\<lparr>sb_blocks := []\<rparr>\<rparr>"
  have c: "chain (b_root_nodes b) fs" and kp: "kind_path (fr_kind f) = map length (levels (b_root_nodes b) fs)"
    using assms(1-3) by (simp_all add: tree_inv_def)
  obtain ls ns where l: "levels (b_root_nodes b) fs = ls @ [ns]"
    and l': "levels (b_root_nodes (attach ?b n)) (b_frames (attach ?b n)) = ls @ [ns @ [n]]"
    and c': "chain (b_root_nodes (attach ?b n)) (b_frames (attach ?b n))"
    using attach_levels [of ?b n] c by auto
  have lv: "levels (b_root_nodes b) (b_frames b) = ls @ [ns, kind_nodes (fr_kind f)]"
    using assms(2,3) l by (simp add: levels_Cons)
  have fresh: "kind_path (fr_kind f) \<notin> set (map bs_path (sb_blocks (b_spans b)))"
    using assms(1) lv paddr_container_fresh [of ls ns "kind_nodes (fr_kind f)"] kp l by (auto simp: tree_inv_def)
  have eq: "push_container (b\<lparr>b_frames := fs\<rparr>) n (kind_path (fr_kind f)) r
      = (attach ?b n)\<lparr>b_spans := builder_push_block (b_spans b) (kind_path (fr_kind f)) r []\<rparr>"
    by (simp add: push_container_def attach_def Let_def split: option.split)
  have new: "paddr (ls @ [ns @ [n]]) (kind_path (fr_kind f)) = Some n"
    using paddr_new [of ls ns n] kp l by simp
  have old: "\<exists>m. paddr (ls @ [ns @ [n]]) (bs_path s) = Some m \<and> span_node src m s"
    if "s \<in> set (sb_blocks (b_spans b))" for s
    using that assms(1,4) lv paddr_close [of ls ns "kind_nodes (fr_kind f)"] unfolding tree_inv_def by metis
  show ?thesis
    unfolding eq using assms(1,5) l' c' fresh new old
    by (auto simp: tree_inv_def builder_push_block_def span_node_def)
qed

lemma tree_inv_open_container:
  assumes "tree_inv src b" and "holds_children k" and "kind_path k = next_path b" and "kind_nodes k = []"
  shows "tree_inv src (open_frame b k r)"
proof -
  have c: "chain (b_root_nodes b) (b_frames b)"
    using assms(1) by (simp add: tree_inv_def)
  obtain ls ns where l: "levels (b_root_nodes b) (b_frames b) = ls @ [ns]"
    using levels_snoc by blast
  have "levels (b_root_nodes b) (b_frames (open_frame b k r)) = ls @ [ns, []]"
    using assms(2,4) l by (simp add: open_frame_def levels_Cons)
  then show ?thesis
    using assms c l next_path_levels [OF c] paddr_open [of ls ns]
    unfolding tree_inv_def by (fastforce simp: open_frame_def)
qed

lemma tree_inv_open_plain:
  "tree_inv src b \<Longrightarrow> \<not> holds_children k \<Longrightarrow> tree_inv src (open_frame b k r)"
  by (simp add: tree_inv_def open_frame_def levels_Cons)

lemma tree_inv_same_kinds:
  assumes "tree_inv src b" and "b_frames b = f # fs"
    and "holds_children (fr_kind g) = holds_children (fr_kind f)" "kind_path (fr_kind g) = kind_path (fr_kind f)"
      "kind_nodes (fr_kind g) = kind_nodes (fr_kind f)"
  shows "tree_inv src (b\<lparr>b_frames := g # fs\<rparr>)"
  using assms by (auto simp: tree_inv_def levels_Cons)


subsection \<open>Every operation keeps the tree invariant\<close>

lemma content_renders: "content_inv src b \<Longrightarrow> renders src (inlines_text (b_inlines b)) (ra_runs (b_runs b))"
  by (simp add: content_inv_def ra_renders_def)

lemma rendered_processed [simp]:
  "rendered_text (Paragraph (process_inlines es)) = inlines_text es"
  "rendered_text (Heading l (process_inlines es)) = inlines_text es"
  by (simp_all add: process_inlines_text [unfolded inlines_text_def] inlines_text_def)

definition keeps_frames :: "string \<Rightarrow> builder \<Rightarrow> builder \<Rightarrow> bool" where
  "keeps_frames src b b' \<longleftrightarrow> (tree_inv src b \<longrightarrow> tree_inv src b') \<and> frame_tags b' = frame_tags b"

lemma keeps_frames_trans: "keeps_frames src a b \<Longrightarrow> keeps_frames src b c \<Longrightarrow> keeps_frames src a c"
  by (simp add: keeps_frames_def)

lemma keeps_frames_same:
  "b_root_nodes b' = b_root_nodes b \<Longrightarrow> b_frames b' = b_frames b \<Longrightarrow>
   sb_blocks (b_spans b') = sb_blocks (b_spans b) \<Longrightarrow> keeps_frames src b b'"
  using tree_inv_cong by (auto simp: keeps_frames_def frame_tags_def)

lemma keeps_push_block:
  "r \<noteq> None \<longrightarrow> node_children n = [] \<and> renders src (rendered_text n) runs \<Longrightarrow> keeps_frames src b (push_block b n r runs)"
  by (simp add: keeps_frames_def tree_inv_push_block)

lemma keeps_flush:
  assumes "content_inv src b"
  shows "keeps_frames src b (flush_pending_inlines b)"
proof (cases "b_inlines b = []")
  case True
  then show ?thesis by (simp add: flush_pending_inlines_def keeps_frames_same)
next
  case False
  let ?b = "b\<lparr>b_runs := ra_empty, b_inlines := []\<rparr>"
  have "keeps_frames src b ?b" by (rule keeps_frames_same) simp_all
  moreover have "keeps_frames src ?b (push_block ?b (Paragraph (process_inlines (b_inlines b)))
      (run_extent (ra_runs (b_runs b))) (ra_runs (b_runs b)))"
    using content_renders [OF assms] by (intro keeps_push_block) (simp del: rendered_text.simps)
  ultimately show ?thesis
    using False keeps_frames_trans
    by (auto simp: flush_pending_inlines_def take_inlines_def ra_take_def)
qed

lemma keeps_drain_fold:
  "list_all (deferred_ok src) ds \<Longrightarrow>
   keeps_frames src b (foldl (\<lambda>b d. push_block b (df_node d) (Some (df_source d)) (df_runs d)) b ds)"
proof (induction ds arbitrary: b)
  case Nil
  show ?case by (simp add: keeps_frames_def)
next
  case (Cons d ds)
  then have "keeps_frames src b (push_block b (df_node d) (Some (df_source d)) (df_runs d))"
    by (intro keeps_push_block) (simp add: deferred_ok_def)
  then show ?case
    using Cons keeps_frames_trans by fastforce
qed

lemma keeps_drain: "content_inv src b \<Longrightarrow> keeps_frames src b (drain_deferred b)"
  unfolding drain_deferred_def
  by (rule keeps_frames_trans [OF keeps_frames_same keeps_drain_fold]) (simp_all add: content_inv_def)

lemma keeps_split_top: "keeps_frames src b (b\<lparr>b_link_stack := ls, b_frames := fst (split_top (b_frames b))\<rparr>)"
proof (cases "fst (split_top (b_frames b)) = b_frames b")
  case True
  then show ?thesis by (intro keeps_frames_same) simp_all
next
  case False
  then obtain f fs where f: "b_frames b = f # fs" "fst (split_top (b_frames b)) = f\<lparr>fr_split := True\<rparr> # fs"
    using split_top_frames by metis
  have "tree_inv src b \<Longrightarrow> tree_inv src (b\<lparr>b_frames := f\<lparr>fr_split := True\<rparr> # fs\<rparr>)"
    using f(1) by (intro tree_inv_same_kinds) simp_all
  then have "tree_inv src b \<Longrightarrow> tree_inv src (b\<lparr>b_link_stack := ls, b_frames := f\<lparr>fr_split := True\<rparr> # fs\<rparr>)"
    using tree_inv_cong by fastforce
  then show ?thesis
    using f by (simp add: keeps_frames_def frame_tags_def)
qed

lemma keeps_close_image:
  assumes "content_inv src b"
  shows "keeps_frames src b (close_image b)"
proof (cases "b_link_stack b")
  case Nil
  then show ?thesis by (simp add: close_image_def keeps_frames_def)
next
  case (Cons f fs)
  let ?b = "b\<lparr>b_link_stack := fs, b_frames := fst (split_top (b_frames b))\<rparr>"
  let ?w = "snd (split_top (b_frames b))"
  let ?c = "if ?w then ?b else flush_pending_inlines ?b"
  let ?alt = "concat (map alt_piece (lf_content f))"
  let ?runs = "ra_runs (ra_push ra_empty (char_count ?alt) (lf_source f) False)"
  have "content_inv src ?b"
    using assms Cons by (simp add: content_inv_def)
  then have "keeps_frames src ?b ?c"
    using keeps_flush by (simp add: keeps_frames_same)
  then have k: "keeps_frames src b ?c"
    by (rule keeps_frames_trans [OF keeps_split_top])
  have "keeps_frames src ?c (?c\<lparr>b_deferred := d\<rparr>)" for d
    by (rule keeps_frames_same) simp_all
  moreover have "keeps_frames src ?c (push_block ?c (Image ?alt u) (Some (lf_source f)) ?runs)" for u
    using char_count_alt by (intro keeps_push_block) simp
  ultimately show ?thesis
    using Cons k keeps_frames_trans [OF k]
    by (auto simp: close_image_def Let_def case_prod_unfold split: link_kind.split)
qed

lemma keeps_emit: "keeps_frames src b (emit_run b n r ip)"
  by (rule keeps_frames_same) (simp_all add: emit_run_def split: list.split)

lemma keeps_push_inline: "keeps_frames src b (push_inline b e)"
  by (rule keeps_frames_same) (simp_all add: push_inline_def split: list.split)

lemma keeps_close_link: "keeps_frames src b (close_link b)"
proof (cases "b_link_stack b")
  case Nil
  then show ?thesis by (simp add: close_link_def keeps_frames_def)
next
  case (Cons f fs)
  have "keeps_frames src b (b\<lparr>b_link_stack := fs\<rparr>)"
    by (rule keeps_frames_same) simp_all
  moreover from this have "keeps_frames src b (push_inline (emit_run (b\<lparr>b_link_stack := fs\<rparr>) n r ip) e)" for n r ip e
    using keeps_frames_trans keeps_emit keeps_push_inline by metis
  ultimately show ?thesis
    using Cons by (simp add: close_link_def Let_def)
qed

lemma keeps_push_text: "keeps_frames src b (push_inline (push_run src b t r) e)"
  unfolding push_run_def using keeps_emit keeps_push_inline keeps_frames_trans by blast

lemma keeps_end_code:
  assumes "content_inv src b"
  shows "keeps_frames src b (end_code_block b)"
proof (cases "b_code_block b")
  case None
  then show ?thesis by (simp add: end_code_block_def keeps_frames_def)
next
  case (Some a)
  have "renders src (ca_code a) (ra_runs (ca_runs a))"
    using assms Some by (simp add: content_inv_def code_ok_def ra_renders_def)
  then have "keeps_frames src (b\<lparr>b_code_block := None\<rparr>) (end_code_block b)"
    using Some by (simp add: end_code_block_def keeps_push_block)
  moreover have "keeps_frames src b (b\<lparr>b_code_block := None\<rparr>)"
    by (rule keeps_frames_same) simp_all
  ultimately show ?thesis using keeps_frames_trans by blast
qed

text \<open>Proper nesting of the five kinds of block tag, the documented shape of the event stream.\<close>

fun nest_step :: "md_tag_end list \<Rightarrow> md_event \<Rightarrow> md_tag_end list option" where
  "nest_step st (EvStart tag) =
     Some (case tag of
             THeading _ \<Rightarrow> EHeading # st
           | TParagraph \<Rightarrow> EParagraph # st
           | TBlockQuote \<Rightarrow> EBlockQuote # st
           | TList _ \<Rightarrow> EList # st
           | TItem \<Rightarrow> EItem # st
           | _ \<Rightarrow> st)"
| "nest_step st (EvEnd t) =
     (if t \<in> {EHeading, EParagraph, EBlockQuote, EList, EItem}
      then (case st of [] \<Rightarrow> None | x # below \<Rightarrow> if x = t then Some below else None)
      else Some st)"
| "nest_step st _ = Some st"

fun well_nested :: "md_tag_end list \<Rightarrow> (md_event \<times> range) list \<Rightarrow> bool" where
  "well_nested st [] = (st = [])"
| "well_nested st ((e, r) # events) =
     (case nest_step st e of None \<Rightarrow> False | Some st' \<Rightarrow> well_nested st' events)"

lemma frame_tags_Cons:
  "b_frames b = f # fs \<Longrightarrow> frame_tags b = t # st \<Longrightarrow> frame_tags (b\<lparr>b_frames := fs\<rparr>) = st"
  by (simp add: frame_tags_def)

lemma frame_tags_cases:
  assumes "frame_tags b = t # st"
  obtains f fs where "b_frames b = f # fs" "frame_tags (b\<lparr>b_frames := fs\<rparr>) = st"
    "t = (case fr_kind f of
            FHeading _ \<Rightarrow> EHeading | FParagraph \<Rightarrow> EParagraph | FBlockquote _ _ \<Rightarrow> EBlockQuote
          | FList _ _ _ \<Rightarrow> EList | FListItem _ _ _ \<Rightarrow> EItem)"
  using assms by (cases "b_frames b") (auto simp: frame_tags_def)

lemma end_inline_frame:
  assumes "tree_inv src b" and "content_inv src b" and "b_frames b = f # fs"
    and "\<not> holds_children (fr_kind f)"
    and "rendered_text n = inlines_text (b_inlines b)" and "node_children n = []"
  shows "tree_inv src (push_block (b\<lparr>b_frames := fs, b_runs := ra_empty, b_inlines := []\<rparr>) n r (ra_runs (b_runs b)))"
proof -
  have "tree_inv src (b\<lparr>b_frames := fs\<rparr>)"
    using assms by (intro tree_inv_pop_plain)
  then have "tree_inv src (b\<lparr>b_frames := fs, b_runs := ra_empty, b_inlines := []\<rparr>)"
    using tree_inv_cong by fastforce
  then show ?thesis
    using assms(5,6) content_renders [OF assms(2)] by (intro tree_inv_push_block) simp_all
qed

lemma frame_tags_fields [simp]:
  "frame_tags (b\<lparr>b_runs := ra\<rparr>) = frame_tags b"
  "frame_tags (b\<lparr>b_frames := fs, b_runs := ra\<rparr>) = frame_tags (b\<lparr>b_frames := fs\<rparr>)"
  "frame_tags (b\<lparr>b_frames := fs, b_runs := ra, b_inlines := es\<rparr>) = frame_tags (b\<lparr>b_frames := fs\<rparr>)"
  by (simp_all add: frame_tags_def)

lemma end_heading_step:
  assumes "tree_inv src b" and "content_inv src b" and "frame_tags b = EHeading # st"
  shows "tree_inv src (end_heading b) \<and> frame_tags (end_heading b) = st"
proof -
  obtain f fs l where f: "b_frames b = f # fs" "fr_kind f = FHeading l" "frame_tags (b\<lparr>b_frames := fs\<rparr>) = st"
    using assms(3) by (rule frame_tags_cases) (auto split: frame_kind.splits)
  let ?b = "b\<lparr>b_frames := fs, b_runs := ra_empty, b_inlines := []\<rparr>"
  let ?p = "push_block ?b (Heading l (process_inlines (b_inlines b)))
      (split_adjusted_source f (ra_runs (b_runs b))) (ra_runs (b_runs b))"
  have "tree_inv src ?p"
    using f(2) by (intro end_inline_frame [OF assms(1,2) f(1)]) (simp_all del: rendered_text.simps)
  moreover have "content_inv src ?p"
    using assms(2) by (simp add: content_inv_def)
  ultimately show ?thesis
    using keeps_drain [of src ?p] f
    by (simp add: keeps_frames_def end_heading_def take_inlines_def ra_take_def)
qed


lemma end_paragraph_step:
  assumes "tree_inv src b" and "content_inv src b" and "frame_tags b = EParagraph # st"
  shows "tree_inv src (end_paragraph b) \<and> frame_tags (end_paragraph b) = st"
proof -
  obtain f fs where f: "b_frames b = f # fs" "fr_kind f = FParagraph" "frame_tags (b\<lparr>b_frames := fs\<rparr>) = st"
    using assms(3) by (rule frame_tags_cases) (auto split: frame_kind.splits)
  have "tree_inv src (b\<lparr>b_frames := fs\<rparr>)"
    using tree_inv_pop_plain [OF assms(1) f(1)] f(2) by simp
  then have "tree_inv src (b\<lparr>b_frames := fs, b_runs := ra_empty\<rparr>)"
    using tree_inv_cong by fastforce
  moreover have "tree_inv src (push_block (b\<lparr>b_frames := fs, b_runs := ra_empty, b_inlines := []\<rparr>)
      (Paragraph (process_inlines (b_inlines b))) r (ra_runs (b_runs b)))" for r
    using f(2) by (intro end_inline_frame [OF assms(1,2) f(1)]) (simp_all del: rendered_text.simps)
  ultimately show ?thesis
    using f by (simp add: end_paragraph_def take_inlines_def ra_take_def Let_def)
qed

lemma end_container_steps:
  assumes "tree_inv src b"
  shows "frame_tags b = EBlockQuote # st \<Longrightarrow>
      tree_inv src (end_blockquote b) \<and> frame_tags (end_blockquote b) = st"
    and "frame_tags b = EList # st \<Longrightarrow> tree_inv src (end_list b) \<and> frame_tags (end_list b) = st"
proof -
  assume "frame_tags b = EBlockQuote # st"
  then obtain f fs p ns where "b_frames b = f # fs" "fr_kind f = FBlockquote p ns"
      "frame_tags (b\<lparr>b_frames := fs\<rparr>) = st"
    by (rule frame_tags_cases) (auto split: frame_kind.splits)
  then show "tree_inv src (end_blockquote b) \<and> frame_tags (end_blockquote b) = st"
    using tree_inv_close [OF assms, of f fs "Blockquote ns"] by (simp add: end_blockquote_def)
next
  assume "frame_tags b = EList # st"
  then obtain f fs p ord ns where "b_frames b = f # fs" "fr_kind f = FList p ord ns"
      "frame_tags (b\<lparr>b_frames := fs\<rparr>) = st"
    by (rule frame_tags_cases) (auto split: frame_kind.splits)
  then show "tree_inv src (end_list b) \<and> frame_tags (end_list b) = st"
    using tree_inv_close [OF assms, of f fs "MList ord ns"] by (simp add: end_list_def)
qed

lemma end_item_step:
  assumes "tree_inv src b" and "content_inv src b" and "frame_tags b = EItem # st"
  shows "tree_inv src (end_item b) \<and> frame_tags (end_item b) = st"
proof -
  let ?b = "flush_pending_inlines b"
  have t: "tree_inv src ?b" "frame_tags ?b = EItem # st"
    using keeps_flush [OF assms(2)] assms(1,3) by (simp_all add: keeps_frames_def)
  obtain f fs p ns c where f: "b_frames ?b = f # fs" "fr_kind f = FListItem p ns c"
      "frame_tags (?b\<lparr>b_frames := fs\<rparr>) = st"
    using t(2) by (rule frame_tags_cases) (auto split: frame_kind.splits)
  then show ?thesis
    using tree_inv_close [OF t(1) f(1), of "ListItem ns c"] by (simp add: end_item_def)
qed

lemma frame_tags_open: "frame_tags (open_frame b k r) =
    (case k of
        FHeading _ \<Rightarrow> EHeading | FParagraph \<Rightarrow> EParagraph | FBlockquote _ _ \<Rightarrow> EBlockQuote
      | FList _ _ _ \<Rightarrow> EList | FListItem _ _ _ \<Rightarrow> EItem) # frame_tags b"
  by (simp add: open_frame_def frame_tags_def)

lemma start_event_step:
  assumes "tree_inv src b" and "content_inv src b" and "nest_step (frame_tags b) (EvStart tag) = Some st"
  shows "tree_inv src (start_event dir b tag r) \<and> frame_tags (start_event dir b tag r) = st"
proof -
  have ri: "tree_inv src (reset_inlines b)" "frame_tags (reset_inlines b) = frame_tags b"
    using keeps_frames_same [of "reset_inlines b" b src] assms(1) by (simp_all add: reset_inlines_def keeps_frames_def)
  have fl: "tree_inv src (flush_pending_inlines b)" "frame_tags (flush_pending_inlines b) = frame_tags b"
    using keeps_flush [OF assms(2)] assms(1) by (simp_all add: keeps_frames_def)
  have other: "tree_inv src b'" "frame_tags b' = frame_tags b"
    if "b_root_nodes b' = b_root_nodes b" "b_frames b' = b_frames b"
      "sb_blocks (b_spans b') = sb_blocks (b_spans b)" for b'
    using keeps_frames_same [OF that] assms(1) by (simp_all add: keeps_frames_def)
  show ?thesis
  proof (cases tag)
    case (THeading l)
    then show ?thesis
      using assms(3) ri by (simp add: start_event_def tree_inv_open_plain frame_tags_open)
  next
    case TParagraph
    then show ?thesis
      using assms(3) ri by (simp add: start_event_def tree_inv_open_plain frame_tags_open)
  next
    case TBlockQuote
    then show ?thesis
      using assms by (simp add: start_event_def tree_inv_open_container frame_tags_open)
  next
    case (TList n)
    then show ?thesis
      using assms(3) fl by (simp add: start_event_def tree_inv_open_container frame_tags_open Let_def)
  next
    case TItem
    then show ?thesis
      using assms by (simp add: start_event_def tree_inv_open_container frame_tags_open)
  next
    case TMetadata
    then show ?thesis
      using assms(3) by (auto simp: start_event_def set_frontmatter_def intro!: other)
  next
    case (TLink d)
    then show ?thesis
      using assms(3) by (auto simp: start_event_def open_link_def intro!: other)
  next
    case (TImage d)
    then show ?thesis
      using assms(3) by (auto simp: start_event_def open_link_def intro!: other)
  qed (insert assms(3), auto simp: start_event_def intro!: other)
qed


lemma handle_step:
  assumes "tree_inv src b" and "content_inv src b" and "nest_step (frame_tags b) ev = Some st"
  shows "tree_inv src (handle src dir b (ev, r)) \<and> frame_tags (handle src dir b (ev, r)) = st"
proof -
  have other: "tree_inv src b' \<and> frame_tags b' = st" if "keeps_frames src b b'" "st = frame_tags b" for b'
    using that assms(1) by (simp add: keeps_frames_def)
  show ?thesis
  proof (cases ev)
    case (EvStart tag)
    then show ?thesis
      using start_event_step assms by (simp add: handle_def)
  next
    case (EvEnd t)
    show ?thesis
    proof (cases "t \<in> {EHeading, EParagraph, EBlockQuote, EList, EItem}")
      case True
      then have "frame_tags b = t # st"
        using assms(3) EvEnd by (auto split: list.splits if_splits)
      then show ?thesis
        using True EvEnd end_heading_step [OF assms(1,2)] end_paragraph_step [OF assms(1,2)]
          end_container_steps [OF assms(1)] end_item_step [OF assms(1,2)]
        by (auto simp: handle_def end_event_def)
    next
      case False
      then have "keeps_frames src b (end_event b t)"
        using keeps_end_code [OF assms(2)] keeps_close_link keeps_close_image [OF assms(2)]
        by (cases t) (auto simp: end_event_def intro: keeps_frames_same)
      then show ?thesis
        using False EvEnd assms(3) other by (simp add: handle_def)
    qed
  next
    case (EvText t)
    have "keeps_frames src b (text_event src b t r)"
      using keeps_push_text by (auto simp: text_event_def intro: keeps_frames_same split: option.split)
    then show ?thesis using EvText assms(3) other by (simp add: handle_def)
  next
    case (EvTaskListMarker c)
    have "keeps_frames src b (task_list_marker b c)"
    proof (cases "\<exists>f fs p ns d. b_frames b = f # fs \<and> fr_kind f = FListItem p ns d")
      case True
      then obtain f fs p ns d where f: "b_frames b = f # fs" "fr_kind f = FListItem p ns d" by blast
      then show ?thesis
        using tree_inv_same_kinds [of src b f fs "f\<lparr>fr_kind := FListItem p ns (Some c)\<rparr>"]
        by (simp add: task_list_marker_def keeps_frames_def frame_tags_def)
    next
      case False
      then have "task_list_marker b c = b"
        by (auto simp: task_list_marker_def split: list.split frame_kind.split)
      then show ?thesis by (simp add: keeps_frames_def)
    qed
    then show ?thesis using EvTaskListMarker assms(3) other by (simp add: handle_def)
  next
    case EvRule
    have "keeps_frames src b (push_block b ThematicBreak (Some r) [])"
      by (intro keeps_push_block) (simp add: renders_def runs_copy_def)
    then show ?thesis using EvRule assms(3) other by (simp add: handle_def)
  next
    case (EvCode t)
    then show ?thesis using assms(3) other keeps_push_text by (simp add: handle_def code_span_def)
  next
    case EvSoftBreak
    then show ?thesis using assms(3) other keeps_push_text by (simp add: handle_def line_break_def)
  next
    case EvHardBreak
    then show ?thesis using assms(3) other keeps_push_text by (simp add: handle_def line_break_def)
  next
    case EvOther
    then show ?thesis using assms by (simp add: handle_def)
  qed
qed

lemma builder_new_inv [simp]: "content_inv src builder_new" "tree_inv src builder_new" "frame_tags builder_new = []"
  by (simp_all add: builder_new_def content_inv_def tree_inv_def frame_tags_def)

lemma run_builder_inv:
  assumes "tree_inv src b" and "content_inv src b" and "list_all event_ok events"
    and "well_nested (frame_tags b) events"
  shows "tree_inv src (foldl (handle src dir) b events) \<and> content_inv src (foldl (handle src dir) b events)
    \<and> frame_tags (foldl (handle src dir) b events) = []"
  using assms
proof (induction events arbitrary: b)
  case (Cons er events)
  obtain ev r where er: "er = (ev, r)" by (cases er)
  obtain st where st: "nest_step (frame_tags b) ev = Some st" "well_nested st events"
    using Cons.prems(4) by (auto simp: er split: option.splits)
  show ?case
    using Cons.IH [of "handle src dir b er"] Cons.prems handle_step [OF Cons.prems(1,2) st(1)] st(2)
      content_handle [OF Cons.prems(2)] by (simp add: er)
qed simp


subsection \<open>The finished map\<close>

lemma link_child_lens: "map bs_rendered_len (link_child bp bs i) = map bs_rendered_len bs"
proof -
  have "map bs_rendered_len (bs[p := (bs ! p)\<lparr>bs_children := cs\<rparr>]) = map bs_rendered_len bs" for p cs
    by (cases "p < length bs") (simp_all add: map_update list_update_same_conv list_update_beyond)
  then show ?thesis
    by (simp add: link_child_def push_child_def Let_def split: option.split)
qed

lemma link_children_lens: "map bs_rendered_len (foldl (link_child bp) bs is) = map bs_rendered_len bs"
  by (induction "is" arbitrary: bs) (simp_all add: link_child_lens)

lemma linked_lens: "map bs_rendered_len (linked_blocks bs) = map bs_rendered_len bs"
  by (simp add: linked_blocks_def Let_def comp_def link_children_lens)

lemma container_lens_leaf:
  "i < length bs \<Longrightarrow> bs_children (bs ! i) = [] \<Longrightarrow>
   bs_rendered_len (foldl container_len bs js ! i) = bs_rendered_len (bs ! i)"
proof (induction js arbitrary: bs)
  case (Cons j js)
  then have "container_len bs j ! i = bs ! i"
    by (auto simp: container_len_nth)
  with Cons show ?case by simp
qed simp

lemma builder_finish_leaf:
  assumes "i < length (sb_blocks sb)" and "bs_children (sm_blocks (builder_finish sb) ! i) = []"
  shows "bs_rendered_len (sm_blocks (builder_finish sb) ! i) = bs_rendered_len (sb_blocks sb ! i)"
proof -
  let ?l = "linked_blocks (sb_blocks sb)"
  have l: "length ?l = length (sb_blocks sb)"
    by (rule same_spans_length) (rule same_spans_linked)
  have "map bs_rendered_len ?l ! i = map bs_rendered_len (sb_blocks sb) ! i"
    by (simp add: linked_lens)
  then show ?thesis
    using assms l by (simp add: builder_finish_linked foldl_container_len_children container_lens_leaf)
qed

text \<open>What the map says of a block, compared with the node its path leads to.\<close>

definition addressed :: "string \<Rightarrow> ast_node list \<Rightarrow> block_span \<Rightarrow> bool" where
  "addressed src ast s \<longleftrightarrow>
     (case node_at_path ast (bs_path s) of
        None \<Rightarrow> False
      | Some n \<Rightarrow> is_container n
          \<or> (bs_children s = [] \<and> bs_rendered_len s = char_count (rendered_text n)
             \<and> renders src (rendered_text n) (bs_runs s)))"

lemma parse_events_inv:
  fixes src dir :: string
  assumes "list_all event_ok events" and "well_nested [] events"
  defines "bs \<equiv> sb_blocks (b_spans (run_builder src dir events))"
    and "pn \<equiv> parse_events src dir events"
  shows "wf_map (pn_spans pn)" and "same_spans (sm_blocks (pn_spans pn)) bs"
    and "distinct (map bs_path bs)" and "sm_by_path (pn_spans pn) = index_by_path bs"
    and "\<forall>s\<in>set bs. bs_children s = [] \<and> (\<exists>n. node_at_path (pn_ast pn) (bs_path s) = Some n \<and> span_node src n s)"
proof -
  let ?b = "run_builder src dir events"
  have inv: "tree_inv src ?b" "frame_tags ?b = []"
    using run_builder_inv [of src builder_new events dir] assms(1,2) by (simp_all add: run_builder_def)
  have "b_frames ?b = []"
    using inv(2) by (simp add: frame_tags_def)
  then have l: "levels (b_root_nodes ?b) (b_frames ?b) = [pn_ast pn]"
    by (simp add: levels_def pn_def parse_events_def Let_def)
  show c: "\<forall>s\<in>set bs. bs_children s = [] \<and> (\<exists>n. node_at_path (pn_ast pn) (bs_path s) = Some n \<and> span_node src n s)"
    and "distinct (map bs_path bs)"
    using inv(1) l by (simp_all add: tree_inv_def bs_def)
  have sp: "pn_spans pn = builder_finish (b_spans ?b)"
    by (simp add: pn_def parse_events_def Let_def)
  show "sm_by_path (pn_spans pn) = index_by_path bs"
    unfolding sp by (simp add: builder_finish_linked bs_def)
  show "wf_map (pn_spans pn)" "same_spans (sm_blocks (pn_spans pn)) bs"
    unfolding sp using builder_finish_wf [of "b_spans ?b"] c by (simp_all add: bs_def)
qed

lemma parse_events_addressed:
  assumes "list_all event_ok events" and "well_nested [] events"
    and "s \<in> set (sm_blocks (pn_spans (parse_events src dir events)))"
  shows "addressed src (pn_ast (parse_events src dir events)) s"
proof -
  let ?pn = "parse_events src dir events"
  let ?sb = "b_spans (run_builder src dir events)"
  note inv = parse_events_inv [OF assms(1,2), of src dir]
  have sp: "pn_spans ?pn = builder_finish ?sb"
    by (simp add: parse_events_def Let_def)
  obtain i where i: "i < length (sb_blocks ?sb)" "s = sm_blocks (pn_spans ?pn) ! i"
    using assms(3) same_spans_length [OF inv(2)] by (metis in_set_conv_nth)
  let ?o = "sb_blocks ?sb ! i"
  have same: "bs_path s = bs_path ?o" "bs_runs s = bs_runs ?o"
    using same_spans_nth [OF inv(2) i(1)] i(2) by simp_all
  obtain n where n: "node_at_path (pn_ast ?pn) (bs_path ?o) = Some n" "span_node src n ?o"
    using inv(5) i(1) by (meson nth_mem)
  show ?thesis
  proof (cases "is_container n")
    case True
    then show ?thesis using n(1) same by (simp add: addressed_def)
  next
    case False
    then have leaf: "node_children n = []" "renders src (rendered_text n) (bs_runs ?o)"
        "bs_rendered_len ?o = char_count (rendered_text n)"
      using n(2) by (simp_all add: span_node_def)
    have "bs_children s = []"
    proof (rule ccontr)
      assume "bs_children s \<noteq> []"
      then obtain c where "c \<in> set (bs_children s)" by (meson last_in_set)
      then have c: "c < length (sb_blocks ?sb)" "2 \<le> length (bs_path (sb_blocks ?sb ! c))"
          "index_by_path (sb_blocks ?sb) (butlast (bs_path (sb_blocks ?sb ! c))) = Some i"
        using builder_finish_children [of ?sb i] inv(5) i unfolding sp by auto
      let ?p = "bs_path (sb_blocks ?sb ! c)"
      have "butlast ?p = bs_path ?o"
        using index_by_path_Some [OF c(3)] by simp
      moreover have "1 \<le> length (butlast ?p)" "1 \<le> length ?p"
        using c(2) by simp_all
      then have "?p = butlast ?p @ [last ?p]" "butlast ?p \<noteq> []"
        by (metis append_butlast_last_id list.size(3) not_one_le_zero)+
      ultimately have "node_at_path (pn_ast ?pn) ?p = None"
        using node_at_path_snoc [of "bs_path ?o" "pn_ast ?pn" "last ?p"] n(1) leaf(1) by simp
      then show False
        using inv(5) c(1) by (metis nth_mem option.distinct(1))
    qed
    moreover from this have "bs_rendered_len s = bs_rendered_len ?o"
      using builder_finish_leaf [OF i(1)] i(2) sp by simp
    ultimately show ?thesis
      using n(1) same leaf by (simp add: addressed_def)
  qed
qed

section \<open>Properties of the parsed note\<close>

text \<open>A note with a heading and a tight list, as the library reports it, for the witnesses.\<close>

definition demo_note :: string where
  "demo_note = ''# Hi'' @ [LF, LF] @ ''- a'' @ [LF] @ ''- b''"

definition demo_events :: "(md_event \<times> range) list" where
  "demo_events =
     [(EvStart (THeading 1), (0, 5)), (EvText ''Hi'', (2, 4)), (EvEnd EHeading, (0, 5)),
      (EvStart (TList None), (6, 13)),
      (EvStart TItem, (6, 10)), (EvText ''a'', (8, 9)), (EvEnd EItem, (6, 10)),
      (EvStart TItem, (10, 13)), (EvText ''b'', (12, 13)), (EvEnd EItem, (10, 13)),
      (EvEnd EList, (6, 13))]"

definition demo_pulldown :: pulldown where
  "demo_pulldown metadata src = (if src = demo_note then demo_events else [])"



definition separated :: "inline_element list \<Rightarrow> bool" where
  "separated es \<longleftrightarrow>
     successively (\<lambda>x y. case x of Text r \<Rightarrow> (case y of Text t \<Rightarrow> \<not> same_format r t | _ \<Rightarrow> True) | _ \<Rightarrow> True) es"

lemma separated_merge_step: "separated merged \<Longrightarrow> separated (merge_step merged e)"
proof (cases "\<exists>run l ms. e = Text run \<and> rev merged = Text l # ms \<and> same_format l run")
  case True
  then obtain run l ms where h: "e = Text run" "rev merged = Text l # ms" "same_format l run" by blast
  from h(2) have m: "merged = rev ms @ [Text l]" by (metis rev.simps(2) rev_rev_ident)
  assume "separated merged"
  then show ?thesis
    using h by (auto simp: m merge_step_def separated_def successively_append_iff same_format_def
        split: inline_element.splits)
next
  case False
  then have e: "merge_step merged e = merged @ [e]"
    by (auto simp: merge_step_def split: inline_element.splits list.splits)
  assume "separated merged"
  then show ?thesis
  proof (cases merged rule: rev_cases)
    case (snoc ms l)
    then show ?thesis
      using False \<open>separated merged\<close> unfolding e
      by (auto simp: separated_def successively_append_iff split: inline_element.splits)
  next
    case Nil
    then show ?thesis unfolding e by (simp add: separated_def)
  qed
qed

lemma separated_merge: "separated merged \<Longrightarrow> separated (foldl merge_step merged es)"
  by (induction es arbitrary: merged) (simp_all add: separated_merge_step)

lemma separated_process: "separated (process_inlines es)"
proof -
  have "separated (merge_adjacent_text_runs es)"
    unfolding merge_adjacent_text_runs_def by (rule separated_merge) (simp add: separated_def)
  then show ?thesis
    unfolding process_inlines.simps [of es] separated_def successively_map
    by (rule successively_mono) (auto split: inline_element.splits)
qed

text \<open>Processing inline content (merging adjacent runs of the same format, at every nesting depth) never
  changes the rendered text, and leaves no two adjacent text runs of one format.\<close>

theorem process_inlines_keeps_text:
  "rendered_inline_text (process_inlines es) = rendered_inline_text es \<and> separated (process_inlines es)"
  using process_inlines_text [of es] separated_process by (simp add: inlines_text_def)

text \<open>
  Two shapes where the map and the tree part ways. A link that holds text and an image, \<^verbatim>\<open>[t ![a](i)](u)\<close>: the
  image becomes a block of its own, but the paragraph left behind keeps the whole link's range, which contains
  the image's. And a container whose child has no span, \<^verbatim>\<open>> # ![a](i)\<close>: its registered length leaves out the
  child and the joiner after it, which its rendered text has.
\<close>

definition link_image_events :: "(md_event \<times> range) list" where
  "link_image_events =
     [(EvStart TParagraph, (0, 15)), (EvStart (TLink ''u''), (0, 15)), (EvText ''t '', (1, 3)),
      (EvStart (TImage ''i''), (3, 10)), (EvText ''a'', (5, 6)), (EvEnd EImage, (3, 10)),
      (EvEnd ELink, (0, 15)), (EvEnd EParagraph, (0, 15))]"

lemma link_image_spans_overlap:
  "map bs_source (sm_blocks (pn_spans (parse_events ''[t ![a](i)](u)'' [] link_image_events))) = [(3, 10), (0, 15)]"
  by code_simp

definition quoted_image_events :: "(md_event \<times> range) list" where
  "quoted_image_events =
     [(EvStart TBlockQuote, (0, 11)), (EvStart (THeading 1), (2, 11)), (EvStart (TImage ''i''), (4, 11)),
      (EvText ''a'', (6, 7)), (EvEnd EImage, (4, 11)), (EvEnd EHeading, (2, 11)), (EvEnd EBlockQuote, (0, 11))]"

lemma quoted_image_length_diverges:
  "map bs_rendered_len (sm_blocks (pn_spans (parse_events ''> # ![a](i)'' [] quoted_image_events))) = [1, 1]
   \<and> map (\<lambda>n. char_count (rendered_text n)) (pn_ast (parse_events ''> # ![a](i)'' [] quoted_image_events)) = [2]"
  by code_simp

end
