(* ===== verification/Md_Splice.thy ===== *)
theory Md_Splice
  imports Md_Tree
begin

section \<open>Splicing\<close>

text \<open>
  \<^verbatim>\<open>markdown/splice.rs\<close>: the one place bytes of a note are moved. A committed splice checks the range,
  substitutes the text and reparses the whole note; a selection is resolved through the span map.
\<close>

datatype splice_error =
    UnknownBlock block_path
  | OffsetOutOfRange block_path nat
  | InvertedRange
  | InvalidSourceRange range

record spliced_note =
  sn_source :: string
  sn_ast :: "ast_node list"
  sn_spans :: span_map

definition splice_source :: "string \<Rightarrow> range \<Rightarrow> string \<Rightarrow> splice_error + string" where
  "splice_source src span replacement =
     (if snd span < fst span \<or> length src < snd span
         \<or> \<not> is_char_boundary src (fst span) \<or> \<not> is_char_boundary src (snd span)
      then Inl (InvalidSourceRange span)
      else Inr (take (fst span) src @ replacement @ drop (snd span) src))"

definition reparse :: "pulldown \<Rightarrow> string \<Rightarrow> string \<Rightarrow> spliced_note" where
  "reparse pulldown src containing_dir =
     (let pn = parse_note pulldown src containing_dir
      in \<lparr>sn_source = src, sn_ast = pn_ast pn, sn_spans = pn_spans pn\<rparr>)"

definition splice_block ::
    "pulldown \<Rightarrow> string \<Rightarrow> span_map \<Rightarrow> block_path \<Rightarrow> string \<Rightarrow> string \<Rightarrow> splice_error + spliced_note" where
  "splice_block pulldown src spans path replacement containing_dir =
     (case block spans path of
        None \<Rightarrow> Inl (UnknownBlock path)
      | Some b \<Rightarrow>
          (case splice_source src (bs_source b) replacement of
             Inl e \<Rightarrow> Inl e
           | Inr spliced \<Rightarrow> Inr (reparse pulldown spliced containing_dir)))"

definition offset_error :: "span_map \<Rightarrow> block_path \<Rightarrow> nat \<Rightarrow> splice_error" where
  "offset_error spans path offset =
     (if block spans path = None then UnknownBlock path else OffsetOutOfRange path offset)"

definition splice_resolve_range :: "string \<Rightarrow> span_map \<Rightarrow> rendered_range \<Rightarrow> splice_error + range" where
  "splice_resolve_range src spans r =
     (case resolve_offset spans src (rr_start_path r) (rr_start_offset r) of
        None \<Rightarrow> Inl (offset_error spans (rr_start_path r) (rr_start_offset r))
      | Some rs \<Rightarrow>
          (case resolve_offset spans src (rr_end_path r) (rr_end_offset r) of
             None \<Rightarrow> Inl (offset_error spans (rr_end_path r) (rr_end_offset r))
           | Some re \<Rightarrow>
               if res_end re < res_start rs then Inl InvertedRange
               else Inr (res_start rs, res_end re)))"

definition extract_range :: "string \<Rightarrow> span_map \<Rightarrow> rendered_range \<Rightarrow> splice_error + string" where
  "extract_range src spans r =
     (case splice_resolve_range src spans r of
        Inl e \<Rightarrow> Inl e
      | Inr resolved \<Rightarrow>
          (case str_get src resolved of
             None \<Rightarrow> Inl (InvalidSourceRange resolved)
           | Some t \<Rightarrow> Inr t))"

definition splice_range ::
    "pulldown \<Rightarrow> string \<Rightarrow> span_map \<Rightarrow> rendered_range \<Rightarrow> string \<Rightarrow> string \<Rightarrow> splice_error + spliced_note" where
  "splice_range pulldown src spans r replacement containing_dir =
     (case splice_resolve_range src spans r of
        Inl e \<Rightarrow> Inl e
      | Inr resolved \<Rightarrow>
          (case splice_source src resolved replacement of
             Inl e \<Rightarrow> Inl e
           | Inr spliced \<Rightarrow> Inr (reparse pulldown spliced containing_dir)))"

section \<open>Facts on splices and selections\<close>

lemma splice_source_Inr_iff:
  "splice_source src span t = Inr out \<longleftrightarrow>
     fst span \<le> snd span \<and> is_char_boundary src (fst span) \<and> is_char_boundary src (snd span)
     \<and> out = overwrite src span t"
  using is_char_boundary_le [of src "snd span"] by (auto simp: splice_source_def overwrite_def)

lemma splice_source_get: "(\<exists>out. splice_source src span t = Inr out) \<longleftrightarrow> str_get src span \<noteq> None"
  by (cases span) (auto simp: splice_source_def str_get_def)

lemma splice_source_valid:
  assumes "valid_utf8 src" and "valid_utf8 t" and "splice_source src span t = Inr out"
  shows "valid_utf8 out"
proof -
  have "is_char_boundary src (fst span)" "is_char_boundary src (snd span)" "out = overwrite src span t"
    using assms(3) by (simp_all add: splice_source_Inr_iff)
  then show ?thesis
    using valid_utf8_take_drop [OF assms(1)] assms(2) by (simp add: overwrite_def valid_utf8_append)
qed

lemma res_within_ends: "res_within lo hi r \<Longrightarrow> lo \<le> res_end r \<and> res_end r \<le> hi \<and> lo \<le> res_start r \<and> res_start r \<le> hi"
  by (cases r) auto

lemma concat_take_mono: "i \<le> j \<Longrightarrow> length (concat (take i gs)) \<le> length (concat (take j gs))"
  by (metis append_take_drop_id concat_append le_add1 length_append min_absorb1 take_take)

lemma resolve_in_run:
  assumes "resolve_runs src blk (run # runs) prev off = Some r" and "fst (ir_rendered run) \<le> off"
    and "off < snd (ir_rendered run)" and "runs_ok src lo hi (fst (ir_rendered run)) n (run # runs)"
  shows "res_start r \<le> snd (ir_source run) \<and>
    (fst (ir_rendered run) < off \<longrightarrow> fst (ir_source run) \<le> res_end r)"
proof (cases "off = fst (ir_rendered run)")
  case True
  then show ?thesis using assms(1,4) by auto
next
  case False
  show ?thesis
  proof (cases "ir_interpolable run")
    case ip: True
    then obtain t where t: "str_get src (ir_source run) = Some t"
        "off - fst (ir_rendered run) < length (chars t)"
        "r = Exact (fst (ir_source run) + length (concat (take (off - fst (ir_rendered run)) (chars t))))"
      using assms(1,3) False by (auto simp: Let_def split: option.splits if_splits)
    have "length (concat (take (off - fst (ir_rendered run)) (chars t))) \<le> length t"
      using concat_take_less [OF t(2)] chars_nonempty concat_chars [of t] by (metis less_imp_le)
    moreover have "length t = snd (ir_source run) - fst (ir_source run)" "fst (ir_source run) \<le> snd (ir_source run)"
      using t(1) by (cases "ir_source run"; auto simp: str_get_Some_iff)+
    ultimately show ?thesis using t(3) by simp
  next
    case np: False
    then show ?thesis using assms(1,3,4) False by auto
  qed
qed

lemma resolve_runs_forward:
  assumes "runs_ok src lo hi k n runs" and "resolve_runs src blk runs pa a = Some ra"
    and "resolve_runs src blk runs pb b = Some rb" and "k \<le> a" and "a < b" and "b \<le> n"
    and "runs \<noteq> [] \<longrightarrow> bs_runs blk \<noteq> [] \<and> last (bs_runs blk) = last runs"
  shows "res_start ra \<le> res_end rb"
  using assms(1-5,7)
proof (induction runs arbitrary: lo k pa pb)
  case Nil
  then show ?case using assms(6) by simp
next
  case (Cons run runs)
  let ?e = "snd (ir_rendered run)" and ?se = "snd (ir_source run)"
  have ok: "runs_ok src ?se hi ?e n runs" and k: "fst (ir_rendered run) = k"
    and src: "fst (ir_source run) \<le> ?se"
    using Cons.prems(1) by auto
  have last: "runs \<noteq> [] \<longrightarrow> bs_runs blk \<noteq> [] \<and> last (bs_runs blk) = last runs"
    using Cons.prems(6) by auto
  show ?case
  proof (cases "?e \<le> b")
    case True
    then have rb: "resolve_runs src blk runs (Some ?se) b = Some rb"
      using Cons.prems(3,4,5) k by (auto split: if_splits)
    have "\<exists>r. resolve_runs src blk runs (Some ?se) b = Some r \<and> res_within ?se hi r"
      using True assms(6) Cons.prems(6) runs_ok_last [OF ok] runs_ok_le [OF ok]
      by (intro resolve_runs_total [OF ok]) (auto split: if_splits)
    with rb have e: "?se \<le> res_end rb"
      using res_within_ends by fastforce
    show ?thesis
    proof (cases "?e \<le> a")
      case True
      show ?thesis
      proof (cases "a = fst (ir_rendered run)")
        case same: True
        then have "ra = Boundary (case pa of None \<Rightarrow> fst (ir_source run) | Some e \<Rightarrow> e) (fst (ir_source run))"
          using Cons.prems(2) by simp
        with e src show ?thesis by simp
      next
        case False
        then have "resolve_runs src blk runs (Some ?se) a = Some ra"
          using Cons.prems(2) True by auto
        then show ?thesis
          using Cons.IH [OF ok _ rb True Cons.prems(5) last] by simp
      qed
    next
      case False
      then have "res_start ra \<le> ?se"
        using resolve_in_run [OF Cons.prems(2) _ _ Cons.prems(1) [folded k]] Cons.prems(1,4) k by auto
      with e show ?thesis by simp
    qed
  next
    case False
    then have lt: "b < ?e" "a < ?e" using Cons.prems(5) by auto
    show ?thesis
    proof (cases "a = k")
      case True
      then have "res_start ra = fst (ir_source run)" using Cons.prems(2) k by auto
      then show ?thesis
        using resolve_in_run [OF Cons.prems(3) _ lt(1) Cons.prems(1) [folded k]] Cons.prems(4,5) k True by auto
    next
      case False
      show ?thesis
      proof (cases "ir_interpolable run")
        case True
        then show ?thesis
          using Cons.prems(2-5) False lt k
          by (auto simp: Let_def intro!: concat_take_mono split: option.splits if_splits)
      next
        case np: False
        then show ?thesis using Cons.prems(2-5) False lt k src by auto
      qed
    qed
  qed
qed


section \<open>Properties of splices and selections\<close>

text \<open>C5: A splice touches exactly the bytes of its range. It succeeds exactly when the range is addressable text,
  the result is the text before it, the replacement and the text after it, and replacing valid text by
  valid text leaves the note valid UTF-8; otherwise the error carries the range.\<close>

theorem splice_source_exact:
  assumes "valid_utf8 src" and "valid_utf8 t"
  shows "case splice_source src span t of
      Inl e \<Rightarrow> e = InvalidSourceRange span \<and> str_get src span = None
    | Inr out \<Rightarrow> str_get src span \<noteq> None \<and> out = overwrite src span t \<and> valid_utf8 out
        \<and> str_upto out (fst span) = Some (take (fst span) src)
        \<and> slice out (fst span, fst span + length t) = t
        \<and> str_from out (fst span + length t) = Some (drop (snd span) src)"
proof (cases "splice_source src span t")
  case (Inl e)
  then have "str_get src span = None"
    using splice_source_get [of src span t] by (metis Inr_not_Inl)
  with Inl show ?thesis by (auto simp: splice_source_def split: if_splits)
next
  case (Inr out)
  have v: "valid_utf8 out"
    using splice_source_valid [OF assms Inr] .
  have b: "is_char_boundary src (fst span)" "is_char_boundary src (snd span)" and o: "out = overwrite src span t"
    using Inr by (simp_all add: splice_source_Inr_iff)
  have l: "fst span \<le> length src" using b(1) by (rule is_char_boundary_le)
  have "starts_char (t @ drop (snd span) src)"
    using assms b(2) by (intro starts_char_append valid_utf8_starts_char boundary_starts_char)
  then have "is_char_boundary out (fst span)"
    using l unfolding o overwrite_def by (intro starts_char_boundary) simp_all
  moreover have "is_char_boundary out (fst span + length t)"
    using l boundary_starts_char [OF assms(1) b(2)] unfolding o overwrite_def
    by (intro starts_char_boundary) simp_all
  ultimately show ?thesis
    using Inr v o l splice_source_get [of src span t]
    by (auto simp: str_upto_Some_iff str_from_Some_iff overwrite_def slice_def)
qed

lemma splice_source_exact_witness:
  "splice_source demo_note (2, 4) ''Yo!'' = Inr (''# Yo!'' @ [LF, LF] @ ''- a'' @ [LF] @ ''- b'')
   \<and> valid_utf8 (''# Yo!'' @ [LF, LF] @ ''- a'' @ [LF] @ ''- b'')"
proof -
  have v: "valid_utf8 demo_note" "valid_utf8 ''Yo!''" by code_simp+
  have r: "splice_source demo_note (2, 4) ''Yo!'' = Inr (''# Yo!'' @ [LF, LF] @ ''- a'' @ [LF] @ ''- b'')"
    by code_simp
  then show ?thesis
    using splice_source_exact [OF v, of "(2, 4)"] unfolding r sum.case by blast
qed

text \<open>A committed block splice changes the block's bytes and nothing else, and hands back a tree and a map
  parsed from exactly the source it returns; a path no block has is refused.\<close>

theorem splice_block_commits:
  "splice_block pulldown src spans path t dir = Inr n \<longleftrightarrow>
     (\<exists>b. block spans path = Some b \<and> str_get src (bs_source b) \<noteq> None
        \<and> sn_source n = overwrite src (bs_source b) t
        \<and> sn_ast n = pn_ast (parse_note pulldown (sn_source n) dir)
        \<and> sn_spans n = pn_spans (parse_note pulldown (sn_source n) dir))"
proof (cases "block spans path")
  case None
  then show ?thesis by (simp add: splice_block_def)
next
  case (Some b)
  have get: "str_get src (bs_source b) \<noteq> None \<longleftrightarrow> splice_source src (bs_source b) t = Inr (overwrite src (bs_source b) t)"
    using splice_source_get [of src "bs_source b" t] splice_source_Inr_iff [of src "bs_source b" t] by blast
  have n: "n = reparse pulldown (overwrite src (bs_source b) t) dir \<longleftrightarrow>
      sn_source n = overwrite src (bs_source b) t
        \<and> sn_ast n = pn_ast (parse_note pulldown (sn_source n) dir)
        \<and> sn_spans n = pn_spans (parse_note pulldown (sn_source n) dir)"
    by (cases n) (auto simp: reparse_def Let_def)
  show ?thesis
  proof (cases "splice_source src (bs_source b) t")
    case (Inl e)
    then show ?thesis using Some get by (simp add: splice_block_def)
  next
    case (Inr out)
    then have "out = overwrite src (bs_source b) t"
      by (simp add: splice_source_Inr_iff)
    then show ?thesis using Some Inr get n by (auto simp: splice_block_def)
  qed
qed

text \<open>C31: A selection that runs forward inside one leaf always resolves: with both offsets in the leaf's rendered
  text and the start before the end, the answer is a range in order inside the leaf's source, never an
  inverted one, whatever markup separates the runs.\<close>

theorem selection_in_leaf_resolves:
  assumes "wf_map m" and "sm_by_path m p = Some i" and "bs_children (sm_blocks m ! i) = []"
    and "leaf_ok src (sm_blocks m ! i)"
    and "a < b" and "b \<le> bs_rendered_len (sm_blocks m ! i)"
  shows "\<exists>lo hi. splice_resolve_range src m
        \<lparr>rr_start_path = p, rr_start_offset = a, rr_end_path = p, rr_end_offset = b\<rparr> = Inr (lo, hi)
      \<and> fst (bs_source (sm_blocks m ! i)) \<le> lo \<and> lo \<le> hi \<and> hi \<le> snd (bs_source (sm_blocks m ! i))"
proof -
  let ?b = "sm_blocks m ! i"
  have i: "i < length (sm_blocks m)"
    using assms(1,2) by (simp add: wf_map_def)
  have ok: "runs_ok src (fst (bs_source ?b)) (snd (bs_source ?b)) 0 (bs_rendered_len ?b) (bs_runs ?b)"
    using assms(4) by (simp add: leaf_ok_def)
  have runs: "resolve_offset m src p off = resolve_runs src ?b (bs_runs ?b) None off"
    if "off \<le> bs_rendered_len ?b" for off
    using that assms(2,3) resolve_at_unfold [OF assms(1) i, of src off] by (simp add: resolve_offset_def Let_def)
  have total: "\<exists>r. resolve_runs src ?b (bs_runs ?b) None off = Some r
      \<and> res_within (fst (bs_source ?b)) (snd (bs_source ?b)) r" if "off \<le> bs_rendered_len ?b" for off
    using that runs_ok_last [OF ok] runs_ok_le [OF ok] by (intro resolve_runs_total [OF ok]) auto
  obtain ra where ra: "resolve_runs src ?b (bs_runs ?b) None a = Some ra"
      "res_within (fst (bs_source ?b)) (snd (bs_source ?b)) ra"
    using total [of a] assms(5,6) by auto
  obtain rb where rb: "resolve_runs src ?b (bs_runs ?b) None b = Some rb"
      "res_within (fst (bs_source ?b)) (snd (bs_source ?b)) rb"
    using total [of b] assms(6) by auto
  have "res_start ra \<le> res_end rb"
    using resolve_runs_forward [OF ok ra(1) rb(1)] assms(5,6) by simp
  then show ?thesis
    using ra rb runs assms(5,6) res_within_ends [OF ra(2)] res_within_ends [OF rb(2)]
    by (simp add: splice_resolve_range_def)
qed

lemma selection_in_leaf_resolves_witness:
  "\<exists>lo hi. splice_resolve_range demo_note (pn_spans (parse_note demo_pulldown demo_note []))
      \<lparr>rr_start_path = [0], rr_start_offset = 0, rr_end_path = [0], rr_end_offset = 2\<rparr> = Inr (lo, hi)
    \<and> 0 \<le> lo \<and> lo \<le> hi \<and> hi \<le> 5"
proof -
  have w: "wf_map (pn_spans (parse_note demo_pulldown demo_note []))"
  proof -
    have "list_all event_ok (demo_pulldown True demo_note)" "well_nested [] (demo_pulldown True demo_note)"
      by code_simp+
    then show ?thesis
      unfolding parse_note_def by (rule parse_events_inv(1))
  qed
  have p: "sm_by_path (pn_spans (parse_note demo_pulldown demo_note [])) [0] = Some 0" by code_simp
  have c: "bs_children (sm_blocks (pn_spans (parse_note demo_pulldown demo_note [])) ! 0) = []" by code_simp
  have l: "leaf_ok demo_note (sm_blocks (pn_spans (parse_note demo_pulldown demo_note [])) ! 0)" by code_simp
  have r: "bs_rendered_len (sm_blocks (pn_spans (parse_note demo_pulldown demo_note [])) ! 0) = 2
    \<and> bs_source (sm_blocks (pn_spans (parse_note demo_pulldown demo_note [])) ! 0) = (0, 5)" by code_simp
  show ?thesis
    using selection_in_leaf_resolves [OF w p c l, of 0 2] r by simp
qed

end
