(* ===== verification/Link_Rewrite.thy ===== *)
theory Link_Rewrite
  imports Md_Splice "HOL-Library.Multiset"
begin

section \<open>Rewriting link destinations\<close>

text \<open>
  \<^verbatim>\<open>workspace/links_rewrite.rs\<close>: when a note moves, the links that name it are rewritten in place. The
  Markdown library finds the links (its event stream is the argument \<open>events\<close>), the code finds the
  destination of each in the bytes, and the replacements are spliced from the last to the first. Byte
  positions are naturals below the length of the source, as the library's ranges are.
\<close>

type_synonym remap = "(string \<times> string) list"

datatype replacement = ReplNote string | BundlePath string

definition destination_text :: "replacement \<Rightarrow> string" where
  "destination_text r =
     (case r of
        ReplNote concept_id \<Rightarrow> serialize_destination (SLASH # concept_id @ md_ext)
      | BundlePath path \<Rightarrow> serialize_destination (SLASH # path))"

datatype scan = LinksOnly | LinksAndImages

record matched_link =
  ml_span :: range
  ml_text_end :: nat
  ml_new_target :: replacement

record open_link_entry =
  ol_link :: matched_link
  ol_matches :: bool

subsection \<open>Finding the links\<close>

definition fold_inner :: "open_link_entry list \<Rightarrow> range \<Rightarrow> open_link_entry list" where
  "fold_inner opened r =
     (case opened of
        [] \<Rightarrow> []
      | innermost # below \<Rightarrow>
          if fst (ml_span (ol_link innermost)) \<le> fst r \<and> snd r \<le> snd (ml_span (ol_link innermost))
          then innermost\<lparr>ol_link := (ol_link innermost)\<lparr>ml_text_end := max (ml_text_end (ol_link innermost)) (snd r)\<rparr>\<rparr> # below
          else opened)"

definition opened_dest :: "scan \<Rightarrow> md_event \<Rightarrow> string option" where
  "opened_dest sc event =
     (case event of
        EvStart (TLink dest_url) \<Rightarrow> Some dest_url
      | EvStart (TImage dest_url) \<Rightarrow> if sc = LinksAndImages then Some dest_url else None
      | _ \<Rightarrow> None)"

definition closes_link :: "scan \<Rightarrow> md_event \<Rightarrow> bool" where
  "closes_link sc event \<longleftrightarrow> event = EvEnd ELink \<or> (sc = LinksAndImages \<and> event = EvEnd EImage)"

fun matching_loop ::
    "scan \<Rightarrow> (string \<Rightarrow> replacement option) \<Rightarrow> matched_link list \<Rightarrow> open_link_entry list
     \<Rightarrow> (md_event \<times> range) list \<Rightarrow> matched_link list" where
  "matching_loop sc select matched opened [] = matched"
| "matching_loop sc select matched opened ((event, r) # events) =
     (case opened_dest sc event of
        Some dest_url \<Rightarrow>
          (let new_target = select dest_url in
           matching_loop sc select matched
             (\<lparr>ol_link = \<lparr>ml_span = r, ml_text_end = fst r + 1,
                         ml_new_target = (case new_target of None \<Rightarrow> ReplNote [] | Some t \<Rightarrow> t)\<rparr>,
               ol_matches = (new_target \<noteq> None)\<rparr> # opened) events)
      | None \<Rightarrow>
          if closes_link sc event then
            (case opened of
               [] \<Rightarrow> matching_loop sc select matched opened events
             | closed # below \<Rightarrow>
                 matching_loop sc select
                   (if ol_matches closed then matched @ [ol_link closed] else matched)
                   (fold_inner below (ml_span (ol_link closed))) events)
          else matching_loop sc select matched (fold_inner opened r) events)"

definition matching_links ::
    "scan \<Rightarrow> (string \<Rightarrow> replacement option) \<Rightarrow> (md_event \<times> range) list \<Rightarrow> matched_link list" where
  "matching_links sc select events = matching_loop sc select [] [] events"

subsection \<open>Finding a destination\<close>

definition is_escaped :: "string \<Rightarrow> nat \<Rightarrow> bool" where
  "is_escaped bytes index =
     odd (length (takeWhile ((=) BSLASH) (rev (take index bytes))))"

text \<open>The loops over byte positions, each bounded by a limit.\<close>

function skip_whitespace :: "string \<Rightarrow> nat \<Rightarrow> nat \<Rightarrow> nat" where
  "skip_whitespace bytes limit start =
     (if start < limit \<and> is_ascii_whitespace (bytes ! start) then skip_whitespace bytes limit (Suc start)
      else start)"
  by pat_completeness auto
termination by (relation "measure (\<lambda>(bytes, limit, start). limit - start)") auto

function angle_end :: "string \<Rightarrow> nat \<Rightarrow> nat \<Rightarrow> nat option" where
  "angle_end bytes limit k =
     (if k < limit then
        (if bytes ! k = BSLASH then angle_end bytes limit (k + 2)
         else if bytes ! k = CHR ''>'' then Some (k + 1)
         else angle_end bytes limit (k + 1))
      else None)"
  by pat_completeness auto
termination by (relation "measure (\<lambda>(bytes, limit, k). limit - k)") auto

function bare_end :: "string \<Rightarrow> nat \<Rightarrow> nat \<Rightarrow> nat \<Rightarrow> nat" where
  "bare_end bytes limit k depth =
     (if k < limit then
        (if bytes ! k = BSLASH then bare_end bytes limit (k + 2) depth
         else if bytes ! k = CHR ''('' then bare_end bytes limit (k + 1) (depth + 1)
         else if bytes ! k = CHR '')'' then (if depth = 0 then k else bare_end bytes limit (k + 1) (depth - 1))
         else if is_ascii_whitespace (bytes ! k) then k
         else bare_end bytes limit (k + 1) depth)
      else k)"
  by pat_completeness auto
termination by (relation "measure (\<lambda>(bytes, limit, k, depth). limit - k)") auto

definition parse_destination :: "string \<Rightarrow> nat \<Rightarrow> nat \<Rightarrow> range option" where
  "parse_destination bytes from_i limit =
     (let start = skip_whitespace bytes limit from_i in
      if limit \<le> start then None
      else if bytes ! start = CHR ''<''
      then map_option (Pair start) (angle_end bytes limit (start + 1))
      else (let k = bare_end bytes limit start 0 in if start < k then Some (start, k) else None))"

function find_bracket :: "string \<Rightarrow> nat \<Rightarrow> nat \<Rightarrow> range option" where
  "find_bracket bytes limit i =
     (if i < limit \<and> i < length bytes then
        (if bytes ! i = CHR '']'' \<and> \<not> is_escaped bytes i then
           (if i + 1 < length bytes \<and> bytes ! (i + 1) = CHR ''(''
            then parse_destination bytes (i + 2) limit else None)
         else find_bracket bytes limit (i + 1))
      else None)"
  by pat_completeness auto
termination by (relation "measure (\<lambda>(bytes, limit, i). limit - i)") auto

definition destination_span :: "string \<Rightarrow> range \<Rightarrow> nat \<Rightarrow> range option" where
  "destination_span src span text_end = find_bracket src (snd span) (max text_end (fst span + 1))"

declare skip_whitespace.simps [simp del] angle_end.simps [simp del] bare_end.simps [simp del]
  find_bracket.simps [simp del]

subsection \<open>The splice\<close>

fun collect_rewrites :: "string \<Rightarrow> matched_link list \<Rightarrow> (range \<times> string) list result" where
  "collect_rewrites src [] = Inr []"
| "collect_rewrites src (link # links) =
     (case destination_span src (ml_span link) (ml_text_end link) of
        None \<Rightarrow> Inl (ParseError ''destination is not written inline'')
      | Some destination \<Rightarrow>
          and_then (collect_rewrites src links)
            (\<lambda>rest. Inr ((destination, destination_text (ml_new_target link)) # rest)))"

fun apply_rewrites :: "string \<Rightarrow> (range \<times> string) list \<Rightarrow> string result" where
  "apply_rewrites out [] = Inr out"
| "apply_rewrites out ((span, replacement) # rewrites) =
     (if length out < snd span \<or> \<not> is_char_boundary out (fst span) \<or> \<not> is_char_boundary out (snd span)
      then Inl (ParseError ''link destination span is not addressable'')
      else apply_rewrites (take (fst span) out @ replacement @ drop (snd span) out) rewrites)"

definition rewrite_destinations ::
    "string \<Rightarrow> scan \<Rightarrow> (string \<Rightarrow> replacement option) \<Rightarrow> (md_event \<times> range) list \<Rightarrow> string option result" where
  "rewrite_destinations src sc select events =
     and_then (collect_rewrites src (matching_links sc select events)) (\<lambda>rewrites.
       if rewrites = [] then Inr None
       else and_then (apply_rewrites src (sort_key (\<lambda>(span, _). - int (fst span)) rewrites))
              (\<lambda>out. Inr (Some out)))"

definition select_remapped :: "string \<Rightarrow> remap \<Rightarrow> string \<Rightarrow> replacement option" where
  "select_remapped containing_dir rmap dest =
     (case classify dest containing_dir of
        Internal i \<Rightarrow> map_option ReplNote (map_of rmap i)
      | External _ \<Rightarrow> None)"

definition rewrite_link_targets ::
    "pulldown \<Rightarrow> string \<Rightarrow> string \<Rightarrow> remap \<Rightarrow> string option result" where
  "rewrite_link_targets pulldown src containing_dir rmap =
     (if rmap = [] then Inr None
      else rewrite_destinations src LinksOnly (select_remapped containing_dir rmap) (pulldown True src))"

definition select_relative :: "string \<Rightarrow> string \<Rightarrow> replacement option" where
  "select_relative containing_dir dest =
     (if prefix [SLASH] dest then None
      else (case classify dest containing_dir of
              Internal i \<Rightarrow> Some (ReplNote i)
            | External _ \<Rightarrow> map_option BundlePath (resolve_bundle_path dest containing_dir)))"

definition absolutize_relative_links :: "pulldown \<Rightarrow> string \<Rightarrow> string \<Rightarrow> string option result" where
  "absolutize_relative_links pulldown src containing_dir =
     rewrite_destinations src LinksAndImages (select_relative containing_dir) (pulldown True src)"

section \<open>Facts on rewriting\<close>

subsection \<open>The last-to-first splice is the left-to-right substitution\<close>

text \<open>The reference: walk the source once, copying the text between the spans, in ascending order from offset \<open>i\<close>.\<close>

fun substitute :: "string \<Rightarrow> nat \<Rightarrow> (range \<times> string) list \<Rightarrow> string" where
  "substitute src i [] = drop i src"
| "substitute src i ((span, t) # rest) = slice src (i, fst span) @ t @ substitute src (snd span) rest"

fun ascending :: "nat \<Rightarrow> nat \<Rightarrow> (range \<times> string) list \<Rightarrow> bool" where
  "ascending i n [] = (i \<le> n)"
| "ascending i n ((span, t) # rest) = (i \<le> fst span \<and> fst span < snd span \<and> ascending (snd span) n rest)"

lemma ascending_le: "ascending i n rs \<Longrightarrow> i \<le> n"
  by (induction rs arbitrary: i) fastforce+

lemma ascending_snoc:
  "ascending i n (rs @ [(span, t)]) \<longleftrightarrow> ascending i (fst span) rs \<and> fst span < snd span \<and> snd span \<le> n"
  by (induction rs arbitrary: i) auto

lemma ascending_mono: "ascending i n rs \<Longrightarrow> n \<le> m \<Longrightarrow> ascending i m rs"
  by (induction rs arbitrary: i) auto

lemma ascending_bounds:
  "ascending i n rs \<Longrightarrow> x \<in> set rs \<Longrightarrow>
   i \<le> fst (fst x) \<and> fst (fst x) < snd (fst x) \<and> snd (fst x) \<le> n"
proof (induction rs arbitrary: i)
  case (Cons r rs)
  obtain b e t where r: "r = ((b, e), t)" by (metis prod.collapse)
  show ?case
    using Cons ascending_le [of e n rs] by (fastforce simp: r)
qed simp

lemma substitute_snoc:
  assumes "ascending i (length src) (rs @ [(span, t)])"
  shows "substitute src i (rs @ [(span, t)]) = substitute (overwrite src span t) i rs"
  using assms
proof (induction rs arbitrary: i)
  case Nil
  then show ?case by (auto simp: slice_def overwrite_def drop_take min_def)
next
  case (Cons r rs)
  obtain b e u where r: "r = ((b, e), u)" by (metis prod.collapse)
  have "e \<le> fst span" "fst span \<le> length src"
    using Cons.prems ascending_le by (auto simp: r ascending_snoc)
  then have "slice (overwrite src span t) (i, b) = slice src (i, b)"
    using Cons.prems by (auto simp: r slice_def overwrite_def drop_take ascending_snoc)
  then show ?case using Cons by (simp add: r)
qed

lemma overwrite_boundary:
  assumes "valid_utf8 src" "valid_utf8 t" "is_char_boundary src (fst span)" "is_char_boundary src (snd span)"
    and "is_char_boundary src i" and "i \<le> fst span"
  shows "is_char_boundary (overwrite src span t) i"
proof (cases "i = fst span")
  case True
  have "starts_char (t @ drop (snd span) src)"
    using assms by (intro starts_char_append valid_utf8_starts_char boundary_starts_char)
  then show ?thesis
    using is_char_boundary_le [OF assms(3)] unfolding True overwrite_def
    by (intro starts_char_boundary) simp_all
next
  case False
  then show ?thesis
    using assms(5,6) is_char_boundary_le [OF assms(3)]
    by (auto simp: is_char_boundary_def overwrite_def nth_append split: if_splits)
qed

definition on_boundaries :: "string \<Rightarrow> (range \<times> string) list \<Rightarrow> bool" where
  "on_boundaries src rs \<longleftrightarrow>
     list_all (\<lambda>(span, t). is_char_boundary src (fst span) \<and> is_char_boundary src (snd span) \<and> valid_utf8 t) rs"

lemma apply_rewrites_substitute:
  assumes "valid_utf8 src" and "ascending 0 (length src) rs" and "on_boundaries src rs"
  shows "apply_rewrites src (rev rs) = Inr (substitute src 0 rs)"
  using assms
proof (induction rs arbitrary: src rule: rev_induct)
  case (snoc r rs)
  obtain span t where r: "r = (span, t)" by fastforce
  have asc: "ascending 0 (fst span) rs" "fst span < snd span" "snd span \<le> length src"
    using snoc.prems(2) by (simp_all add: r ascending_snoc)
  have b: "is_char_boundary src (fst span)" "is_char_boundary src (snd span)" "valid_utf8 t"
    using snoc.prems(3) by (simp_all add: r on_boundaries_def)
  let ?out = "overwrite src span t"
  have v: "valid_utf8 ?out"
    using splice_source_valid [OF snoc.prems(1) b(3), of span ?out] b(1,2) asc
    by (simp add: splice_source_Inr_iff)
  have len: "fst span \<le> length ?out"
    using is_char_boundary_le [OF b(1)] by (simp add: overwrite_def)
  have "ascending 0 (length ?out) rs"
    using asc(1) len by (rule ascending_mono)
  moreover have "on_boundaries ?out rs"
    using snoc.prems(3) asc(1) ascending_bounds overwrite_boundary [OF snoc.prems(1) b(3,1,2)]
    unfolding on_boundaries_def list_all_iff by fastforce
  ultimately have "apply_rewrites ?out (rev rs) = Inr (substitute ?out 0 rs)"
    using snoc.IH [OF v] by blast
  then show ?case
    using b asc substitute_snoc [of 0 src rs span t] snoc.prems(2) by (simp add: r overwrite_def)
qed simp

lemma ascending_starts_inj:
  "ascending i n rs \<Longrightarrow> inj_on (\<lambda>(span, _). - int (fst span)) (set rs)"
proof (induction rs arbitrary: i)
  case (Cons r rs)
  obtain b e t where r: "r = ((b, e), t)" by (metis prod.collapse)
  have "\<forall>x\<in>set rs. e \<le> fst (fst x)"
    using Cons.prems ascending_bounds [of e n rs] by (auto simp: r)
  then show ?case
    using Cons by (fastforce simp: r inj_on_def)
qed simp

lemma ascending_sorted_rev:
  "ascending i n rs \<Longrightarrow> sorted (map (\<lambda>(span, _). - int (fst span)) (rev rs))"
proof (induction rs arbitrary: i)
  case (Cons r rs)
  obtain b e t where r: "r = ((b, e), t)" by (metis prod.collapse)
  have "\<forall>x\<in>set rs. e \<le> fst (fst x)"
    using Cons.prems ascending_bounds [of e n rs] by (auto simp: r)
  then show ?case
    using Cons by (fastforce simp: r sorted_append)
qed simp

lemma sort_descending:
  assumes "ascending i n (sort_key (\<lambda>(span, _). fst span) rs)"
  shows "sort_key (\<lambda>(span, _). - int (fst span)) rs = rev (sort_key (\<lambda>(span, _). fst span) rs)"
proof (rule sort_key_inj_key_eq)
  show "mset rs = mset (rev (sort_key (\<lambda>(span, _). fst span) rs))" by simp
  show "inj_on (\<lambda>(span, _). - int (fst span)) (set rs)"
    using ascending_starts_inj [OF assms] by simp
  show "sorted (map (\<lambda>(span, _). - int (fst span)) (rev (sort_key (\<lambda>(span, _). fst span) rs)))"
    using assms by (rule ascending_sorted_rev)
qed


subsection \<open>The destination of a link burlmd wrote\<close>

definition trailing_backslashes :: "string \<Rightarrow> nat" where
  "trailing_backslashes s = length (takeWhile ((=) BSLASH) (rev s))"

lemma is_escaped_trailing: "is_escaped bytes i = odd (trailing_backslashes (take i bytes))"
  by (simp add: is_escaped_def trailing_backslashes_def)

lemma trailing_snoc [simp]:
  "trailing_backslashes (s @ [c]) = (if c = BSLASH then Suc (trailing_backslashes s) else 0)"
  "trailing_backslashes [] = 0"
  by (auto simp: trailing_backslashes_def)

lemma trailing_after:
  "c \<noteq> BSLASH \<Longrightarrow> trailing_backslashes (pre @ c # s) = trailing_backslashes s"
  by (simp add: trailing_backslashes_def takeWhile_tail)

lemma escape_set_snoc:
  "escape_set special (t @ [c]) = escape_set special t @ (if c \<in> special then [BSLASH, c] else [c])"
  by (simp add: escape_set_def)

lemma escape_set_even:
  "BSLASH \<in> special \<Longrightarrow> even (trailing_backslashes (escape_set special t))"
proof (induction t rule: rev_induct)
  case (snoc c t)
  then show ?case
    using trailing_snoc(1) [of "escape_set special t @ [BSLASH]" c] trailing_snoc(1) [of "escape_set special t" c]
    by (auto simp: escape_set_snoc)
qed simp

lemma escape_set_odd:
  assumes "BSLASH \<in> special" and "k < length (escape_set special t)"
    and "escape_set special t ! k \<in> special" and "escape_set special t ! k \<noteq> BSLASH"
  shows "odd (trailing_backslashes (take k (escape_set special t)))"
  using assms(2-)
proof (induction t rule: rev_induct)
  case (snoc c t)
  let ?e = "escape_set special t"
  show ?case
  proof (cases "k < length ?e")
    case True
    then show ?thesis using snoc by (simp add: escape_set_snoc nth_append)
  next
    case False
    then have "c \<in> special" "k = Suc (length ?e)"
      using snoc.prems by (auto simp: escape_set_snoc nth_append nth_Cons split: if_splits nat.splits)
    then show ?thesis
      using escape_set_even [OF assms(1), of t] by (simp add: escape_set_snoc)
  qed
qed simp

lemma angle_end_escape_set:
  assumes "BSLASH \<in> special" and "CHR ''>'' \<in> special"
    and "bytes = A @ escape_set special t @ CHR ''>'' # rest"
    and "length A + length (escape_set special t) < limit"
  shows "angle_end bytes limit (length A) = Some (length A + length (escape_set special t) + 1)"
  using assms(3,4)
proof (induction t arbitrary: A)
  case Nil
  then show ?case by (simp add: angle_end.simps [of _ limit "length A"])
next
  case (Cons c t)
  show ?case
  proof (cases "c \<in> special")
    case True
    then have "bytes = (A @ [BSLASH, c]) @ escape_set special t @ CHR ''>'' # rest"
      using Cons.prems(1) by (simp add: escape_set_Cons)
    moreover have "length (A @ [BSLASH, c]) + length (escape_set special t) < limit"
      using True Cons.prems(2) by (simp add: escape_set_Cons)
    ultimately have "angle_end bytes limit (length (A @ [BSLASH, c]))
        = Some (length (A @ [BSLASH, c]) + length (escape_set special t) + 1)"
      by (rule Cons.IH)
    moreover have "bytes ! length A = BSLASH"
      using True Cons.prems(1) by (simp add: escape_set_Cons)
    ultimately show ?thesis
      using True Cons.prems(2) by (simp add: angle_end.simps [of bytes limit "length A"] escape_set_Cons)
  next
    case False
    then have "bytes = (A @ [c]) @ escape_set special t @ CHR ''>'' # rest"
      using Cons.prems(1) by (simp add: escape_set_Cons)
    moreover have "length (A @ [c]) + length (escape_set special t) < limit"
      using False Cons.prems(2) by (simp add: escape_set_Cons)
    ultimately have "angle_end bytes limit (length (A @ [c]))
        = Some (length (A @ [c]) + length (escape_set special t) + 1)"
      by (rule Cons.IH)
    moreover have "bytes ! length A = c" "c \<noteq> BSLASH" "c \<noteq> CHR ''>''"
      using False Cons.prems(1) assms(1,2) by (auto simp: escape_set_Cons)
    ultimately show ?thesis
      using False Cons.prems(2) by (simp add: angle_end.simps [of bytes limit "length A"] escape_set_Cons)
  qed
qed

lemma parse_destination_serialized:
  assumes "bytes = A @ serialize_destination p @ rest"
    and "length A + length (serialize_destination p) \<le> limit"
  shows "parse_destination bytes (length A) limit
    = Some (length A, length A + length (serialize_destination p))"
proof -
  let ?sp = "{BSLASH, CHR ''<'', CHR ''>'', CHR ''&''}"
  have n: "bytes ! length A = CHR ''<''"
    unfolding assms(1) by (simp add: serialize_destination_def)
  then have "skip_whitespace bytes limit (length A) = length A"
    by (simp add: skip_whitespace.simps is_ascii_whitespace_def byte_def)
  moreover have "angle_end bytes limit (length (A @ ''<''))
      = Some (length (A @ ''<'') + length (escape_set ?sp p) + 1)"
    using assms by (intro angle_end_escape_set) (auto simp: serialize_destination_def escape_destination_def)
  ultimately show ?thesis
    using n assms(2) by (simp add: parse_destination_def Let_def serialize_destination_def escape_destination_def)
qed

lemma find_bracket_serialized:
  assumes "bytes = pre @ CHR ''['' # escape_link_text text @ CHR '']'' # CHR ''('' # rest"
    and "length pre + 1 + length (escape_link_text text) < limit"
    and "length pre + 1 \<le> i" and "i \<le> length pre + 1 + length (escape_link_text text)"
  shows "find_bracket bytes limit i
    = parse_destination bytes (length pre + 3 + length (escape_link_text text)) limit"
  using assms(3,4)
proof (induction "length pre + 1 + length (escape_link_text text) - i" arbitrary: i)
  case 0
  let ?E = "escape_link_text text"
  have i: "i = length (pre @ CHR ''['' # ?E)" using 0 by simp
  have "take i bytes = pre @ CHR ''['' # ?E"
    unfolding i assms(1) by simp
  then have "\<not> is_escaped bytes i"
    using escape_set_even trailing_after [of "CHR ''[''" pre ?E]
    by (simp add: is_escaped_trailing escape_link_text_def)
  moreover have "bytes ! i = CHR '']''" "bytes ! (i + 1) = CHR ''(''" "i + 1 < length bytes"
    unfolding i assms(1) by (simp_all add: nth_append)
  ultimately show ?case
    using assms(2) i by (simp add: find_bracket.simps [of bytes limit "Suc (length pre + length ?E)"] eval_nat_numeral)
next
  case (Suc d)
  let ?E = "escape_link_text text"
  obtain k where k: "k < length ?E" "i = length pre + 1 + k"
    using Suc.hyps(2) Suc.prems by (intro that [of "i - (length pre + 1)"]) auto
  have bytes: "bytes = (pre @ ''['') @ ?E @ CHR '']'' # CHR ''('' # rest"
    using assms(1) by simp
  have b: "bytes ! i = ?E ! k"
    using k(1) nth_append_length_plus [of "pre @ ''[''" "?E @ CHR '']'' # CHR ''('' # rest" k]
    unfolding bytes k(2) by (simp add: nth_append)
  have t: "take i bytes = pre @ CHR ''['' # take k ?E"
    unfolding bytes k(2) using k(1) by simp
  have "is_escaped bytes i" if "bytes ! i = CHR '']''"
    using that b k(1) t trailing_after [of "CHR ''[''" pre "take k ?E"]
      escape_set_odd [of "{BSLASH, CHR ''['', CHR '']'', CHR ''<'', CHR ''>'', CHR ''&''}" k "text"]
    by (simp add: is_escaped_trailing escape_link_text_def)
  moreover have "i < length bytes" "i < limit"
    using k assms(1,2) by auto
  moreover have "find_bracket bytes limit (Suc i)
      = parse_destination bytes (length pre + 3 + length ?E) limit"
    using Suc.hyps(2) Suc.prems by (intro Suc.hyps(1)) auto
  ultimately show ?case
    by (auto simp: find_bracket.simps [of bytes limit i])
qed

text \<open>The byte at which the closing bracket of a serialized link's text stands, from the link's start.\<close>

definition text_close :: "string \<Rightarrow> nat" where
  "text_close text = 1 + length (escape_link_text text)"

lemma destination_span_serialized:
  assumes "text_end \<le> length pre + text_close text"
  shows "destination_span (pre @ serialize_link text i @ post)
      (length pre, length pre + length (serialize_link text i)) text_end
    = Some (length pre + text_close text + 2,
            length pre + text_close text + 2 + length (serialize_destination (SLASH # i @ md_ext)))"
proof -
  let ?src = "pre @ serialize_link text i @ post"
  let ?D = "serialize_destination (SLASH # i @ md_ext)"
  let ?limit = "length pre + length (serialize_link text i)"
  have "find_bracket ?src ?limit (max text_end (length pre + 1))
      = parse_destination ?src (length pre + 3 + length (escape_link_text text)) ?limit"
    using assms by (intro find_bracket_serialized) (auto simp: serialize_link_def text_close_def)
  also have "\<dots> = parse_destination ?src (length (pre @ ''['' @ escape_link_text text @ '']('')) ?limit"
    by (simp add: eval_nat_numeral)
  also have "\<dots> = Some (length (pre @ ''['' @ escape_link_text text @ ''](''),
      length (pre @ ''['' @ escape_link_text text @ '']('') + length ?D)"
    by (rule parse_destination_serialized [where rest = "'')'' @ post"]) (simp_all add: serialize_link_def)
  finally show ?thesis
    by (simp add: destination_span_def text_close_def)
qed


lemma overwrite_append: "overwrite (p @ d @ r) (length p, length p + length d) t = p @ t @ r"
  by (simp add: overwrite_def)

lemma matching_inner:
  assumes "list_all (\<lambda>(e, r). opened_dest sc e = None \<and> \<not> closes_link sc e \<and> snd r \<le> close) inner"
    and "ml_text_end (ol_link ent) \<le> close"
  shows "\<exists>te. te \<le> close \<and>
    matching_loop sc select matched [ent] (inner @ events)
      = matching_loop sc select matched [ent\<lparr>ol_link := (ol_link ent)\<lparr>ml_text_end := te\<rparr>\<rparr>] events"
  using assms
proof (induction inner arbitrary: ent)
  case Nil
  have "ent\<lparr>ol_link := (ol_link ent)\<lparr>ml_text_end := ml_text_end (ol_link ent)\<rparr>\<rparr> = ent" by simp
  then show ?case using Nil.prems(2) by (metis append_Nil)
next
  case (Cons er inner)
  obtain e r where er: "er = (e, r)" by (cases er)
  have h: "opened_dest sc e = None" "\<not> closes_link sc e" "snd r \<le> close"
    using Cons.prems(1) by (simp_all add: er)
  obtain ent' te' where e': "fold_inner [ent] r = [ent']" "ent' = ent\<lparr>ol_link := (ol_link ent)\<lparr>ml_text_end := te'\<rparr>\<rparr>"
      "te' \<le> close"
  proof (cases "fst (ml_span (ol_link ent)) \<le> fst r \<and> snd r \<le> snd (ml_span (ol_link ent))")
    case True
    then show ?thesis
      using h(3) Cons.prems(2)
      by (intro that [of _ "max (ml_text_end (ol_link ent)) (snd r)"]) (auto simp: fold_inner_def)
  next
    case False
    then show ?thesis
      using Cons.prems(2) by (intro that [of ent "ml_text_end (ol_link ent)"]) (auto simp: fold_inner_def)
  qed
  then show ?case
    using Cons.IH [of ent'] Cons.prems(1) h by (auto simp: er)
qed

section \<open>Properties of link rewriting\<close>

text \<open>C32: Rewriting is surgical. When the destinations found are disjoint pieces of the note's text, the
  last-to-first splices compute the left-to-right substitution: every byte outside the destinations is
  kept, in order, and each destination is replaced by its new text.\<close>

theorem rewrite_destinations_substitutes:
  assumes "valid_utf8 src"
    and "collect_rewrites src (matching_links sc select events) = Inr rewrites" and "rewrites \<noteq> []"
    and "ascending 0 (length src) (sort_key (\<lambda>(span, _). fst span) rewrites)"
    and "on_boundaries src rewrites"
  shows "rewrite_destinations src sc select events
    = Inr (Some (substitute src 0 (sort_key (\<lambda>(span, _). fst span) rewrites)))"
proof -
  let ?rs = "sort_key (\<lambda>(span, _). fst span) rewrites"
  have "on_boundaries src ?rs"
    using assms(5) by (simp add: on_boundaries_def list_all_iff)
  then have "apply_rewrites src (rev ?rs) = Inr (substitute src 0 ?rs)"
    using assms(1,4) by (intro apply_rewrites_substitute)
  then show ?thesis
    using assms(2,3) sort_descending [OF assms(4)] by (simp add: rewrite_destinations_def)
qed

definition two_links :: string where
  "two_links = ''[a](/x.md) [b](/y.md)''"

definition two_link_events :: "(md_event \<times> range) list" where
  "two_link_events =
     [(EvStart TParagraph, (0, 21)),
      (EvStart (TLink ''/x.md''), (0, 10)), (EvText ''a'', (1, 2)), (EvEnd ELink, (0, 10)), (EvText '' '', (10, 11)),
      (EvStart (TLink ''/y.md''), (11, 21)), (EvText ''b'', (12, 13)), (EvEnd ELink, (11, 21)),
      (EvEnd EParagraph, (0, 21))]"

lemma rewrite_destinations_substitutes_witness:
  "rewrite_destinations two_links LinksOnly (select_remapped [] [(''x'', ''new x''), (''y'', ''z'')]) two_link_events
   = Inr (Some ''[a](</new x.md>) [b](</z.md>)'')"
proof -
  let ?sel = "select_remapped [] [(''x'', ''new x''), (''y'', ''z'')]"
  let ?rs = "[((4, 9), ''</new x.md>''), ((15, 20), ''</z.md>'')]"
  have v: "valid_utf8 two_links" by code_simp
  have c: "collect_rewrites two_links (matching_links LinksOnly ?sel two_link_events) = Inr ?rs" by code_simp
  have a: "ascending 0 (length two_links) (sort_key (\<lambda>(span, _). fst span) ?rs)" by code_simp
  have b: "on_boundaries two_links ?rs" by code_simp
  have r: "substitute two_links 0 (sort_key (\<lambda>(span, _). fst span) ?rs) = ''[a](</new x.md>) [b](</z.md>)''"
    by code_simp
  show ?thesis
    using rewrite_destinations_substitutes [OF v c _ a b] r by simp
qed



lemma collect_rewrites_Inl:
  "(\<exists>link\<in>set links. destination_span src (ml_span link) (ml_text_end link) = None)
   \<longleftrightarrow> (\<exists>e. collect_rewrites src links = Inl e)"
proof (induction links)
  case (Cons link links)
  then show ?case
    by (cases "collect_rewrites src links") (auto split: option.split)
qed simp

lemma collect_rewrites_Nil: "collect_rewrites src links = Inr [] \<longleftrightarrow> links = []"
  by (cases links) (auto simp: and_then_Inr_iff split: option.splits)

text \<open>A rewrite is all or nothing. It answers None exactly when no link is selected, and when a selected link's
  destination is not written inline it is an error; nothing is rewritten around it.\<close>

theorem rewrite_destinations_all_or_nothing:
  "(rewrite_destinations src sc select events = Inr None \<longleftrightarrow> matching_links sc select events = [])
   \<and> ((\<exists>link\<in>set (matching_links sc select events). destination_span src (ml_span link) (ml_text_end link) = None)
      \<longrightarrow> (\<exists>e. rewrite_destinations src sc select events = Inl e))"
proof -
  let ?c = "collect_rewrites src (matching_links sc select events)"
  have n: "?c = Inr [] \<longleftrightarrow> matching_links sc select events = []"
    by (rule collect_rewrites_Nil)
  show ?thesis
  proof (cases ?c)
    case (Inl e)
    then show ?thesis
      using n by (auto simp: rewrite_destinations_def)
  next
    case (Inr rs)
    then have "\<not> (\<exists>link\<in>set (matching_links sc select events). destination_span src (ml_span link) (ml_text_end link) = None)"
      using collect_rewrites_Inl [of "matching_links sc select events" src] by simp
    then show ?thesis
      using n Inr by (auto simp: rewrite_destinations_def and_then_Inr_iff split: if_splits)
  qed
qed

lemma rewrite_destinations_all_or_nothing_witness:
  "\<exists>e. rewrite_destinations ''[a][r]'' LinksOnly (\<lambda>_. Some (ReplNote ''n''))
     [(EvStart (TLink ''/x.md''), (0, 6)), (EvText ''a'', (1, 2)), (EvEnd ELink, (0, 6))] = Inl e"
proof -
  let ?m = "matching_links LinksOnly (\<lambda>_. Some (ReplNote ''n''))
     [(EvStart (TLink ''/x.md''), (0, 6)), (EvText ''a'', (1, 2)), (EvEnd ELink, (0, 6))]"
  have "?m = [\<lparr>ml_span = (0, 6), ml_text_end = 2, ml_new_target = ReplNote ''n''\<rparr>]" by code_simp
  moreover have "destination_span ''[a][r]'' (0, 6) 2 = None" by code_simp
  ultimately have "\<exists>link\<in>set ?m. destination_span ''[a][r]'' (ml_span link) (ml_text_end link) = None"
    by simp
  then show ?thesis
    using rewrite_destinations_all_or_nothing by blast
qed

end
