(* ===== verification/Identity.thy ===== *)
theory Identity
  imports Md_Parser
begin

section \<open>Names, titles and identities\<close>

text \<open>
  The rules that decide which names the application accepts and how an identity is spelled
  (\<^verbatim>\<open>workspace/lifecycle.rs\<close>, with \<^verbatim>\<open>note_path\<close> and \<^verbatim>\<open>ensure_directory_contained\<close> of \<^verbatim>\<open>workspace/persist.rs\<close>),
  and the frontmatter the application writes. The file system is the argument \<open>fs\<close>: what the entry at a
  bundle-relative path is, without following links. Whether a character outside ASCII is alphanumeric is
  the argument \<open>alnum\<close> of \<open>yaml_scalar\<close>.
\<close>

subsection \<open>Concept ids as paths\<close>

definition containing_dir :: "string \<Rightarrow> string" where
  "containing_dir concept_id = (case rsplit_once SLASH concept_id of None \<Rightarrow> [] | Some (dir, _) \<Rightarrow> dir)"

definition file_stem :: "string \<Rightarrow> string" where
  "file_stem concept_id = (case rsplit_once SLASH concept_id of None \<Rightarrow> concept_id | Some (_, name) \<Rightarrow> name)"

definition join_id :: "string \<Rightarrow> string \<Rightarrow> string" where
  "join_id directory name = (if directory = [] then name else directory @ [SLASH] @ name)"

fun ancestor_loop :: "string \<Rightarrow> string list \<Rightarrow> string list" where
  "ancestor_loop ancestor [] = []"
| "ancestor_loop ancestor (segment # segments) =
     (let ancestor = (if ancestor = [] then segment else ancestor @ [SLASH] @ segment)
      in ancestor # ancestor_loop ancestor segments)"

definition directory_ancestors :: "string \<Rightarrow> string list" where
  "directory_ancestors directory =
     ancestor_loop [] (filter (\<lambda>segment. segment \<noteq> []) (split_on SLASH directory))"

text \<open>
  \<^verbatim>\<open>Path::components\<close> on a Unix path: repeated separators and inner dots vanish, a leading separator is a root
  component, a leading dot a current-directory component, two dots a parent component. A path escapes when
  a component is not an ordinary name.
\<close>

definition path_names :: "string \<Rightarrow> string list" where
  "path_names path = filter (\<lambda>s. s \<noteq> [] \<and> s \<noteq> ''.'') (split_on SLASH path)"

definition path_escapes :: "string \<Rightarrow> bool" where
  "path_escapes path \<longleftrightarrow>
     prefix [SLASH] path \<or> hd (split_on SLASH path) = ''.'' \<or> ''..'' \<in> set (split_on SLASH path)"

subsection \<open>Validation\<close>

definition validate_segment :: "string \<Rightarrow> unit result" where
  "validate_segment segment =
     (if str_trim segment = [] then Inl (PathUnavailable ''empty'')
      else if prefix ''.'' segment then Inl (PathUnavailable ''dot-prefixed'')
      else if SLASH \<in> set segment \<or> BSLASH \<in> set segment \<or> NUL \<in> set segment
      then Inl (PathUnavailable ''character no filename can carry'')
      else if LF \<in> set segment \<or> CR \<in> set segment then Inl (PathUnavailable ''line terminator'')
      else Inr ())"

definition validate_title :: "string \<Rightarrow> unit result" where
  "validate_title title =
     and_then (validate_segment title) (\<lambda>_.
       if is_reserved_title title then Inl (PathUnavailable ''reserved'') else Inr ())"

definition normalize_directory :: "string \<Rightarrow> string result" where
  "normalize_directory path =
     (if BSLASH \<in> set path then Inl (PathUnavailable ''backslash'')
      else if NUL \<in> set path then Inl (PathUnavailable ''NUL'')
      else if LF \<in> set path \<or> CR \<in> set path then Inl (PathUnavailable ''line terminator'')
      else
        (let trimmed = trim_matches SLASH path in
         if trimmed = [] then Inr []
         else if [] \<in> set (split_on SLASH trimmed) then Inl (PathUnavailable ''empty segment'')
         else if path_escapes trimmed then Inl (PathUnavailable ''escapes'')
         else if \<exists>segment\<in>set (split_on SLASH trimmed). prefix ''.'' segment
         then Inl (PathUnavailable ''dot-prefixed'')
         else Inr trimmed))"

definition validate_persisted_directory_id :: "string \<Rightarrow> unit result" where
  "validate_persisted_directory_id path =
     (if path = [] then Inl (PathUnavailable ''empty'')
      else and_then (normalize_directory path) (\<lambda>normalized.
        if normalized \<noteq> path then Inl (PathUnavailable ''not exact'') else Inr ()))"

record link_target_identity =
  lt_target_id :: string
  lt_directory_path :: string
  lt_title :: string

definition link_target_identity :: "string \<Rightarrow> link_target_identity result" where
  "link_target_identity target_id =
     (case rsplit_once SLASH target_id of
        None \<Rightarrow>
          and_then (validate_title target_id) (\<lambda>_.
            Inr \<lparr>lt_target_id = target_id, lt_directory_path = [], lt_title = target_id\<rparr>)
      | Some (directory_path, title) \<Rightarrow>
          and_then (normalize_directory directory_path) (\<lambda>directory_path.
          and_then (validate_title title) (\<lambda>_.
            if join_id directory_path title \<noteq> target_id then Inl (PathUnavailable ''not exact'')
            else Inr \<lparr>lt_target_id = target_id, lt_directory_path = directory_path, lt_title = title\<rparr>)))"

definition prospective_link_target_identity :: "string \<Rightarrow> string \<Rightarrow> link_target_identity result" where
  "prospective_link_target_identity current_directory title =
     and_then (validate_title title) (\<lambda>_. link_target_identity (join_id current_directory title))"

subsection \<open>Containment\<close>

type_synonym entry_at = "string list \<Rightarrow> bundle_entry option"

text \<open>The walk over the components of a directory, to the first that does not exist.\<close>

fun contained_loop :: "entry_at \<Rightarrow> string list \<Rightarrow> string list \<Rightarrow> unit result" where
  "contained_loop fs expected [] = Inr ()"
| "contained_loop fs expected (component # components) =
     (let expected = expected @ [component] in
      case fs expected of
        None \<Rightarrow> Inr ()
      | Some Symlink \<Rightarrow> Inl (PathUnavailable ''symbolic link'')
      | Some _ \<Rightarrow> contained_loop fs expected components)"

definition ensure_directory_contained :: "entry_at \<Rightarrow> string list \<Rightarrow> unit result" where
  "ensure_directory_contained fs relative = contained_loop fs [] relative"

text \<open>
  The absolute path is the workspace root and these names. The last test of the source, that an existing
  file resolves below the root, cannot fail once no component is a link.
\<close>

definition note_path :: "entry_at \<Rightarrow> string \<Rightarrow> string list result" where
  "note_path fs note_id =
     (if BSLASH \<in> set note_id then Inl (PathUnavailable ''backslash'')
      else if NUL \<in> set note_id then Inl (PathUnavailable ''NUL'')
      else
        (let relative = concept_id_to_path note_id in
         if path_escapes relative then Inl (PathUnavailable ''escapes'')
         else and_then (ensure_directory_contained fs (butlast (path_names relative))) (\<lambda>_.
           if fs (path_names relative) = Some Symlink then Inl (PathUnavailable ''symbolic link'')
           else Inr (path_names relative))))"

definition validate_persisted_note_id :: "entry_at \<Rightarrow> string \<Rightarrow> unit result" where
  "validate_persisted_note_id fs note_id =
     and_then (link_target_identity note_id) (\<lambda>_. and_then (note_path fs note_id) (\<lambda>_. Inr ()))"

subsection \<open>Patterns for SQL\<close>

definition like_escape :: "string \<Rightarrow> string" where
  "like_escape value_s = escape_set {BSLASH, CHR ''%'', CHR ''_''} value_s"

text \<open>
  SQLite's documented LIKE with an escape character: a percent sign matches any sequence, an underscore
  any one character, and ASCII letters match without regard to case.
\<close>

definition ascii_lower :: "char \<Rightarrow> char" where
  "ascii_lower c = (if 65 \<le> byte c \<and> byte c \<le> 90 then char_of (byte c + 32) else c)"

fun like_match :: "string \<Rightarrow> string \<Rightarrow> bool" where
  "like_match [] s = (s = [])"
| "like_match (p # ps) s =
     (if p = BSLASH then
        (case ps of
           [] \<Rightarrow> False
         | q # qs \<Rightarrow> (case s of [] \<Rightarrow> False | c # cs \<Rightarrow> ascii_lower c = ascii_lower q \<and> like_match qs cs))
      else if p = CHR ''%'' then
        like_match ps s \<or> (case s of [] \<Rightarrow> False | c # cs \<Rightarrow> like_match (p # ps) cs)
      else
        (case s of [] \<Rightarrow> False
         | c # cs \<Rightarrow> (p = CHR ''_'' \<or> ascii_lower c = ascii_lower p) \<and> like_match ps cs))"

subsection \<open>Frontmatter the application writes\<close>

text \<open>\<^verbatim>\<open>char::is_control\<close> on the bytes of one character, and its code.\<close>

definition is_control_char :: "string \<Rightarrow> bool" where
  "is_control_char g =
     (case map byte g of
        [a] \<Rightarrow> a < 32 \<or> a = 127
      | [a, b] \<Rightarrow> a = 194 \<and> b < 160
      | _ \<Rightarrow> False)"

definition control_code :: "string \<Rightarrow> nat" where
  "control_code g = (case map byte g of [a] \<Rightarrow> a | [a, b] \<Rightarrow> b | _ \<Rightarrow> 0)"

definition hex_digit :: "nat \<Rightarrow> char" where
  "hex_digit n = (if n < 10 then char_of (48 + n) else char_of (55 + n))"

definition hex4 :: "nat \<Rightarrow> string" where
  "hex4 n = [hex_digit (n div 4096 mod 16), hex_digit (n div 256 mod 16), hex_digit (n div 16 mod 16), hex_digit (n mod 16)]"

definition plain_words :: "string list" where
  "plain_words = [''true'', ''false'', ''yes'', ''no'', ''on'', ''off'', ''null'']"

definition plain_char :: "(string \<Rightarrow> bool) \<Rightarrow> string \<Rightarrow> bool" where
  "plain_char alnum g =
     (case g of
        [c] \<Rightarrow> is_ascii_alphanumeric c \<or> c \<in> set '' _-.()'' 
      | _ \<Rightarrow> alnum g)"

definition is_plain :: "(string \<Rightarrow> bool) \<Rightarrow> string \<Rightarrow> bool" where
  "is_plain alnum v \<longleftrightarrow>
     v \<noteq> [] \<and> is_ascii_alphabetic (hd v) \<and> \<not> suffix '' '' v
     \<and> \<not> str_contains '': '' v \<and> \<not> str_contains '' #'' v
     \<and> list_all (plain_char alnum) (chars v)
     \<and> map ascii_lower v \<notin> set plain_words"

definition yaml_escape_char :: "string \<Rightarrow> string" where
  "yaml_escape_char g =
     (if g = [DQUOTE] then [BSLASH, DQUOTE]
      else if g = [BSLASH] then [BSLASH, BSLASH]
      else if g = [LF] then [BSLASH, CHR ''n'']
      else if g = [CR] then [BSLASH, CHR ''r'']
      else if g = [TAB] then [BSLASH, CHR ''t'']
      else if is_control_char g then [BSLASH, CHR ''u''] @ hex4 (control_code g)
      else g)"

definition yaml_scalar :: "(string \<Rightarrow> bool) \<Rightarrow> string \<Rightarrow> string" where
  "yaml_scalar alnum v =
     (if is_plain alnum v then v
      else [DQUOTE] @ concat (map yaml_escape_char (chars v)) @ [DQUOTE])"

definition conformant_frontmatter :: "(string \<Rightarrow> bool) \<Rightarrow> string \<Rightarrow> string" where
  "conformant_frontmatter alnum title =
     ''---'' @ [LF] @ ''type: Note'' @ [LF] @ ''title: '' @ yaml_scalar alnum title @ [LF] @ ''---'' @ [LF, LF]"

text \<open>\<^verbatim>\<open>newline_style\<close>: what the last line feed of a text is preceded by.\<close>

definition newline_style :: "string \<Rightarrow> string" where
  "newline_style t =
     (case rsplit_once LF t of
        None \<Rightarrow> [LF]
      | Some (head, _) \<Rightarrow> if suffix [CR] head then [CR, LF] else [LF])"

definition unquote :: "char \<Rightarrow> string \<Rightarrow> string option" where
  "unquote q s = Option.bind (strip_prefix [q] s) (strip_suffix [q])"

text \<open>The text before the first colon of a line.\<close>

definition key_text :: "string \<Rightarrow> string" where
  "key_text line = (case split_once CHR '':'' line of None \<Rightarrow> line | Some (key, _) \<Rightarrow> key)"

definition is_title_key :: "string \<Rightarrow> bool" where
  "is_title_key line =
     (if prefix '' '' line \<or> prefix [TAB] line then False
      else
        (let key = str_trim (key_text line);
             unquoted = (case unquote DQUOTE key of
                           Some k \<Rightarrow> k
                         | None \<Rightarrow> (case unquote SQUOTE key of Some k \<Rightarrow> k | None \<Rightarrow> key))
         in unquoted = ''title''))"

text \<open>The lines of the block with their offsets, without their line endings.\<close>

fun line_offsets :: "nat \<Rightarrow> string list \<Rightarrow> (nat \<times> string) list" where
  "line_offsets offset [] = []"
| "line_offsets offset (line # lines) =
     (offset, trim_end_matches [LF, CR] line) # line_offsets (offset + length line) lines"

text \<open>The end of a value: the key's line and the indented lines right after it.\<close>

fun value_end :: "nat \<Rightarrow> (nat \<times> string) list \<Rightarrow> nat" where
  "value_end e [] = e"
| "value_end e ((next_start, next_s) # lines) =
     (if prefix '' '' next_s \<or> prefix [TAB] next_s then value_end (next_start + length next_s) lines else e)"

definition rewrite_frontmatter_title ::
    "pulldown \<Rightarrow> (string \<Rightarrow> bool) \<Rightarrow> string \<Rightarrow> string \<Rightarrow> string option" where
  "rewrite_frontmatter_title pulldown alnum src new_title =
     Option.bind (sm_frontmatter (pn_spans (parse_note pulldown src []))) (\<lambda>span.
     Option.bind (str_get src span) (\<lambda>block_s.
       let lines = line_offsets (fst span) (split_inclusive LF block_s) in
       case dropWhile (\<lambda>(_, line). \<not> is_title_key line) lines of
         (start, line) # rest \<Rightarrow>
           (let replacement = key_text line @ '': '' @ yaml_scalar alnum new_title;
                e = value_end (start + length line) rest in
            case str_get src (start, e) of
              None \<Rightarrow> None
            | Some old \<Rightarrow>
                if old = replacement then None
                else Some (take start src @ replacement @ drop e src))
       | [] \<Rightarrow>
           (if lines = [] then None
            else
              (let closing_start = fst (last lines) in
               Option.bind (str_get src (fst span, closing_start)) (\<lambda>head.
                 Some (take closing_start src
                   @ (''title: '' @ yaml_scalar alnum new_title @ newline_style head)
                   @ drop closing_start src))))))"

subsection \<open>Errors restated\<close>

text \<open>The detail of an error that carries no sentence is its own name (the \<open>Debug\<close> form).\<close>

fun restate :: "app_error \<Rightarrow> (string \<Rightarrow> string) \<Rightarrow> app_error" where
  "restate (RevisionMismatch revision) rewrite = RevisionMismatch revision"
| "restate (PathUnavailable m) rewrite = PathUnavailable (rewrite m)"
| "restate (NotFound m) rewrite = NotFound (rewrite m)"
| "restate (DatabaseError m) rewrite = DatabaseError (rewrite m)"
| "restate (CryptoError m) rewrite = CryptoError (rewrite m)"
| "restate (NetworkError m) rewrite = NetworkError (rewrite m)"
| "restate (OAuthError m) rewrite = OAuthError (rewrite m)"
| "restate (IoError m) rewrite = IoError (rewrite m)"
| "restate (ParseError m) rewrite = ParseError (rewrite m)"
| "restate DiskFull rewrite = IoError (rewrite ''DiskFull'')"
| "restate AuthExpired rewrite = IoError (rewrite ''AuthExpired'')"
| "restate GitConflict rewrite = IoError (rewrite ''GitConflict'')"
| "restate OAuthStateMismatch rewrite = IoError (rewrite ''OAuthStateMismatch'')"


section \<open>Facts on names and identities\<close>

lemma trim_matches_id:
  assumes "s \<noteq> []" and "hd s \<noteq> d" and "last s \<noteq> d"
  shows "trim_matches d s = s"
proof -
  have keep: "dropWhile ((=) d) t = t" if "t \<noteq> []" "hd t \<noteq> d" for t
    using that by (cases t) auto
  have "hd (rev s) \<noteq> d" using assms by (simp add: hd_rev)
  then show ?thesis using assms keep [of s] keep [of "rev s"] by (simp add: trim_matches_def)
qed

lemma split_on_end_delim: "split_on d (s @ [d]) = split_on d s @ [[]]"
proof (induction s)
  case (Cons c s)
  obtain w ws where "split_on d s = w # ws" by (cases "split_on d s") auto
  then show ?case using Cons by simp
qed simp

lemma split_on_no_empty_ends:
  assumes "[] \<notin> set (split_on d s)"
  shows "s \<noteq> [] \<and> hd s \<noteq> d \<and> last s \<noteq> d"
proof (intro conjI)
  show n: "s \<noteq> []" using assms by auto
  show "hd s \<noteq> d" using assms n by (cases s) auto
  show "last s \<noteq> d"
  proof
    assume l: "last s = d"
    have "s = butlast s @ [d]" using append_butlast_last_id [OF n] l by simp
    then have "split_on d s = split_on d (butlast s) @ [[]]" by (metis split_on_end_delim)
    then show False using assms by simp
  qed
qed

text \<open>What the path rules demand of every segment.\<close>

definition safe_segment :: "string \<Rightarrow> bool" where
  "safe_segment s \<longleftrightarrow> s \<noteq> [] \<and> \<not> prefix ''.'' s \<and> SLASH \<notin> set s \<and> BSLASH \<notin> set s \<and> NUL \<notin> set s
     \<and> LF \<notin> set s \<and> CR \<notin> set s"

definition safe_path :: "string \<Rightarrow> bool" where
  "safe_path p \<longleftrightarrow> list_all safe_segment (split_on SLASH p)"

lemma safe_segment_normal: "safe_segment s \<Longrightarrow> normal_segment s"
  by (auto simp: safe_segment_def normal_segment_def)

lemma safe_path_normal: "safe_path p \<Longrightarrow> normal_path p \<and> p \<noteq> []"
  by (cases "p = []") (auto simp: safe_path_def normal_path_def list_all_iff safe_segment_normal safe_segment_def)

lemma set_split_on: "c \<noteq> d \<Longrightarrow> c \<in> set s \<longleftrightarrow> (\<exists>w\<in>set (split_on d s). c \<in> set w)"
  by (induction s) (auto split: list.splits)

lemma safe_path_chars: "safe_path p \<Longrightarrow> BSLASH \<notin> set p \<and> NUL \<notin> set p \<and> LF \<notin> set p \<and> CR \<notin> set p"
  using set_split_on [of _ SLASH p] by (auto simp: safe_path_def list_all_iff safe_segment_def)

lemma safe_path_escapes: "safe_path p \<Longrightarrow> \<not> path_escapes p"
proof -
  assume s: "safe_path p"
  have "hd (split_on SLASH p) \<in> set (split_on SLASH p)" by simp
  then have "hd (split_on SLASH p) \<noteq> ''.''" "\<not> prefix [SLASH] p"
    using s split_on_no_empty_ends [of SLASH p]
    by (auto simp: safe_path_def list_all_iff safe_segment_def prefix_def)
  then show ?thesis
    using s by (auto simp: path_escapes_def safe_path_def list_all_iff safe_segment_def)
qed

lemma safe_path_iff:
  assumes "BSLASH \<notin> set p" and "NUL \<notin> set p" and "LF \<notin> set p" and "CR \<notin> set p"
  shows "safe_path p \<longleftrightarrow> [] \<notin> set (split_on SLASH p) \<and> (\<forall>w\<in>set (split_on SLASH p). \<not> prefix ''.'' w)"
proof -
  have "safe_segment w \<longleftrightarrow> w \<noteq> [] \<and> \<not> prefix ''.'' w" if w: "w \<in> set (split_on SLASH p)" for w
  proof -
    have "SLASH \<notin> set w" using split_on_no_delim [OF w] .
    moreover have "c \<notin> set w" if "c \<noteq> SLASH" "c \<notin> set p" for c
      using set_split_on [OF that(1), of p] that(2) w by blast
    moreover have "BSLASH \<noteq> SLASH" "NUL \<noteq> SLASH" "LF \<noteq> SLASH" "CR \<noteq> SLASH" by simp_all
    ultimately have "SLASH \<notin> set w" "BSLASH \<notin> set w" "NUL \<notin> set w" "LF \<notin> set w" "CR \<notin> set w"
      using assms by blast+
    then show ?thesis by (simp add: safe_segment_def)
  qed
  then show ?thesis by (auto simp: safe_path_def list_all_iff)
qed

lemma trim_matches_subset: "set (trim_matches d s) \<subseteq> set s"
  by (auto simp: trim_matches_def dest!: set_dropWhileD)

lemma normalize_directory_Inr:
  "normalize_directory path = Inr d \<longleftrightarrow>
     BSLASH \<notin> set path \<and> NUL \<notin> set path \<and> LF \<notin> set path \<and> CR \<notin> set path
     \<and> d = trim_matches SLASH path \<and> (d = [] \<or> safe_path d)"
proof (cases "BSLASH \<in> set path \<or> NUL \<in> set path \<or> LF \<in> set path \<or> CR \<in> set path")
  case True
  then show ?thesis by (elim disjE) (simp_all add: normalize_directory_def)
next
  case False
  let ?t = "trim_matches SLASH path"
  have n: "BSLASH \<notin> set ?t" "NUL \<notin> set ?t" "LF \<notin> set ?t" "CR \<notin> set ?t"
    using False trim_matches_subset [of SLASH path] by blast+
  have "normalize_directory path = Inr d \<longleftrightarrow> d = ?t \<and> (?t = [] \<or> safe_path ?t)"
  proof (cases "?t = []")
    case True
    then show ?thesis using False by (simp add: normalize_directory_def) auto
  next
    case t: False
    show ?thesis
    proof (cases "safe_path ?t")
      case True
      then have "normalize_directory path = Inr ?t"
        using False t safe_path_iff [OF n] safe_path_escapes [OF True] by (simp add: normalize_directory_def)
      then show ?thesis using True by auto
    next
      case unsafe: False
      then have "\<exists>e. normalize_directory path = Inl e"
        using False t safe_path_iff [OF n] by (auto simp: normalize_directory_def Let_def)
      then show ?thesis using t unsafe by auto
    qed
  qed
  then show ?thesis using False by auto
qed

lemma validate_segment_Inr:
  "validate_segment s = Inr () \<longleftrightarrow> safe_segment s \<and> str_trim s \<noteq> []"
proof -
  have "str_trim [] = []" by (simp add: str_trim_def)
  then show ?thesis by (auto simp: validate_segment_def safe_segment_def)
qed

lemma validate_title_Inr:
  "validate_title t = Inr () \<longleftrightarrow> safe_segment t \<and> str_trim t \<noteq> [] \<and> \<not> is_reserved_title t"
  by (auto simp: validate_title_def and_then_Inr_iff validate_segment_Inr)

lemma split_on_snoc: "SLASH \<notin> set b \<Longrightarrow> split_on SLASH (a @ SLASH # b) = split_on SLASH a @ [b]"
proof (induction a)
  case Nil
  then show ?case by (simp add: split_on_id)
next
  case (Cons c a)
  then show ?case by (auto split: list.splits)
qed

lemma safe_path_snoc: "safe_segment b \<Longrightarrow> safe_path (a @ SLASH # b) \<longleftrightarrow> safe_path a"
  by (simp add: safe_path_def split_on_snoc safe_segment_def)

lemma safe_segment_path: "safe_segment s \<Longrightarrow> safe_path s"
  by (simp add: safe_path_def split_on_id safe_segment_def)

lemma path_names_safe: "safe_path p \<Longrightarrow> path_names p = split_on SLASH p"
  by (auto simp: path_names_def safe_path_def list_all_iff safe_segment_def intro!: filter_True)

lemma contained_loop_no_link:
  "contained_loop fs expected components = Inr () \<Longrightarrow> k \<le> length components \<Longrightarrow> 0 < k \<Longrightarrow>
   (\<forall>j<k. 0 < j \<longrightarrow> fs (expected @ take j components) \<noteq> None) \<Longrightarrow>
   fs (expected @ take k components) \<noteq> Some Symlink"
proof (induction components arbitrary: expected k)
  case (Cons c cs)
  let ?e = "expected @ [c]"
  have ne: "fs ?e \<noteq> Some Symlink" using Cons.prems(1) by (auto simp: Let_def)
  obtain j where j: "k = Suc j" "j \<le> length cs" using Cons.prems by (cases k) auto
  show ?case
  proof (cases j)
    case 0
    then show ?thesis using ne j by simp
  next
    case (Suc i)
    have "fs (expected @ take 1 (c # cs)) \<noteq> None" using spec [OF Cons.prems(4), of 1] j Suc by simp
    then have "contained_loop fs ?e cs = Inr ()"
      using Cons.prems(1) ne
      by (cases "fs ?e"; cases "the (fs ?e)") (simp_all add: Let_def)
    moreover have "fs (?e @ take i cs) \<noteq> None" if "i < j" "0 < i" for i
    proof -
      have "fs (expected @ take (Suc i) (c # cs)) \<noteq> None" using spec [OF Cons.prems(4), of "Suc i"] j that by simp
      then show ?thesis by simp
    qed
    ultimately have "fs (?e @ take j cs) \<noteq> Some Symlink"
      by (intro Cons.IH [of ?e j]) (use j Suc in simp_all)
    then show ?thesis using j by simp
  qed
qed simp

end
