(* ===== verification/Sync_Scheduler.thy ===== *)
theory Sync_Scheduler
  imports Prelude
begin

section \<open>The sync scheduler\<close>

text \<open>
  \<^verbatim>\<open>sync/scheduler.rs\<close>: the loop of the background thread and one sync cycle. Instants and durations are
  naturals in one unit; a duration is added to an instant without overflow. The injected operations of
  \<^verbatim>\<open>SyncDeps\<close> are the environment of a cycle: what each call returned and the instant at which the push
  returned. The cycle records its calls in \<open>sd_log\<close>, in order. The thread, the channel and the locks are
  the step relation: a step is the receipt of a command or the expiry of the wait.
\<close>

record sync_config =
  cfg_debounce :: nat
  cfg_poll_interval :: nat
  cfg_backoff_base :: nat
  cfg_backoff_cap :: nat

definition sync_config_new :: sync_config where
  "sync_config_new =
     \<lparr>cfg_debounce = 5000, cfg_poll_interval = 5 * 60 * 1000, cfg_backoff_base = 1000, cfg_backoff_cap = 60000\<rparr>"

datatype sync_status = Idle | Syncing | Retrying | Conflict | SyncError

datatype dep_call = CredentialsCall | PushCall | PullCall | ReindexCall | ConflictHook "unit result"

record cycle_env =
  env_push :: "unit result"
  env_pull :: "unit result"
  env_reindex :: "unit result"
  env_push_done :: nat

record sched =
  sd_status :: sync_status
  sd_last_error :: "app_error option"
  sd_next_poll :: nat
  sd_debounce_deadline :: "nat option"
  sd_backoff_delay :: nat
  sd_backoff_deadline :: "nat option"
  sd_log :: "dep_call list"

definition sched_start :: "sync_config \<Rightarrow> nat \<Rightarrow> sched" where
  "sched_start cfg now =
     \<lparr>sd_status = Idle, sd_last_error = None, sd_next_poll = now + cfg_poll_interval cfg,
      sd_debounce_deadline = None, sd_backoff_delay = cfg_backoff_base cfg, sd_backoff_deadline = None,
      sd_log = []\<rparr>"

subsection \<open>One cycle\<close>

definition call :: "sched \<Rightarrow> dep_call \<Rightarrow> sched" where
  "call s c = s\<lparr>sd_log := sd_log s @ [c]\<rparr>"

definition reset_backoff :: "sync_config \<Rightarrow> sched \<Rightarrow> sched" where
  "reset_backoff cfg s = s\<lparr>sd_backoff_delay := cfg_backoff_base cfg, sd_backoff_deadline := None\<rparr>"

definition merge_ran :: "unit result \<Rightarrow> bool" where
  "merge_ran pull_result \<longleftrightarrow> (case pull_result of Inr _ \<Rightarrow> True | Inl e \<Rightarrow> e = GitConflict)"

text \<open>The arm for a rejected push: pull, and the hooks when a merge ran.\<close>

definition conflict_arm :: "sync_config \<Rightarrow> cycle_env \<Rightarrow> sched \<Rightarrow> sched" where
  "conflict_arm cfg env s0 =
     (let s = reset_backoff cfg (call s0 PullCall); pull_result = env_pull env in
      if \<not> merge_ran pull_result then
        s\<lparr>sd_last_error := (case pull_result of Inl e \<Rightarrow> Some e | Inr _ \<Rightarrow> None), sd_status := SyncError\<rparr>
      else
        (let s = call s ReindexCall;
             s = (case env_reindex env of Inl e \<Rightarrow> s\<lparr>sd_last_error := Some e\<rparr> | Inr _ \<Rightarrow> s);
             s = call s (ConflictHook pull_result)
         in (case pull_result of
               Inr _ \<Rightarrow>
                 (case env_reindex env of
                    Inr _ \<Rightarrow> s\<lparr>sd_last_error := None, sd_status := Idle\<rparr>
                  | Inl _ \<Rightarrow> s\<lparr>sd_status := SyncError\<rparr>)
             | Inl _ \<Rightarrow> s\<lparr>sd_last_error := Some GitConflict, sd_status := Conflict\<rparr>)))"

definition run_sync_cycle :: "sync_config \<Rightarrow> cycle_env \<Rightarrow> sched \<Rightarrow> sched" where
  "run_sync_cycle cfg env s0 =
     (let s = call (call (s0\<lparr>sd_status := Syncing\<rparr>) CredentialsCall) PushCall in
      case env_push env of
        Inr _ \<Rightarrow> (reset_backoff cfg s)\<lparr>sd_last_error := None, sd_status := Idle\<rparr>
      | Inl (NetworkError msg) \<Rightarrow>
          s\<lparr>sd_last_error := Some (NetworkError msg), sd_status := Retrying,
            sd_backoff_deadline := Some (env_push_done env + sd_backoff_delay s),
            sd_backoff_delay := min (sd_backoff_delay s * 2) (cfg_backoff_cap cfg)\<rparr>
      | Inl AuthExpired \<Rightarrow>
          reset_backoff cfg (s\<lparr>sd_last_error := Some AuthExpired, sd_status := SyncError\<rparr>)
      | Inl GitConflict \<Rightarrow> conflict_arm cfg env s
      | Inl other \<Rightarrow> reset_backoff cfg (s\<lparr>sd_last_error := Some other, sd_status := SyncError\<rparr>))"

subsection \<open>The loop\<close>

definition wait_time :: "sched \<Rightarrow> nat \<Rightarrow> nat" where
  "wait_time s now =
     (let wait = sd_next_poll s - now;
          wait = (case sd_debounce_deadline s of None \<Rightarrow> wait | Some dd \<Rightarrow> min wait (dd - now));
          wait = (case sd_backoff_deadline s of None \<Rightarrow> wait | Some bd \<Rightarrow> min wait (bd - now))
      in wait)"

text \<open>What a wake at \<open>now\<close> takes: the first due deadline of the three, in that order, or none.\<close>

definition take_due :: "sync_config \<Rightarrow> sched \<Rightarrow> nat \<Rightarrow> sched option" where
  "take_due cfg s now =
     (if (case sd_backoff_deadline s of None \<Rightarrow> False | Some bd \<Rightarrow> bd \<le> now)
      then Some (s\<lparr>sd_backoff_deadline := None\<rparr>)
      else if (case sd_debounce_deadline s of None \<Rightarrow> False | Some dd \<Rightarrow> dd \<le> now)
      then Some (s\<lparr>sd_debounce_deadline := None\<rparr>)
      else if sd_next_poll s \<le> now
      then Some (s\<lparr>sd_next_poll := now + cfg_poll_interval cfg\<rparr>)
      else None)"

definition on_timeout :: "sync_config \<Rightarrow> cycle_env \<Rightarrow> sched \<Rightarrow> nat \<Rightarrow> sched" where
  "on_timeout cfg env s now =
     (case take_due cfg s now of None \<Rightarrow> s | Some s' \<Rightarrow> run_sync_cycle cfg env s')"

definition on_activity :: "sync_config \<Rightarrow> sched \<Rightarrow> nat \<Rightarrow> sched" where
  "on_activity cfg s now = s\<lparr>sd_debounce_deadline := Some (now + cfg_debounce cfg)\<rparr>"

text \<open>A stop command or a closed channel ends the loop: there is no step for it.\<close>

inductive sched_step :: "sync_config \<Rightarrow> sched \<Rightarrow> sched \<Rightarrow> bool" for cfg where
  activity: "sched_step cfg s (on_activity cfg s now)"
| timeout: "now + wait_time s now \<le> woken \<Longrightarrow> sched_step cfg s (on_timeout cfg env s woken)"

inductive sched_reachable :: "sync_config \<Rightarrow> sched \<Rightarrow> bool" for cfg where
  start: "sched_reachable cfg (sched_start cfg now)"
| step: "sched_reachable cfg s \<Longrightarrow> sched_step cfg s s' \<Longrightarrow> sched_reachable cfg s'"

inductive_cases sched_stepE: "sched_step cfg s s'"

section \<open>Facts on the scheduler\<close>

lemmas cycle_defs = run_sync_cycle_def conflict_arm_def reset_backoff_def call_def

lemma call_simps [simp]:
  "sd_status (call s c) = sd_status s" "sd_last_error (call s c) = sd_last_error s"
  "sd_backoff_delay (call s c) = sd_backoff_delay s" "sd_backoff_deadline (call s c) = sd_backoff_deadline s"
  "sd_log (call s c) = sd_log s @ [c]"
  by (simp_all add: call_def)

text \<open>The calls of a cycle, from what the push and the pull answered.\<close>

definition cycle_calls :: "cycle_env \<Rightarrow> dep_call list" where
  "cycle_calls env =
     [CredentialsCall, PushCall]
     @ (if env_push env = Inl GitConflict
        then PullCall # (if merge_ran (env_pull env) then [ReindexCall, ConflictHook (env_pull env)] else [])
        else [])"

lemma run_sync_cycle_log: "sd_log (run_sync_cycle cfg env s) = sd_log s @ cycle_calls env"
  by (auto simp: cycle_defs cycle_calls_def Let_def split: sum.split app_error.split)

lemma run_sync_cycle_backoff:
  "(\<exists>msg. env_push env = Inl (NetworkError msg)
      \<and> sd_backoff_deadline (run_sync_cycle cfg env s) = Some (env_push_done env + sd_backoff_delay s)
      \<and> sd_backoff_delay (run_sync_cycle cfg env s) = min (sd_backoff_delay s * 2) (cfg_backoff_cap cfg)
      \<and> sd_status (run_sync_cycle cfg env s) = Retrying)
   \<or> ((\<forall>msg. env_push env \<noteq> Inl (NetworkError msg))
      \<and> sd_backoff_deadline (run_sync_cycle cfg env s) = None
      \<and> sd_backoff_delay (run_sync_cycle cfg env s) = cfg_backoff_base cfg
      \<and> sd_status (run_sync_cycle cfg env s) \<noteq> Retrying)"
  by (auto simp: cycle_defs Let_def split: sum.split app_error.split)

lemma take_due_fields:
  "take_due cfg s now = Some s' \<Longrightarrow>
   sd_backoff_delay s' = sd_backoff_delay s \<and> sd_log s' = sd_log s \<and> sd_status s' = sd_status s"
  by (auto simp: take_due_def split: if_splits)

lemma take_due_after_wait:
  "now + wait_time s now \<le> woken \<Longrightarrow> take_due cfg s woken \<noteq> None"
  by (auto simp: take_due_def wait_time_def Let_def min_def split: option.splits if_splits)

text \<open>The invariant of the loop: the delay is a doubling of the base under the cap, and a retry is pending exactly while the status says so.\<close>

definition sched_inv :: "sync_config \<Rightarrow> sched \<Rightarrow> bool" where
  "sched_inv cfg s \<longleftrightarrow>
     (\<exists>k. sd_backoff_delay s = min (cfg_backoff_base cfg * 2 ^ k) (cfg_backoff_cap cfg))
     \<and> (sd_backoff_deadline s \<noteq> None \<longleftrightarrow> sd_status s = Retrying)"

lemma double_min: "min (min (b * 2 ^ k) c * 2) c = min (b * 2 ^ Suc k) (c::nat)"
  by (auto simp: min_def)

lemma sched_inv_start: "cfg_backoff_base cfg \<le> cfg_backoff_cap cfg \<Longrightarrow> sched_inv cfg (sched_start cfg now)"
  by (auto simp: sched_inv_def sched_start_def intro!: exI [of _ 0])

lemma sched_inv_cycle:
  assumes "cfg_backoff_base cfg \<le> cfg_backoff_cap cfg"
    and "\<exists>k. sd_backoff_delay s = min (cfg_backoff_base cfg * 2 ^ k) (cfg_backoff_cap cfg)"
  shows "sched_inv cfg (run_sync_cycle cfg env s)"
proof -
  obtain k where k: "sd_backoff_delay s = min (cfg_backoff_base cfg * 2 ^ k) (cfg_backoff_cap cfg)"
    using assms(2) by blast
  from run_sync_cycle_backoff [of env cfg s] show ?thesis
  proof
    assume "\<exists>msg. env_push env = Inl (NetworkError msg)
      \<and> sd_backoff_deadline (run_sync_cycle cfg env s) = Some (env_push_done env + sd_backoff_delay s)
      \<and> sd_backoff_delay (run_sync_cycle cfg env s) = min (sd_backoff_delay s * 2) (cfg_backoff_cap cfg)
      \<and> sd_status (run_sync_cycle cfg env s) = Retrying"
    then show ?thesis
      using k double_min by (auto simp: sched_inv_def intro!: exI [of _ "Suc k"])
  next
    assume "(\<forall>msg. env_push env \<noteq> Inl (NetworkError msg))
      \<and> sd_backoff_deadline (run_sync_cycle cfg env s) = None
      \<and> sd_backoff_delay (run_sync_cycle cfg env s) = cfg_backoff_base cfg
      \<and> sd_status (run_sync_cycle cfg env s) \<noteq> Retrying"
    then show ?thesis
      using assms(1) by (auto simp: sched_inv_def intro!: exI [of _ 0])
  qed
qed

lemma sched_inv_step:
  assumes "cfg_backoff_base cfg \<le> cfg_backoff_cap cfg" and "sched_step cfg s s'" and "sched_inv cfg s"
  shows "sched_inv cfg s'"
  using assms(2)
proof cases
  case (activity now)
  then show ?thesis using assms(3) by (simp add: sched_inv_def on_activity_def)
next
  case (timeout now woken env)
  then obtain s1 where s1: "take_due cfg s woken = Some s1"
    using take_due_after_wait by blast
  have "sched_inv cfg (run_sync_cycle cfg env s1)"
    using assms(1,3) take_due_fields [OF s1] by (intro sched_inv_cycle) (simp_all add: sched_inv_def)
  then show ?thesis
    using timeout s1 by (simp add: on_timeout_def)
qed

lemma sched_reachable_inv:
  "sched_reachable cfg s \<Longrightarrow> cfg_backoff_base cfg \<le> cfg_backoff_cap cfg \<Longrightarrow> sched_inv cfg s"
  by (induction rule: sched_reachable.induct) (auto intro: sched_inv_start sched_inv_step)

section \<open>Properties of the scheduler\<close>

text \<open>In every state the loop can reach, the retry delay is the base doubled some number of times and cut at
  the cap, so it stays between the base and the cap, and a retry deadline is pending exactly while the
  status is Retrying: no failure other than a network error leaves a retry behind.\<close>

theorem backoff_invariant:
  assumes "sched_reachable cfg s" and "cfg_backoff_base cfg \<le> cfg_backoff_cap cfg"
  shows "cfg_backoff_base cfg \<le> sd_backoff_delay s \<and> sd_backoff_delay s \<le> cfg_backoff_cap cfg
    \<and> (\<exists>k. sd_backoff_delay s = min (cfg_backoff_base cfg * 2 ^ k) (cfg_backoff_cap cfg))
    \<and> (sd_backoff_deadline s \<noteq> None \<longleftrightarrow> sd_status s = Retrying)"
proof -
  have inv: "sched_inv cfg s" using assms by (rule sched_reachable_inv)
  then obtain k where k: "sd_backoff_delay s = min (cfg_backoff_base cfg * 2 ^ k) (cfg_backoff_cap cfg)"
    by (auto simp: sched_inv_def)
  have "cfg_backoff_base cfg * 1 \<le> cfg_backoff_base cfg * 2 ^ k"
    by (intro mult_le_mono2) simp
  then show ?thesis
    using inv k assms(2) by (auto simp: sched_inv_def)
qed

definition net_down :: cycle_env where
  "net_down = \<lparr>env_push = Inl (NetworkError []), env_pull = Inr (), env_reindex = Inr (), env_push_done = 5001\<rparr>"

lemma backoff_invariant_witness:
  "let s = on_timeout sync_config_new net_down (on_activity sync_config_new (sched_start sync_config_new 0) 0) 5000
   in sd_backoff_delay s = 2000 \<and> sd_backoff_deadline s = Some 6001
      \<and> sd_backoff_delay s \<le> cfg_backoff_cap sync_config_new"
proof -
  let ?cfg = sync_config_new
  let ?a = "on_activity ?cfg (sched_start ?cfg 0) 0"
  let ?s = "on_timeout ?cfg net_down ?a 5000"
  have "sched_reachable ?cfg ?a"
    by (rule sched_reachable.step [OF sched_reachable.start sched_step.activity])
  moreover have "sched_step ?cfg ?a ?s"
  proof (rule sched_step.timeout)
    show "0 + wait_time ?a 0 \<le> 5000"
      by (simp add: wait_time_def on_activity_def sched_start_def sync_config_new_def)
  qed
  ultimately have "sched_reachable ?cfg ?s"
    by (rule sched_reachable.step)
  moreover have "cfg_backoff_base ?cfg \<le> cfg_backoff_cap ?cfg" by (simp add: sync_config_new_def)
  ultimately have "sd_backoff_delay ?s \<le> cfg_backoff_cap ?cfg"
    using backoff_invariant by blast
  moreover have "sd_backoff_delay ?s = 2000 \<and> sd_backoff_deadline ?s = Some 6001"
    by (simp add: on_timeout_def take_due_def on_activity_def sched_start_def sync_config_new_def net_down_def cycle_defs)
  ultimately show ?thesis by (simp add: Let_def)
qed

text \<open>One wake runs at most one cycle, and a wait that ran its full length always runs one. The cycle asks for
  credentials and pushes once; it pulls exactly when the push was rejected, re-indexes and notifies, in
  that order and after the pull, exactly when a merge ran; and nothing else is called.\<close>

theorem cycle_calls_exact:
  assumes "now + wait_time s now \<le> woken"
  shows "sd_log (on_timeout cfg env s woken) = sd_log s @ [CredentialsCall, PushCall]
     @ (if env_push env = Inl GitConflict
        then PullCall # (if env_pull env = Inr () \<or> env_pull env = Inl GitConflict
                         then [ReindexCall, ConflictHook (env_pull env)] else [])
        else [])"
proof -
  obtain s1 where s1: "take_due cfg s woken = Some s1"
    using take_due_after_wait [OF assms] by blast
  have "merge_ran p \<longleftrightarrow> p = Inr () \<or> p = Inl GitConflict" for p
    by (cases p) (auto simp: merge_ran_def)
  then show ?thesis
    using s1 take_due_fields [OF s1] by (simp add: on_timeout_def run_sync_cycle_log cycle_calls_def)
qed

lemma cycle_calls_exact_witness:
  "sd_log (on_timeout sync_config_new
      \<lparr>env_push = Inl GitConflict, env_pull = Inl GitConflict, env_reindex = Inr (), env_push_done = 0\<rparr>
      (sched_start sync_config_new 0) 300000)
   = [CredentialsCall, PushCall, PullCall, ReindexCall, ConflictHook (Inl GitConflict)]"
proof -
  have "0 + wait_time (sched_start sync_config_new 0) 0 \<le> 300000"
    by (simp add: wait_time_def on_activity_def sched_start_def sync_config_new_def)
  from cycle_calls_exact [OF this] show ?thesis by (simp add: sched_start_def)
qed



end
