(* ===== verification/File_Store.thy ===== *)
theory File_Store
  imports Identity "HOL-Library.AList"
begin

section \<open>The file system as the application uses it\<close>

text \<open>
  The calls of \<^verbatim>\<open>std::fs\<close> the workspace makes, on a tree of directories and plain files, and the two ways it
  publishes bytes: \<^verbatim>\<open>atomic_write\<close> and \<^verbatim>\<open>atomic_create\<close> of \<^verbatim>\<open>workspace/persist.rs\<close>. A store carries a schedule of
  faults: each call takes the next entry, and an entry makes the call fail with no effect (a failing write
  may leave any number of its bytes). A process that dies is the schedule that lets no further call have an
  effect, so what holds for every schedule holds after a crash at any point. Symbolic links are refused
  before any of these calls (\<^verbatim>\<open>Identity\<close>), so the tree has none.
\<close>

subsection \<open>Trees\<close>

type_synonym path = "string list"

datatype node = NDir | NFile (contents: string) (mode: nat)

type_synonym tree = "(path \<times> node) list"

definition has_child :: "tree \<Rightarrow> path \<Rightarrow> bool" where
  "has_child t p = list_ex (\<lambda>(q, _). prefix p q \<and> q \<noteq> p) t"

definition move_tree :: "tree \<Rightarrow> path \<Rightarrow> path \<Rightarrow> tree" where
  "move_tree t a b =
     map (\<lambda>(q, n). (if prefix a q then b @ drop (length a) q else q, n)) (filter (\<lambda>(q, _). \<not> prefix b q) t)"

definition drop_tree :: "tree \<Rightarrow> path \<Rightarrow> tree" where
  "drop_tree t p = filter (\<lambda>(q, _). \<not> prefix p q) t"

text \<open>Every entry but the root hangs in a directory.\<close>

definition wf_tree :: "tree \<Rightarrow> bool" where
  "wf_tree t \<longleftrightarrow> map_of t [] = Some NDir \<and> (\<forall>p c. map_of t (p @ [c]) \<noteq> None \<longrightarrow> map_of t p = Some NDir)"

subsection \<open>Stores and system calls\<close>

datatype io_kind = NotFoundErr | ExistsErr | FullErr | OtherErr

text \<open>
  A fault is an error of the device or of the permissions, a full disk among them, never the two answers the
  tree determines (the name is missing, the name is taken). The number is how many bytes a failing write
  leaves.
\<close>

datatype fault = Fault (disk_full: bool) (written: nat)

definition fault_error :: "fault \<Rightarrow> io_kind" where
  "fault_error f = (if disk_full f then FullErr else OtherErr)"

record store =
  st_tree :: tree
  st_faults :: "fault option list"
  st_pid :: nat
  st_next_temp :: nat
  st_next_create :: nat
  st_next_trash :: nat

type_synonym 'a io = "store \<Rightarrow> (io_kind + 'a) \<times> store"

text \<open>One call: it takes the next entry of the schedule.\<close>

definition sys :: "(tree \<Rightarrow> (io_kind + 'a) \<times> tree) \<Rightarrow> 'a io" where
  "sys f st =
     (case st_faults st of
        Some e # rest \<Rightarrow> (Inl (fault_error e), st\<lparr>st_faults := rest\<rparr>)
      | _ \<Rightarrow>
          (let (r, t) = f (st_tree st) in (r, st\<lparr>st_tree := t, st_faults := tl (st_faults st)\<rparr>)))"

definition fs_read :: "path \<Rightarrow> string io" where
  "fs_read p = sys (\<lambda>t. (case map_of t p of
     None \<Rightarrow> Inl NotFoundErr | Some NDir \<Rightarrow> Inl OtherErr | Some (NFile b _) \<Rightarrow> Inr b, t))"

definition fs_mode :: "path \<Rightarrow> nat io" where
  "fs_mode p = sys (\<lambda>t. (case map_of t p of
     None \<Rightarrow> Inl NotFoundErr | Some NDir \<Rightarrow> Inr 493 | Some (NFile _ m) \<Rightarrow> Inr m, t))"

definition fs_create_new :: "path \<Rightarrow> nat \<Rightarrow> unit io" where
  "fs_create_new p m = sys (\<lambda>t.
     if map_of t p \<noteq> None then (Inl ExistsErr, t)
     else if map_of t (butlast p) \<noteq> Some NDir then (Inl NotFoundErr, t)
     else (Inr (), AList.update p (NFile [] m) t))"

definition set_contents :: "path \<Rightarrow> string \<Rightarrow> tree \<Rightarrow> tree" where
  "set_contents p b t =
     (case map_of t p of Some (NFile _ m) \<Rightarrow> AList.update p (NFile b m) t | _ \<Rightarrow> t)"

text \<open>A write through an open file: when it fails, a first part of the bytes may have reached the file.\<close>

definition fs_write_all :: "path \<Rightarrow> string \<Rightarrow> unit io" where
  "fs_write_all p b st =
     (case st_faults st of
        Some e # rest \<Rightarrow>
          (Inl (fault_error e),
           st\<lparr>st_tree := set_contents p (take (written e) b) (st_tree st), st_faults := rest\<rparr>)
      | _ \<Rightarrow> sys (\<lambda>t. (Inr (), set_contents p b t)) st)"

definition fs_sync :: "unit io" where
  "fs_sync = sys (\<lambda>t. (Inr (), t))"

definition fs_set_mode :: "path \<Rightarrow> nat \<Rightarrow> unit io" where
  "fs_set_mode p m = sys (\<lambda>t.
     (case map_of t p of
        None \<Rightarrow> (Inl NotFoundErr, t)
      | Some NDir \<Rightarrow> (Inr (), t)
      | Some (NFile b _) \<Rightarrow> (Inr (), AList.update p (NFile b m) t)))"

text \<open>
  POSIX \<^verbatim>\<open>rename\<close>: a file replaces a file, a directory moves with everything below it and replaces only an
  empty directory.
\<close>

definition fs_rename :: "path \<Rightarrow> path \<Rightarrow> unit io" where
  "fs_rename a b = sys (\<lambda>t.
     (case map_of t a of
        None \<Rightarrow> (Inl NotFoundErr, t)
      | Some (NFile bytes m) \<Rightarrow>
          if map_of t b = Some NDir then (Inl OtherErr, t)
          else if map_of t (butlast b) \<noteq> Some NDir then (Inl NotFoundErr, t)
          else (Inr (), AList.update b (NFile bytes m) (AList.delete a t))
      | Some NDir \<Rightarrow>
          if a = b then (Inr (), t)
          else if prefix a b then (Inl OtherErr, t)
          else if map_of t (butlast b) \<noteq> Some NDir then (Inl NotFoundErr, t)
          else if (map_of t b \<noteq> None \<and> map_of t b \<noteq> Some NDir) \<or> has_child t b then (Inl OtherErr, t)
          else (Inr (), move_tree t a b)))"

definition fs_remove_file :: "path \<Rightarrow> unit io" where
  "fs_remove_file p = sys (\<lambda>t.
     (case map_of t p of
        None \<Rightarrow> (Inl NotFoundErr, t)
      | Some NDir \<Rightarrow> (Inl OtherErr, t)
      | Some (NFile _ _) \<Rightarrow> (Inr (), AList.delete p t)))"

definition fs_remove_dir_all :: "path \<Rightarrow> unit io" where
  "fs_remove_dir_all p = sys (\<lambda>t.
     (case map_of t p of
        None \<Rightarrow> (Inl NotFoundErr, t)
      | Some (NFile _ _) \<Rightarrow> (Inl OtherErr, t)
      | Some NDir \<Rightarrow> (Inr (), drop_tree t p)))"

text \<open>
  A hard link gives the file a second name. The application removes one of the two names before it writes
  again, so the two never diverge and a copy models the link.
\<close>

definition fs_hard_link :: "path \<Rightarrow> path \<Rightarrow> unit io" where
  "fs_hard_link a b = sys (\<lambda>t.
     (case map_of t a of
        None \<Rightarrow> (Inl NotFoundErr, t)
      | Some NDir \<Rightarrow> (Inl OtherErr, t)
      | Some (NFile bytes m) \<Rightarrow>
          if map_of t b \<noteq> None then (Inl ExistsErr, t)
          else if map_of t (butlast b) \<noteq> Some NDir then (Inl NotFoundErr, t)
          else (Inr (), AList.update b (NFile bytes m) t)))"

fun mkdir_loop :: "tree \<Rightarrow> path \<Rightarrow> path \<Rightarrow> (io_kind + unit) \<times> tree" where
  "mkdir_loop t done_p [] = (Inr (), t)"
| "mkdir_loop t done_p (c # cs) =
     (let q = done_p @ [c] in
      case map_of t q of
        None \<Rightarrow> mkdir_loop (AList.update q NDir t) q cs
      | Some NDir \<Rightarrow> mkdir_loop t q cs
      | Some (NFile _ _) \<Rightarrow> (Inl OtherErr, t))"

definition fs_create_dir_all :: "path \<Rightarrow> unit io" where
  "fs_create_dir_all p = sys (\<lambda>t. mkdir_loop t [] p)"

subsection \<open>Publishing bytes\<close>

text \<open>The error a write reports: a full disk has its own value.\<close>

definition io_error :: "io_kind \<Rightarrow> app_error" where
  "io_error e = (if e = FullErr then DiskFull else IoError ''write'')"

text \<open>Decimal numerals, as \<^verbatim>\<open>format!\<close> prints them.\<close>

function decimal :: "nat \<Rightarrow> string" where
  "decimal n = (if n < 10 then [char_of (48 + n)] else decimal (n div 10) @ [char_of (48 + n mod 10)])"
  by auto
termination by (relation "measure id") auto

declare decimal.simps [simp del]

definition temp_path :: "nat \<Rightarrow> path \<Rightarrow> nat \<Rightarrow> path" where
  "temp_path pid p n = butlast p @ [''.'' @ last p @ ''.'' @ decimal pid @ ''.'' @ decimal n @ ''.tmp'']"

text \<open>The closure \<^verbatim>\<open>write\<close> of both functions: a private file, its bytes, made durable.\<close>

definition write_temp :: "path \<Rightarrow> string \<Rightarrow> unit io" where
  "write_temp temp bytes st =
     (case fs_create_new temp 384 st of
        (Inl e, st) \<Rightarrow> (Inl e, st)
      | (Inr _, st) \<Rightarrow>
          (case fs_write_all temp bytes st of
             (Inl e, st) \<Rightarrow> (Inl e, st)
           | (Inr _, st) \<Rightarrow> fs_sync st))"

definition carry_permissions_forward :: "path \<Rightarrow> path \<Rightarrow> unit io" where
  "carry_permissions_forward target temp st =
     (case fs_mode target st of
        (Inl NotFoundErr, st) \<Rightarrow> (Inr (), st)
      | (Inl e, st) \<Rightarrow> (Inl e, st)
      | (Inr m, st) \<Rightarrow> fs_set_mode temp m st)"

definition cleanup :: "path \<Rightarrow> store \<Rightarrow> store" where
  "cleanup temp st = snd (fs_remove_file temp st)"

definition atomic_write :: "path \<Rightarrow> string \<Rightarrow> store \<Rightarrow> unit result \<times> store" where
  "atomic_write p bytes st0 =
     (if p = [] then (Inl (IoError ''no parent directory''), st0)
      else
        (let temp = temp_path (st_pid st0) p (st_next_temp st0); st = st0\<lparr>st_next_temp := Suc (st_next_temp st0)\<rparr> in
         case write_temp temp bytes st of
           (Inl e, st) \<Rightarrow> (Inl (io_error e), cleanup temp st)
         | (Inr _, st) \<Rightarrow>
             (case carry_permissions_forward p temp st of
                (Inl e, st) \<Rightarrow> (Inl (io_error e), cleanup temp st)
              | (Inr _, st) \<Rightarrow>
                  (case fs_rename temp p st of
                     (Inl e, st) \<Rightarrow> (Inl (io_error e), cleanup temp st)
                   | (Inr _, st) \<Rightarrow> (Inr (), st)))))"

text \<open>\<^verbatim>\<open>atomic_create\<close>: published by a hard link, so an existing destination is never replaced.\<close>

definition atomic_create :: "path \<Rightarrow> string \<Rightarrow> store \<Rightarrow> bool result \<times> store" where
  "atomic_create p bytes st0 =
     (if p = [] then (Inl (IoError ''no parent directory''), st0)
      else
        (let temp = temp_path (st_pid st0) p (st_next_create st0); st = st0\<lparr>st_next_create := Suc (st_next_create st0)\<rparr> in
         case write_temp temp bytes st of
           (Inl e, st) \<Rightarrow> (Inl (io_error e), cleanup temp st)
         | (Inr _, st) \<Rightarrow>
             (case fs_hard_link temp p st of
                (Inr _, st) \<Rightarrow> (Inr True, cleanup temp st)
              | (Inl ExistsErr, st) \<Rightarrow> (Inr False, cleanup temp st)
              | (Inl e, st) \<Rightarrow> (Inl (io_error e), cleanup temp st))))"

end
