(* ===== verification/Durable_Files.thy ===== *)
theory Durable_Files
  imports Prelude
begin

section \<open>What the application relies on when it publishes files\<close>

text \<open>
  The contract between the file layer and its clients. \<open>get\<close> reads what a path holds, \<open>put\<close> replaces it, and
  the names \<open>scratch\<close> recognizes are the layer's own: nobody else keeps anything under them. A \<open>put\<close> that
  reports success has published the value, one that reports an error has published nothing, and neither
  touches any other path. The extended contract adds a \<open>make\<close> that never replaces.
\<close>

locale durable_files =
  fixes get :: "'s \<Rightarrow> 'p \<Rightarrow> 'v option"
    and put :: "'p \<Rightarrow> 'v \<Rightarrow> 's \<Rightarrow> unit result \<times> 's"
    and target :: "'p \<Rightarrow> bool"
    and scratch :: "'p \<Rightarrow> bool"
  assumes target_not_scratch: "target p \<Longrightarrow> \<not> scratch p"
    and put_ok: "target p \<Longrightarrow> put p v s = (Inr u, s') \<Longrightarrow> get s' p = Some v"
    and put_err: "target p \<Longrightarrow> put p v s = (Inl e, s') \<Longrightarrow> get s' p = get s p"
    and put_frame: "target p \<Longrightarrow> put p v s = (r, s') \<Longrightarrow> q \<noteq> p \<Longrightarrow> \<not> scratch q \<Longrightarrow> get s' q = get s q"
begin

text \<open>Whatever happens, the target holds its old value or the new one in full.\<close>

lemma put_old_or_new: "target p \<Longrightarrow> put p v s = (r, s') \<Longrightarrow> get s' p = get s p \<or> get s' p = Some v"
  using put_ok put_err by (cases r) auto

lemma put_elsewhere: "target p \<Longrightarrow> \<not> scratch q \<Longrightarrow> q \<noteq> p \<Longrightarrow> get (snd (put p v s)) q = get s q"
  using put_frame by (metis prod.collapse)

text \<open>A batch of writes that stops at the first error, as the composite operations make.\<close>

fun put_all :: "('p \<times> 'v) list \<Rightarrow> 's \<Rightarrow> unit result \<times> 's" where
  "put_all [] s = (Inr (), s)"
| "put_all ((p, v) # ws) s =
     (case put p v s of (Inl e, s) \<Rightarrow> (Inl e, s) | (Inr _, s) \<Rightarrow> put_all ws s)"

lemma put_all_frame:
  "put_all ws s = (r, s') \<Longrightarrow> \<forall>(p, _)\<in>set ws. target p \<Longrightarrow> q \<notin> fst ` set ws \<Longrightarrow> \<not> scratch q \<Longrightarrow>
   get s' q = get s q"
proof (induction ws arbitrary: s)
  case (Cons w ws)
  obtain p v where w: "w = (p, v)" by (cases w)
  obtain r1 s1 where s1: "put p v s = (r1, s1)" by (cases "put p v s")
  have "get s1 q = get s q" using put_frame [OF _ s1] Cons.prems w by auto
  then show ?case using Cons s1 w by (cases r1) auto
qed simp

lemma put_all_ok:
  "put_all ws s = (Inr u, s') \<Longrightarrow> \<forall>(p, _)\<in>set ws. target p \<Longrightarrow> distinct (map fst ws) \<Longrightarrow> (p, v) \<in> set ws \<Longrightarrow>
   get s' p = Some v"
proof (induction ws arbitrary: s)
  case (Cons w ws)
  obtain p1 v1 where w: "w = (p1, v1)" by (cases w)
  obtain u1 s1 where s1: "put p1 v1 s = (Inr u1, s1)" "put_all ws s1 = (Inr u, s')"
    using Cons.prems(1) w by (auto split: prod.splits sum.splits)
  show ?case
  proof (cases "(p, v) = w")
    case True
    have "get s1 p = Some v" using put_ok [OF _ s1(1)] Cons.prems True w by auto
    moreover have "p \<notin> fst ` set ws" using Cons.prems(3) True by force
    ultimately show ?thesis
      using put_all_frame [OF s1(2)] target_not_scratch Cons.prems(2) True w by fastforce
  next
    case False
    then show ?thesis using Cons.IH [OF s1(2)] Cons.prems by auto
  qed
qed simp

end

locale creating_files = durable_files get put target scratch
  for get :: "'s \<Rightarrow> 'p \<Rightarrow> 'v option" and put :: "'p \<Rightarrow> 'v \<Rightarrow> 's \<Rightarrow> unit result \<times> 's"
    and target :: "'p \<Rightarrow> bool" and scratch :: "'p \<Rightarrow> bool" +
  fixes make :: "'p \<Rightarrow> 'v \<Rightarrow> 's \<Rightarrow> bool result \<times> 's"
    and exists_at :: "'s \<Rightarrow> 'p \<Rightarrow> bool"
  assumes absent: "\<not> exists_at s p \<Longrightarrow> get s p = None"
    and make_ok: "target p \<Longrightarrow> make p v s = (Inr True, s') \<Longrightarrow> \<not> exists_at s p \<and> get s' p = Some v"
    and make_taken: "target p \<Longrightarrow> make p v s = (Inr False, s') \<Longrightarrow> exists_at s p \<and> get s' p = get s p"
    and make_err: "target p \<Longrightarrow> make p v s = (Inl e, s') \<Longrightarrow> get s' p = get s p"
    and make_frame: "target p \<Longrightarrow> make p v s = (r, s') \<Longrightarrow> q \<noteq> p \<Longrightarrow> \<not> scratch q \<Longrightarrow> get s' q = get s q"
begin

text \<open>Making a file never loses what any path held.\<close>

lemma make_keeps: "target p \<Longrightarrow> make p v s = (r, s') \<Longrightarrow> \<not> scratch q \<Longrightarrow> get s q = Some w \<Longrightarrow> get s' q = Some w"
proof -
  assume a: "target p" "make p v s = (r, s')" "\<not> scratch q" "get s q = Some w"
  show ?thesis
  proof (cases "q = p")
    case True
    have e: "exists_at s p" using absent [of s p] a(4) True by auto
    show ?thesis
    proof (cases r)
      case (Inl e)
      then show ?thesis using make_err [OF a(1)] a True by auto
    next
      case (Inr b)
      then show ?thesis using make_ok [OF a(1)] make_taken [OF a(1)] a e True by (cases b) auto
    qed
  qed (use a make_frame in auto)
qed

end

end
