(* ===== verification/File_Store_Laws.thy ===== *)
theory File_Store_Laws
  imports File_Store Durable_Files
begin

section \<open>Laws of the file layer\<close>

text \<open>
  What each call does to the tree, whatever the schedule of faults: first the calls one by one, then
  \<^verbatim>\<open>atomic_write\<close> and \<^verbatim>\<open>atomic_create\<close>, which are shown to meet the contracts of \<^verbatim>\<open>Durable_Files\<close>.
\<close>

subsection \<open>One call\<close>

abbreviation look :: "store \<Rightarrow> path \<Rightarrow> node option" where
  "look st p \<equiv> map_of (st_tree st) p"

lemma fault_error_simps [simp]:
  "fault_error f \<noteq> NotFoundErr" "fault_error f \<noteq> ExistsErr" "NotFoundErr \<noteq> fault_error f" "ExistsErr \<noteq> fault_error f"
  by (simp_all add: fault_error_def)

lemma sysE:
  assumes "sys f st = (r, st')"
  obtains (fault) e where "r = Inl (fault_error e)" "st_tree st' = st_tree st" "st_faults st \<noteq> []"
  | (run) "r = fst (f (st_tree st))" "st_tree st' = snd (f (st_tree st))"
  using assms by (cases "f (st_tree st)") (auto simp: sys_def Let_def split: list.splits option.splits)

lemma sys_fields:
  assumes "sys f st = (r, st')"
  shows "st_pid st' = st_pid st \<and> st_next_temp st' = st_next_temp st \<and> st_next_create st' = st_next_create st
    \<and> st_next_trash st' = st_next_trash st \<and> length (st_faults st') \<le> length (st_faults st)"
  using assms by (cases "f (st_tree st)") (auto simp: sys_def Let_def split: list.splits option.splits)

declare update_conv [simp] delete_conv [simp]

lemma fs_create_new_effect:
  assumes "fs_create_new p m st = (r, st')"
  shows "(\<forall>q. q \<noteq> p \<longrightarrow> look st' q = look st q)
    \<and> (r = Inr () \<longrightarrow> look st p = None \<and> look st' p = Some (NFile [] m))
    \<and> (r \<noteq> Inr () \<longrightarrow> st_tree st' = st_tree st)"
  using assms unfolding fs_create_new_def
  by (elim sysE) (auto split: if_splits)

lemma fs_write_all_effect:
  assumes "fs_write_all p b st = (r, st')"
  shows "(\<forall>q. q \<noteq> p \<longrightarrow> look st' q = look st q)
    \<and> (\<forall>b0 m. r = Inr () \<longrightarrow> look st p = Some (NFile b0 m) \<longrightarrow> look st' p = Some (NFile b m))"
proof -
  have frame: "map_of (set_contents p c t) q = map_of t q" if "q \<noteq> p" for c t q
    using that by (auto simp: set_contents_def split: option.splits node.splits)
  have same: "map_of (set_contents p c t) p = Some (NFile c m)" if "map_of t p = Some (NFile b0 m)" for c t b0 m
    using that by (simp add: set_contents_def)
  show ?thesis
    using assms unfolding fs_write_all_def
    by (auto simp: frame same elim!: sysE split: list.splits option.splits)
qed

lemma fs_sync_effect: "fs_sync st = (r, st') \<Longrightarrow> st_tree st' = st_tree st"
  unfolding fs_sync_def by (elim sysE) auto

lemma fs_read_effect:
  assumes "fs_read p st = (r, st')"
  shows "st_tree st' = st_tree st
    \<and> (\<forall>b. r = Inr b \<longrightarrow> (\<exists>m. look st p = Some (NFile b m)))
    \<and> (r = Inl NotFoundErr \<longrightarrow> look st p = None)"
  using assms unfolding fs_read_def
  by (elim sysE) (auto split: option.splits node.splits)

lemma fs_mode_effect:
  assumes "fs_mode p st = (r, st')"
  shows "st_tree st' = st_tree st
    \<and> (\<forall>m b k. r = Inr m \<longrightarrow> look st p = Some (NFile b k) \<longrightarrow> m = k)
    \<and> (r = Inl NotFoundErr \<longrightarrow> look st p = None) \<and> (\<forall>m. r = Inr m \<longrightarrow> look st p \<noteq> None)"
  using assms unfolding fs_mode_def
  by (elim sysE) (auto split: option.splits node.splits)

lemma fs_set_mode_effect:
  assumes "fs_set_mode p m st = (r, st')"
  shows "(\<forall>q. q \<noteq> p \<longrightarrow> look st' q = look st q)
    \<and> (\<forall>b k. r = Inr () \<longrightarrow> look st p = Some (NFile b k) \<longrightarrow> look st' p = Some (NFile b m))"
  using assms unfolding fs_set_mode_def
  by (elim sysE) (auto split: option.splits node.splits)

lemma fs_remove_file_effect:
  assumes "fs_remove_file p st = (r, st')"
  shows "(\<forall>q. q \<noteq> p \<longrightarrow> look st' q = look st q)
    \<and> (r = Inr () \<longrightarrow> look st' p = None) \<and> (r \<noteq> Inr () \<longrightarrow> st_tree st' = st_tree st)
    \<and> (look st p = Some NDir \<longrightarrow> look st' p = Some NDir)"
  using assms unfolding fs_remove_file_def
  by (elim sysE) (auto split: option.splits node.splits)

lemma fs_rename_file_effect:
  assumes "fs_rename a b st = (r, st')" and "look st a = Some (NFile c m)" and "a \<noteq> b"
  shows "(\<forall>q. q \<noteq> a \<longrightarrow> q \<noteq> b \<longrightarrow> look st' q = look st q)
    \<and> (r = Inr () \<longrightarrow> look st' b = Some (NFile c m) \<and> look st' a = None \<and> look st b \<noteq> Some NDir)
    \<and> (r \<noteq> Inr () \<longrightarrow> st_tree st' = st_tree st)"
  using assms unfolding fs_rename_def
  by (elim sysE) (auto split: if_splits)

lemma fs_hard_link_effect:
  assumes "fs_hard_link a b st = (r, st')"
  shows "(\<forall>q. q \<noteq> b \<longrightarrow> look st' q = look st q)
    \<and> (r = Inr () \<longrightarrow> look st b = None \<and> look st' b = look st a \<and> (\<exists>c m. look st a = Some (NFile c m)))
    \<and> (r \<noteq> Inr () \<longrightarrow> st_tree st' = st_tree st)
    \<and> (r = Inl ExistsErr \<longrightarrow> look st b \<noteq> None)"
  using assms unfolding fs_hard_link_def
  by (elim sysE) (auto split: option.splits node.splits if_splits)

lemma cleanup_effect:
  "(\<forall>q. q \<noteq> p \<longrightarrow> look (cleanup p st) q = look st q)"
  using fs_remove_file_effect [of p st] by (cases "fs_remove_file p st") (auto simp: cleanup_def)

subsection \<open>Temporary files\<close>

definition scratch_path :: "path \<Rightarrow> bool" where
  "scratch_path p \<longleftrightarrow> p \<noteq> [] \<and> is_burlmd_scratch_name (last p)"

definition file_path :: "path \<Rightarrow> bool" where
  "file_path p \<longleftrightarrow> p \<noteq> [] \<and> last p \<noteq> [] \<and> \<not> scratch_path p"

lemma digit_char: "(n::nat) < 10 \<Longrightarrow> is_ascii_digit (char_of (48 + n))"
  by (simp add: is_ascii_digit_def byte_def)

lemma is_decimal_decimal: "is_decimal (decimal n)"
proof (induction n rule: decimal.induct)
  case (1 n)
  then show ?case
    by (subst decimal.simps) (auto simp: is_decimal_def digit_char)
qed

definition digits_value :: "string \<Rightarrow> nat" where
  "digits_value s = foldl (\<lambda>v c. 10 * v + (byte c - 48)) 0 s"

lemma digits_value_decimal: "digits_value (decimal n) = n"
proof (induction n rule: decimal.induct)
  case (1 n)
  have b: "byte (char_of (48 + k)) = 48 + k" if "k < 10" for k :: nat
    using that by (simp add: byte_def)
  show ?case
  proof (cases "n < 10")
    case True
    then show ?thesis by (subst decimal.simps) (simp add: digits_value_def b)
  next
    case False
    then show ?thesis
      using 1 by (subst decimal.simps) (simp add: digits_value_def b)
  qed
qed

lemma decimal_inj: "decimal m = decimal n \<longleftrightarrow> m = n"
  using digits_value_decimal by metis

lemma decimal_no_dot: "CHR ''.'' \<notin> set (decimal n)"
  using is_decimal_decimal [of n]
  by (auto simp: is_decimal_def list_all_iff is_ascii_digit_def byte_def)

lemma temp_path_scratch: "last p \<noteq> [] \<Longrightarrow> scratch_path (temp_path pid p n)"
  using temp_name_is_scratch [of "last p" "decimal pid" "decimal n"] is_decimal_decimal
  by (simp add: temp_path_def scratch_path_def)

lemma temp_path_other:
  "file_path p \<Longrightarrow> \<not> scratch_path q \<Longrightarrow> temp_path pid p n \<noteq> q \<and> q \<noteq> temp_path pid p n"
  using temp_path_scratch file_path_def by metis

lemma write_temp_effect:
  assumes "write_temp temp b st = (r, st')"
  shows "(\<forall>q. q \<noteq> temp \<longrightarrow> look st' q = look st q)
    \<and> (r = Inr () \<longrightarrow> look st' temp = Some (NFile b 384))"
proof -
  obtain r1 s1 where 1: "fs_create_new temp 384 st = (r1, s1)" by (cases "fs_create_new temp 384 st")
  obtain r2 s2 where 2: "fs_write_all temp b s1 = (r2, s2)" by (cases "fs_write_all temp b s1")
  obtain r3 s3 where 3: "fs_sync s2 = (r3, s3)" by (cases "fs_sync s2")
  show ?thesis
    using assms 1 2 3 fs_create_new_effect [OF 1] fs_write_all_effect [OF 2] fs_sync_effect [OF 3]
    by (auto simp: write_temp_def split: sum.splits)
qed

lemma carry_permissions_effect:
  assumes "carry_permissions_forward p temp st = (r, st')" and "p \<noteq> temp" and "look st temp = Some (NFile b k)"
  shows "(\<forall>q. q \<noteq> temp \<longrightarrow> look st' q = look st q)
    \<and> (r = Inr () \<longrightarrow> (\<exists>m. look st' temp = Some (NFile b m)
         \<and> (case look st p of None \<Rightarrow> m = k | Some (NFile _ k') \<Rightarrow> m = k' | Some NDir \<Rightarrow> True)))"
proof -
  obtain r1 s1 where 1: "fs_mode p st = (r1, s1)" by (cases "fs_mode p st")
  have t: "st_tree s1 = st_tree st" using fs_mode_effect [OF 1] by simp
  show ?thesis
  proof (cases r1)
    case (Inl e)
    then show ?thesis
      using assms 1 t fs_mode_effect [OF 1] by (cases e) (auto simp: carry_permissions_forward_def)
  next
    case (Inr m)
    then have "fs_set_mode temp m s1 = (r, st')" using assms(1) 1 by (simp add: carry_permissions_forward_def)
    from fs_set_mode_effect [OF this] show ?thesis
      using t Inr assms fs_mode_effect [OF 1] by (auto split: option.splits node.splits)
  qed
qed

subsection \<open>Publishing\<close>

lemma atomic_write_effect:
  assumes "atomic_write p b st = (r, st')" and p: "file_path p"
  shows "(\<forall>q. q \<noteq> p \<longrightarrow> q \<noteq> temp_path (st_pid st) p (st_next_temp st) \<longrightarrow> look st' q = look st q)
    \<and> (r \<noteq> Inr () \<longrightarrow> look st' p = look st p)
    \<and> (r = Inr () \<longrightarrow> look st p \<noteq> Some NDir
         \<and> look st' p = Some (NFile b (case look st p of Some (NFile _ m) \<Rightarrow> m | _ \<Rightarrow> 384)))"
proof -
  let ?t = "temp_path (st_pid st) p (st_next_temp st)"
  let ?s0 = "st\<lparr>st_next_temp := Suc (st_next_temp st)\<rparr>"
  have pt: "p \<noteq> ?t" "p \<noteq> []" using temp_path_other [OF p, of p] p by (auto simp: file_path_def)
  obtain r1 s1 where 1: "write_temp ?t b ?s0 = (r1, s1)" by (cases "write_temp ?t b ?s0")
  note e1 = write_temp_effect [OF 1]
  show ?thesis
  proof (cases r1)
    case (Inl e)
    then have "r = Inl (io_error e)" "st' = cleanup ?t s1"
      using assms(1) 1 pt(2) by (auto simp: atomic_write_def Let_def)
    then show ?thesis using e1 cleanup_effect [of ?t s1] pt by auto
  next
    case ok1: (Inr u)
    obtain r2 s2 where 2: "carry_permissions_forward p ?t s1 = (r2, s2)" by (cases "carry_permissions_forward p ?t s1")
    note e2 = carry_permissions_effect [OF 2 pt(1)]
    have t1: "look s1 ?t = Some (NFile b 384)" using e1 ok1 by simp
    show ?thesis
    proof (cases r2)
      case (Inl e)
      then have "r = Inl (io_error e)" "st' = cleanup ?t s2"
        using assms(1) 1 2 ok1 pt(2) by (auto simp: atomic_write_def Let_def)
      then show ?thesis using e1 e2 [OF t1] cleanup_effect [of ?t s2] pt by auto
    next
      case ok2: (Inr u2)
      obtain m where m: "look s2 ?t = Some (NFile b m)"
          "case look s1 p of None \<Rightarrow> m = 384 | Some (NFile _ k') \<Rightarrow> m = k' | Some NDir \<Rightarrow> True"
        using e2 [OF t1] ok2 by auto
      obtain r3 s3 where 3: "fs_rename ?t p s2 = (r3, s3)" by (cases "fs_rename ?t p s2")
      note e3 = fs_rename_file_effect [OF 3 m(1) pt(1) [symmetric]]
      show ?thesis
      proof (cases r3)
        case (Inl e)
        then have "r = Inl (io_error e)" "st' = cleanup ?t s3"
          using assms(1) 1 2 3 ok1 ok2 pt(2) by (auto simp: atomic_write_def Let_def)
        then show ?thesis using Inl e1 e2 [OF t1] e3 cleanup_effect [of ?t s3] pt by auto
      next
        case ok3: (Inr u3)
        then have "r = Inr ()" "st' = s3"
          using assms(1) 1 2 3 ok1 ok2 pt(2) by (auto simp: atomic_write_def Let_def)
        moreover have "look s1 p = look st p" "look s2 p = look st p" using e1 e2 [OF t1] pt by auto
        ultimately show ?thesis
          using ok3 e1 e2 [OF t1] e3 m(2) pt by (auto split: option.splits node.splits)
      qed
    qed
  qed
qed

lemma atomic_create_effect:
  assumes "atomic_create p b st = (r, st')" and p: "file_path p"
  shows "(\<forall>q. q \<noteq> p \<longrightarrow> q \<noteq> temp_path (st_pid st) p (st_next_create st) \<longrightarrow> look st' q = look st q)
    \<and> (r \<noteq> Inr True \<longrightarrow> look st' p = look st p)
    \<and> (r = Inr True \<longrightarrow> look st p = None \<and> look st' p = Some (NFile b 384))
    \<and> (r = Inr False \<longrightarrow> look st p \<noteq> None)"
proof -
  let ?t = "temp_path (st_pid st) p (st_next_create st)"
  let ?s0 = "st\<lparr>st_next_create := Suc (st_next_create st)\<rparr>"
  have pt: "p \<noteq> ?t" "p \<noteq> []" using temp_path_other [OF p, of p] p by (auto simp: file_path_def)
  obtain r1 s1 where 1: "write_temp ?t b ?s0 = (r1, s1)" by (cases "write_temp ?t b ?s0")
  note e1 = write_temp_effect [OF 1]
  show ?thesis
  proof (cases r1)
    case (Inl e)
    then have "r = Inl (io_error e)" "st' = cleanup ?t s1"
      using assms(1) 1 pt(2) by (auto simp: atomic_create_def Let_def)
    then show ?thesis using e1 cleanup_effect [of ?t s1] pt by auto
  next
    case ok1: (Inr u)
    obtain r2 s2 where 2: "fs_hard_link ?t p s1 = (r2, s2)" by (cases "fs_hard_link ?t p s1")
    note e2 = fs_hard_link_effect [OF 2]
    have "st' = cleanup ?t s2 \<and> (r = Inr True \<longleftrightarrow> r2 = Inr ()) \<and> (r = Inr False \<longleftrightarrow> r2 = Inl ExistsErr)"
      using assms(1) 1 2 ok1 pt(2)
      by (cases r2; cases "projl r2") (auto simp: atomic_create_def Let_def)
    then show ?thesis using ok1 e1 e2 cleanup_effect [of ?t s2] pt by auto
  qed
qed

subsection \<open>Calls that cannot fail\<close>

lemma sys_quiet:
  "st_faults st = [] \<Longrightarrow> sys f st = (fst (f (st_tree st)), st\<lparr>st_tree := snd (f (st_tree st)), st_faults := []\<rparr>)"
  by (cases "f (st_tree st)") (simp add: sys_def)

lemma atomic_write_quiet:
  assumes "st_faults st = []" and "look st (temp_path (st_pid st) p (st_next_temp st)) = None" and "file_path p"
    and "look st (butlast p) = Some NDir" and "look st p \<noteq> Some NDir"
  shows "\<exists>st'. atomic_write p b st = (Inr (), st')"
proof -
  let ?t = "temp_path (st_pid st) p (st_next_temp st)"
  let ?s0 = "st\<lparr>st_next_temp := Suc (st_next_temp st)\<rparr>"
  have p: "p \<noteq> []" using assms(3) by (simp add: file_path_def)
  have t: "look st ?t = None" "butlast ?t = butlast p" "?t \<noteq> p"
    using assms(2) temp_path_other [OF assms(3), of p] assms(3)
    by (auto simp: temp_path_def file_path_def)
  have bt: "butlast p \<noteq> ?t" using t(1) assms(4) by auto
  have f: "st_faults ?s0 = []" using assms(1) by simp
  obtain s1 where s1: "write_temp ?t b ?s0 = (Inr (), s1)" "st_faults s1 = []"
    using f t by (auto simp: write_temp_def fs_create_new_def sys_quiet assms(4) fs_write_all_def fs_sync_def)
  note e1 = write_temp_effect [OF s1(1)]
  have p1: "look s1 p = look st p" "look s1 ?t = Some (NFile b 384)" using e1 t(3) by auto
  obtain s2 where s2: "carry_permissions_forward p ?t s1 = (Inr (), s2)" "st_faults s2 = []"
    using s1(2) p1 assms(5)
    by (cases "look st p"; cases "the (look st p)")
       (auto simp: carry_permissions_forward_def fs_mode_def fs_set_mode_def sys_quiet)
  obtain m where m: "look s2 ?t = Some (NFile b m)" and e2: "\<forall>q. q \<noteq> ?t \<longrightarrow> look s2 q = look s1 q"
    using carry_permissions_effect [OF s2(1) t(3) [symmetric] p1(2)] by auto
  have "look s2 p \<noteq> Some NDir" "look s2 (butlast p) = Some NDir"
    using e1 e2 t(3) bt assms(4,5) by auto
  then have "\<exists>s3. fs_rename ?t p s2 = (Inr (), s3)"
    using s2(2) m by (simp add: fs_rename_def sys_quiet)
  then show ?thesis using s1(1) s2(1) p by (auto simp: atomic_write_def Let_def)
qed

subsection \<open>The contracts\<close>

definition file_at :: "store \<Rightarrow> path \<Rightarrow> string option" where
  "file_at st p = (case look st p of Some (NFile b _) \<Rightarrow> Some b | _ \<Rightarrow> None)"

interpretation files: durable_files file_at atomic_write file_path scratch_path
proof
  fix p v s u s' e r q
  show "file_path p \<Longrightarrow> \<not> scratch_path p" by (simp add: file_path_def)
  show "file_path p \<Longrightarrow> atomic_write p v s = (Inr u, s') \<Longrightarrow> file_at s' p = Some v"
    using atomic_write_effect [of p v s "Inr u" s'] by (simp add: file_at_def)
  show "file_path p \<Longrightarrow> atomic_write p v s = (Inl e, s') \<Longrightarrow> file_at s' p = file_at s p"
    using atomic_write_effect [of p v s "Inl e" s'] by (simp add: file_at_def)
  show "file_path p \<Longrightarrow> atomic_write p v s = (r, s') \<Longrightarrow> q \<noteq> p \<Longrightarrow> \<not> scratch_path q \<Longrightarrow> file_at s' q = file_at s q"
    using atomic_write_effect [of p v s r s'] by (simp add: file_at_def temp_path_other)
qed

interpretation files: creating_files file_at atomic_write file_path scratch_path atomic_create "\<lambda>st p. look st p \<noteq> None"
proof
  fix p v s s' e r q
  show "\<not> look s p \<noteq> None \<Longrightarrow> file_at s p = None" by (simp add: file_at_def)
  show "file_path p \<Longrightarrow> atomic_create p v s = (Inr True, s') \<Longrightarrow> \<not> look s p \<noteq> None \<and> file_at s' p = Some v"
    using atomic_create_effect [of p v s "Inr True" s'] by (simp add: file_at_def)
  show "file_path p \<Longrightarrow> atomic_create p v s = (Inr False, s') \<Longrightarrow> look s p \<noteq> None \<and> file_at s' p = file_at s p"
    using atomic_create_effect [of p v s "Inr False" s'] by (simp add: file_at_def)
  show "file_path p \<Longrightarrow> atomic_create p v s = (Inl e, s') \<Longrightarrow> file_at s' p = file_at s p"
    using atomic_create_effect [of p v s "Inl e" s'] by (simp add: file_at_def)
  show "file_path p \<Longrightarrow> atomic_create p v s = (r, s') \<Longrightarrow> q \<noteq> p \<Longrightarrow> \<not> scratch_path q \<Longrightarrow> file_at s' q = file_at s q"
    using atomic_create_effect [of p v s r s'] by (simp add: file_at_def temp_path_other)
qed

section \<open>Properties of publishing\<close>

text \<open>C23: Publishing over a file is all or nothing, whatever fails and wherever the process dies: the file holds
  its old bytes or the new ones in full, new exactly when success is reported, it keeps the permissions it
  had, a new file is private, and no other path is touched but a temporary name. When no call fails,
  the directory exists and the temporary name is free, the write succeeds.\<close>

theorem atomic_write_all_or_nothing:
  assumes "atomic_write p bytes st = (r, st')" and "file_path p"
  shows "(r \<noteq> Inr () \<longrightarrow> map_of (st_tree st') p = map_of (st_tree st) p)
    \<and> (r = Inr () \<longrightarrow> map_of (st_tree st') p = Some (NFile bytes
         (case map_of (st_tree st) p of Some (NFile _ m) \<Rightarrow> m | _ \<Rightarrow> 384)))
    \<and> (\<forall>q. q \<noteq> p \<longrightarrow> \<not> scratch_path q \<longrightarrow> map_of (st_tree st') q = map_of (st_tree st) q)
    \<and> (st_faults st = [] \<and> map_of (st_tree st) (butlast p) = Some NDir \<and> map_of (st_tree st) p \<noteq> Some NDir
        \<and> map_of (st_tree st) (temp_path (st_pid st) p (st_next_temp st)) = None \<longrightarrow> r = Inr ())"
proof -
  have "r = Inr ()" if "st_faults st = []" "look st (butlast p) = Some NDir" "look st p \<noteq> Some NDir"
      "look st (temp_path (st_pid st) p (st_next_temp st)) = None"
    using atomic_write_quiet [OF that(1,4) assms(2) that(2,3), of bytes] assms(1) by auto
  then show ?thesis
    using atomic_write_effect [OF assms] temp_path_other [OF assms(2)] by (metis (no_types, lifting))
qed

definition one_note :: "fault option list \<Rightarrow> store" where
  "one_note faults = \<lparr>st_tree = [([], NDir), ([''a.md''], NFile ''old'' 420)], st_faults = faults, st_pid = 7,
     st_next_temp = 0, st_next_create = 0, st_next_trash = 0\<rparr>"

lemma atomic_write_all_or_nothing_witness:
  "map_of (st_tree (snd (atomic_write [''a.md''] ''new'' (one_note [None, Some (Fault True 1)])))) [''a.md'']
     = Some (NFile ''old'' 420)
   \<and> map_of (st_tree (snd (atomic_write [''a.md''] ''new'' (one_note [])))) [''a.md''] = Some (NFile ''new'' 420)"
proof -
  have p: "file_path [''a.md'']" by code_simp
  obtain r st r' st' where e: "atomic_write [''a.md''] ''new'' (one_note [None, Some (Fault True 1)]) = (r, st)"
      "atomic_write [''a.md''] ''new'' (one_note []) = (r', st')"
    by (metis surj_pair)
  have "fst (atomic_write [''a.md''] ''new'' (one_note [None, Some (Fault True 1)])) = Inl DiskFull"
    "fst (atomic_write [''a.md''] ''new'' (one_note [])) = Inr ()" by code_simp+
  then have "r \<noteq> Inr ()" "r' = Inr ()" using e by auto
  then show ?thesis
    using atomic_write_all_or_nothing [OF e(1) p] atomic_write_all_or_nothing [OF e(2) p] e
    by (simp add: one_note_def)
qed

text \<open>Creating a note never replaces anything: whatever fails, a path that was taken keeps what it had, the
  answer says whether the name was free, and a success publishes the whole file.\<close>

theorem atomic_create_never_replaces:
  assumes "atomic_create p bytes st = (r, st')" and "file_path p"
  shows "(r = Inr True \<longrightarrow> map_of (st_tree st) p = None \<and> map_of (st_tree st') p = Some (NFile bytes 384))
    \<and> (r = Inr False \<longrightarrow> map_of (st_tree st) p \<noteq> None)
    \<and> (\<forall>q. \<not> scratch_path q \<longrightarrow> q \<noteq> p \<or> r \<noteq> Inr True \<longrightarrow> map_of (st_tree st') q = map_of (st_tree st) q)"
  using atomic_create_effect [OF assms] temp_path_other [OF assms(2)] by (metis (no_types, lifting))

lemma atomic_create_never_replaces_witness:
  "map_of (st_tree (snd (atomic_create [''a.md''] ''new'' (one_note [])))) [''a.md''] = Some (NFile ''old'' 420)
   \<and> map_of (st_tree (snd (atomic_create [''b.md''] ''new'' (one_note [])))) [''b.md''] = Some (NFile ''new'' 384)"
proof -
  have p: "file_path [''a.md'']" "file_path [''b.md'']" by code_simp+
  obtain r st r' st' where e: "atomic_create [''a.md''] ''new'' (one_note []) = (r, st)"
      "atomic_create [''b.md''] ''new'' (one_note []) = (r', st')"
    by (metis surj_pair)
  have "fst (atomic_create [''a.md''] ''new'' (one_note [])) = Inr False"
    "fst (atomic_create [''b.md''] ''new'' (one_note [])) = Inr True" by code_simp+
  then have "r = Inr False" "r' = Inr True" using e by auto
  moreover have "\<not> scratch_path [''a.md'']" using p by (simp add: file_path_def)
  ultimately show ?thesis
    using atomic_create_never_replaces [OF e(1) p(1)] atomic_create_never_replaces [OF e(2) p(2)] e
    by (simp add: one_note_def)
qed

end
