(* ===== verification/File_Journal.thy ===== *)
theory File_Journal
  imports File_Store_Laws
begin

section \<open>The journal of a composite file operation\<close>

text \<open>
  \<^verbatim>\<open>FileJournal\<close> of \<^verbatim>\<open>workspace/lifecycle.rs\<close>: every step a composite operation takes on the bundle, with what
  is needed to undo it. The journal is the list of steps beside the store; \<^verbatim>\<open>commit\<close> discards the entries a
  deletion parked, \<^verbatim>\<open>rollback\<close> unwinds newest first, and a journal that is dropped discards its trash.
\<close>

datatype file_step =
    Overwrote path "string option"
  | Renamed path path
  | Trashed path path

type_synonym journal = "store \<times> file_step list"

definition journal_overwrite :: "path \<Rightarrow> string \<Rightarrow> journal \<Rightarrow> unit result \<times> journal" where
  "journal_overwrite p bytes j =
     (case fs_read p (fst j) of
        (Inl e, st) \<Rightarrow>
          if e = NotFoundErr then
            (case atomic_write p bytes st of
               (Inl e, st) \<Rightarrow> (Inl e, (st, snd j))
             | (Inr _, st) \<Rightarrow> (Inr (), (st, snd j @ [Overwrote p None])))
          else (Inl (IoError ''read''), (st, snd j))
      | (Inr previous, st) \<Rightarrow>
          (case atomic_write p bytes st of
             (Inl e, st) \<Rightarrow> (Inl e, (st, snd j))
           | (Inr _, st) \<Rightarrow> (Inr (), (st, snd j @ [Overwrote p (Some previous)]))))"

definition make_parent :: "path \<Rightarrow> unit io" where
  "make_parent to st = (if to = [] then (Inr (), st) else fs_create_dir_all (butlast to) st)"

definition journal_rename :: "path \<Rightarrow> path \<Rightarrow> journal \<Rightarrow> unit result \<times> journal" where
  "journal_rename from_p to j =
     (case make_parent to (fst j) of
        (Inl e, st) \<Rightarrow> (Inl (IoError ''create''), (st, snd j))
      | (Inr _, st) \<Rightarrow>
          (case fs_rename from_p to st of
             (Inl e, st) \<Rightarrow> (Inl (IoError ''rename''), (st, snd j))
           | (Inr _, st) \<Rightarrow> (Inr (), (st, snd j @ [Renamed from_p to]))))"

definition trash_path :: "nat \<Rightarrow> path \<Rightarrow> nat \<Rightarrow> path" where
  "trash_path pid p n = butlast p @ [trash_prefix @ last p @ ''.'' @ decimal pid @ ''.'' @ decimal n]"

definition journal_trash :: "path \<Rightarrow> journal \<Rightarrow> unit result \<times> journal" where
  "journal_trash p j =
     (case fs_mode p (fst j) of
        (Inl _, st) \<Rightarrow> (Inr (), (st, snd j))
      | (Inr _, st) \<Rightarrow>
          if p = [] then (Inl (IoError ''no parent''), (st, snd j))
          else
            (let trash = trash_path (st_pid st) p (st_next_trash st);
                 st = st\<lparr>st_next_trash := Suc (st_next_trash st)\<rparr>
             in case fs_rename p trash st of
                  (Inl e, st) \<Rightarrow> (Inl (IoError ''remove''), (st, snd j))
                | (Inr _, st) \<Rightarrow> (Inr (), (st, snd j @ [Trashed p trash]))))"

text \<open>Undoing one step: whether it failed, and the store it leaves.\<close>

fun undo_step :: "file_step \<Rightarrow> store \<Rightarrow> string option \<times> store" where
  "undo_step (Overwrote p (Some bytes)) st =
     (case atomic_write p bytes st of (Inl _, st) \<Rightarrow> (Some ''restore'', st) | (Inr _, st) \<Rightarrow> (None, st))"
| "undo_step (Overwrote p None) st =
     (case fs_remove_file p st of (Inl _, st) \<Rightarrow> (Some ''remove'', st) | (Inr _, st) \<Rightarrow> (None, st))"
| "undo_step (Renamed from_p to) st =
     (case fs_rename to from_p st of (Inl _, st) \<Rightarrow> (Some ''move back'', st) | (Inr _, st) \<Rightarrow> (None, st))"
| "undo_step (Trashed original trash) st =
     (case fs_rename trash original st of (Inl _, st) \<Rightarrow> (Some ''restore'', st) | (Inr _, st) \<Rightarrow> (None, st))"

fun undo_all :: "file_step list \<Rightarrow> store \<Rightarrow> string list \<times> store" where
  "undo_all [] st = ([], st)"
| "undo_all (s # steps) st =
     (let (f, st) = undo_step s st; (fs, st) = undo_all steps st
      in ((case f of None \<Rightarrow> fs | Some m \<Rightarrow> m # fs), st))"

text \<open>The summary of a rollback: how many of the steps failed and the first failure.\<close>

definition rollback :: "journal \<Rightarrow> (nat \<times> nat \<times> string) option \<times> journal" where
  "rollback j =
     (let (failures, st) = undo_all (rev (snd j)) (fst j) in
      (if failures = [] then None else Some (length failures, length (snd j), hd failures), (st, [])))"

definition fs_is_dir :: "path \<Rightarrow> store \<Rightarrow> bool \<times> store" where
  "fs_is_dir p st =
     (case sys (\<lambda>t. (Inr (map_of t p = Some NDir), t)) st of
        (Inl _, st) \<Rightarrow> (False, st)
      | (Inr b, st) \<Rightarrow> (b, st))"

definition discard_trash :: "file_step \<Rightarrow> store \<Rightarrow> unit result \<times> store" where
  "discard_trash step st =
     (case step of
        Trashed _ trash \<Rightarrow>
          (let (d, st) = fs_is_dir trash st;
               (r, st) = (if d then fs_remove_dir_all trash st else fs_remove_file trash st)
           in (if r = Inr () \<or> r = Inl NotFoundErr then Inr () else Inl (IoError ''remove recovery trash''), st))
      | _ \<Rightarrow> (Inr (), st))"

fun discard_all :: "file_step list \<Rightarrow> store \<Rightarrow> app_error list \<times> store" where
  "discard_all [] st = ([], st)"
| "discard_all (s # steps) st =
     (let (r, st) = discard_trash s st; (fs, st) = discard_all steps st
      in ((case r of Inr _ \<Rightarrow> fs | Inl e \<Rightarrow> e # fs), st))"

definition commit :: "journal \<Rightarrow> unit result \<times> journal" where
  "commit j =
     (let (failures, st) = discard_all (snd j) (fst j) in
      if failures = [] then (Inr (), (st, []))
      else (Inl (IoError ''could not remove recovery trash''), (st, snd j)))"

definition drop_journal :: "journal \<Rightarrow> store" where
  "drop_journal j = snd (discard_all (snd j) (fst j))"

definition rolled_back :: "journal \<Rightarrow> app_error \<Rightarrow> app_error \<times> journal" where
  "rolled_back j err =
     (case rollback j of
        (None, j) \<Rightarrow> (err, j)
      | (Some incomplete, j) \<Rightarrow>
          (restate err (\<lambda>detail. detail @ '' (and undoing it did not fully succeed)''), j))"

definition commit_stage_failure :: "string \<Rightarrow> app_error \<Rightarrow> string list \<Rightarrow> app_error" where
  "commit_stage_failure subject err best_effort =
     restate err (\<lambda>detail.
       subject @ '': the operation completed but is uncommitted: '' @ detail
       @ (if best_effort = [] then [] else '' (also, '' @ join_with ''; '' best_effort @ '')''))"

subsection \<open>A composite operation\<close>

text \<open>The calls an operation makes on its journal, in order, up to the first that fails.\<close>

datatype journal_call = COverwrite path string | CRename path path | CTrash path

fun run_call :: "journal_call \<Rightarrow> journal \<Rightarrow> unit result \<times> journal" where
  "run_call (COverwrite p b) j = journal_overwrite p b j"
| "run_call (CRename a b) j = journal_rename a b j"
| "run_call (CTrash p) j = journal_trash p j"

fun run_calls :: "journal_call list \<Rightarrow> journal \<Rightarrow> unit result \<times> journal" where
  "run_calls [] j = (Inr (), j)"
| "run_calls (c # cs) j =
     (case run_call c j of (Inl e, j) \<Rightarrow> (Inl e, j) | (Inr _, j) \<Rightarrow> run_calls cs j)"

end
