(* ===== verification/File_Journal_Laws.thy ===== *)
theory File_Journal_Laws
  imports File_Journal
begin

section \<open>Trees stay trees\<close>

text \<open>
  No call leaves an entry outside a directory, and a composite operation that is rolled back leaves the
  bundle as it was. Temporary names are the only ones that may differ; \<open>clean\<close> paths have none.
\<close>

subsection \<open>Moving a subtree\<close>

lemma map_of_move_tree:
  assumes "\<not> prefix a b" and "\<not> prefix b a"
  shows "map_of (move_tree t a b) p =
     (if prefix b p then map_of t (a @ drop (length b) p) else if prefix a p then None else map_of t p)"
proof (induction t)
  case (Cons x t)
  obtain q n where x: "x = (q, n)" by (cases x)
  have disj: "\<not> (prefix a r \<and> prefix b r)" for r using assms by (metis prefix_same_cases)
  consider "prefix b q" | "prefix a q" "\<not> prefix b q" | "\<not> prefix a q" "\<not> prefix b q" by blast
  then show ?case
  proof cases
    case 1
    then have "a @ r \<noteq> q" for r using disj [of q] prefixI [of q a r] by metis
    then show ?thesis using 1 Cons x disj [of p] by (auto simp: move_tree_def)
  next
    case 2
    then obtain r where r: "q = a @ r" by (auto simp: prefix_def)
    have "b @ r = p \<longleftrightarrow> prefix b p \<and> a @ drop (length b) p = q" using r by (auto simp: prefix_def)
    then show ?thesis using 2 r Cons x disj [of p] by (auto simp: move_tree_def)
  next
    case 3
    then have "a @ r \<noteq> q" for r by (auto simp: prefix_def)
    then show ?thesis using 3 Cons x by (auto simp: move_tree_def)
  qed
qed (simp add: move_tree_def)

lemma map_of_drop_tree: "map_of (drop_tree t p) q = (if prefix p q then None else map_of t q)"
  by (induction t) (auto simp: drop_tree_def)

lemma has_child_iff:
  "has_child t p \<longleftrightarrow> (\<exists>q. prefix p q \<and> q \<noteq> p \<and> map_of t q \<noteq> None)"
proof
  assume "has_child t p"
  then obtain q n where "(q, n) \<in> set t" "prefix p q" "q \<noteq> p" by (auto simp: has_child_def list_ex_iff)
  then show "\<exists>q. prefix p q \<and> q \<noteq> p \<and> map_of t q \<noteq> None" by (metis weak_map_of_SomeI option.distinct(1))
next
  assume "\<exists>q. prefix p q \<and> q \<noteq> p \<and> map_of t q \<noteq> None"
  then show "has_child t p" by (auto simp: has_child_def list_ex_iff dest!: map_of_SomeD)
qed

subsection \<open>Well-formed trees\<close>

lemma wf_treeI:
  assumes "map_of t [] = Some NDir" and "\<And>p c. map_of t (p @ [c]) \<noteq> None \<Longrightarrow> map_of t p = Some NDir"
  shows "wf_tree t"
  using assms unfolding wf_tree_def by blast

lemma wf_root: "wf_tree t \<Longrightarrow> map_of t [] = Some NDir"
  by (simp add: wf_tree_def)

lemma wf_parent: "wf_tree t \<Longrightarrow> map_of t (p @ [c]) \<noteq> None \<Longrightarrow> map_of t p = Some NDir"
  unfolding wf_tree_def by blast

lemma wf_butlast: "wf_tree t \<Longrightarrow> map_of t p \<noteq> None \<Longrightarrow> map_of t (butlast p) = Some NDir"
  by (cases p rule: rev_cases) (auto simp: wf_tree_def)

lemma wf_ancestor: "wf_tree t \<Longrightarrow> map_of t (p @ q) \<noteq> None \<Longrightarrow> q \<noteq> [] \<Longrightarrow> map_of t p = Some NDir"
proof (induction q rule: rev_induct)
  case (snoc c q)
  then have "map_of t (p @ q) = Some NDir" using wf_parent [of t "p @ q" c] by simp
  then show ?case using snoc by (cases "q = []") auto
qed simp

lemma wf_no_child: "wf_tree t \<Longrightarrow> map_of t p \<noteq> Some NDir \<Longrightarrow> q \<noteq> [] \<Longrightarrow> map_of t (p @ q) = None"
  using wf_ancestor by blast

lemma wf_update:
  assumes "wf_tree t" and "map_of t (butlast p) = Some NDir"
    and "map_of t p \<noteq> Some NDir" and "p \<noteq> []"
  shows "wf_tree (AList.update p n t)"
proof (rule wf_treeI)
  show "map_of (AList.update p n t) [] = Some NDir" using assms(4) wf_root [OF assms(1)] by simp
next
  fix q c assume ne: "map_of (AList.update p n t) (q @ [c]) \<noteq> None"
  have q: "map_of t q = Some NDir"
  proof (cases "q @ [c] = p")
    case True
    then have "butlast p = q" by auto
    then show ?thesis using assms(2) by simp
  next
    case False
    then have "map_of t (q @ [c]) \<noteq> None" using ne by simp
    then show ?thesis by (rule wf_parent [OF assms(1)])
  qed
  then have "q \<noteq> p" using assms(3) by blast
  then show "map_of (AList.update p n t) q = Some NDir" using q by simp
qed

lemma wf_delete:
  assumes "wf_tree t" and "map_of t p \<noteq> Some NDir"
  shows "wf_tree (AList.delete p t)"
proof (rule wf_treeI)
  show "map_of (AList.delete p t) [] = Some NDir" using assms wf_root [OF assms(1)] by auto
next
  fix q c assume ne: "map_of (AList.delete p t) (q @ [c]) \<noteq> None"
  then have "map_of t (q @ [c]) \<noteq> None" by (auto split: if_splits)
  then have q: "map_of t q = Some NDir" by (rule wf_parent [OF assms(1)])
  then have "q \<noteq> p" using assms(2) by blast
  then show "map_of (AList.delete p t) q = Some NDir" using q by simp
qed

lemma wf_drop_tree:
  assumes "wf_tree t" and "p \<noteq> []"
  shows "wf_tree (drop_tree t p)"
proof -
  have "\<not> prefix p q \<and> map_of t q = Some NDir" if "\<not> prefix p (q @ [c])" "map_of t (q @ [c]) \<noteq> None" for q c
    using that wf_parent [OF assms(1), of q c] by auto
  then show ?thesis
    using assms wf_root [OF assms(1)] by (auto simp: wf_tree_def map_of_drop_tree prefix_Nil)
qed

lemma wf_move_tree:
  assumes "wf_tree t" and "map_of t a = Some NDir" and "map_of t (butlast b) = Some NDir"
    and "\<not> prefix a b" and "\<not> has_child t b"
  shows "wf_tree (move_tree t a b)" and "\<not> prefix b a"
proof -
  show ba: "\<not> prefix b a"
  proof
    assume "prefix b a"
    moreover have "a \<noteq> b" using assms(4) by auto
    ultimately show False using assms(2,5) by (auto simp: has_child_iff)
  qed
  have b: "b \<noteq> []" using ba by auto
  have a: "a \<noteq> []" using assms(4) by auto
  note m = map_of_move_tree [OF assms(4) ba]
  have step: "map_of (move_tree t a b) q = Some NDir" if ne: "map_of (move_tree t a b) (q @ [c]) \<noteq> None" for q c
  proof (cases "prefix b (q @ [c])")
    case True
    show ?thesis
    proof (cases "prefix b q")
      case True
      then obtain r where r: "q = b @ r" by (auto simp: prefix_def)
      then have "map_of t ((a @ r) @ [c]) \<noteq> None" using ne by (simp add: m)
      then show ?thesis using wf_parent [OF assms(1)] r by (simp add: m)
    next
      case False
      then have b': "b = q @ [c]" using True by auto
      then have "q = butlast b" by simp
      moreover have "\<not> prefix a q" using assms(4) b' by (auto simp: prefix_def)
      ultimately show ?thesis using assms(3) False by (simp add: m)
    qed
  next
    case False
    then have "\<not> prefix a (q @ [c])" "map_of t (q @ [c]) \<noteq> None" using ne by (auto simp: m split: if_splits)
    moreover have "\<not> prefix b q" using False by (auto simp: prefix_def)
    moreover have "\<not> prefix a q" using calculation(1) by (auto simp: prefix_def)
    ultimately show ?thesis using wf_parent [OF assms(1)] by (simp add: m)
  qed
  show "wf_tree (move_tree t a b)"
    unfolding wf_tree_def using step wf_root [OF assms(1)] a b by (simp add: m prefix_Nil)
qed

subsection \<open>Every call keeps a tree well formed\<close>

lemma wf_sys:
  assumes "sys f st = (r, st')" and "wf_tree (st_tree st)"
    and "wf_tree (st_tree st) \<Longrightarrow> wf_tree (snd (f (st_tree st)))"
  shows "wf_tree (st_tree st')"
  using assms(1) by (elim sysE) (simp_all add: assms)

lemma wf_set_contents: "wf_tree t \<Longrightarrow> wf_tree (set_contents p b t)"
  using wf_update [of t p] wf_butlast [of t p] wf_root [of t]
  by (cases "p = []") (auto simp: set_contents_def split: option.splits node.splits)

lemma wf_mkdir_loop: "wf_tree t \<Longrightarrow> map_of t pre = Some NDir \<Longrightarrow> wf_tree (snd (mkdir_loop t pre cs))"
proof (induction t pre cs rule: mkdir_loop.induct)
  case (2 t pre c cs)
  show ?case
  proof (cases "map_of t (pre @ [c])")
    case None
    then show ?thesis using 2 wf_update [of t "pre @ [c]" NDir] by (simp add: Let_def)
  next
    case (Some n)
    then show ?thesis using 2 by (cases n) (simp_all add: Let_def)
  qed
qed simp

lemma wf_create_new: "fs_create_new p m st = (r, st') \<Longrightarrow> wf_tree (st_tree st) \<Longrightarrow> wf_tree (st_tree st')"
  unfolding fs_create_new_def
  by (erule wf_sys) (auto intro!: wf_update simp: wf_root)

lemma wf_write_all: "fs_write_all p b st = (r, st') \<Longrightarrow> wf_tree (st_tree st) \<Longrightarrow> wf_tree (st_tree st')"
  unfolding fs_write_all_def
  by (auto simp: wf_set_contents split: list.splits option.splits elim!: wf_sys)

lemma wf_set_mode: "fs_set_mode p m st = (r, st') \<Longrightarrow> wf_tree (st_tree st) \<Longrightarrow> wf_tree (st_tree st')"
  unfolding fs_set_mode_def
  by (erule wf_sys)
     (auto intro!: wf_update simp: wf_butlast dest: wf_root split: option.splits node.splits)

lemma wf_remove_file: "fs_remove_file p st = (r, st') \<Longrightarrow> wf_tree (st_tree st) \<Longrightarrow> wf_tree (st_tree st')"
  unfolding fs_remove_file_def
  by (erule wf_sys) (auto intro!: wf_delete split: option.splits node.splits)

lemma wf_remove_dir_all:
  "fs_remove_dir_all p st = (r, st') \<Longrightarrow> p \<noteq> [] \<Longrightarrow> wf_tree (st_tree st) \<Longrightarrow> wf_tree (st_tree st')"
  unfolding fs_remove_dir_all_def
  by (erule wf_sys) (auto intro!: wf_drop_tree split: option.splits node.splits)

lemma wf_hard_link: "fs_hard_link a b st = (r, st') \<Longrightarrow> wf_tree (st_tree st) \<Longrightarrow> wf_tree (st_tree st')"
  unfolding fs_hard_link_def
  by (erule wf_sys) (auto intro!: wf_update dest: wf_root split: option.splits node.splits)

lemma wf_create_dir_all: "fs_create_dir_all p st = (r, st') \<Longrightarrow> wf_tree (st_tree st) \<Longrightarrow> wf_tree (st_tree st')"
  unfolding fs_create_dir_all_def
  by (erule wf_sys) (auto intro!: wf_mkdir_loop simp: wf_root)

lemma wf_rename: "fs_rename a b st = (r, st') \<Longrightarrow> wf_tree (st_tree st) \<Longrightarrow> wf_tree (st_tree st')"
proof -
  have file_case: "wf_tree (AList.update b (NFile c m) (AList.delete a t))"
    if "wf_tree t" "map_of t a = Some (NFile c m)" "map_of t b \<noteq> Some NDir" "map_of t (butlast b) = Some NDir"
    for t a b c m
  proof (intro wf_update wf_delete)
    show "b \<noteq> []" using that wf_root by auto
    show "map_of (AList.delete a t) (butlast b) = Some NDir" using that by auto
    show "map_of (AList.delete a t) b \<noteq> Some NDir" using that by auto
  qed (use that in auto)
  assume "fs_rename a b st = (r, st')" "wf_tree (st_tree st)"
  then show ?thesis
    unfolding fs_rename_def
    by (elim wf_sys) (auto intro!: wf_move_tree file_case split: option.splits node.splits)
qed

end
