(* ===== verification/Journal_Rollback.thy ===== *)
theory Journal_Rollback
  imports File_Journal_Laws
begin

section \<open>Rolling a composite operation undo\<close>

text \<open>
  The invariant a running operation keeps on the store, the effect of each call of the journal, and the
  theorem of the module: after a rollback nothing has changed. The names of temporary files are the only
  ones that may differ, because a failed cleanup leaves one behind.
\<close>

subsection \<open>Temporary names\<close>

definition temp_name :: "string \<Rightarrow> nat \<Rightarrow> nat \<Rightarrow> string" where
  "temp_name stem pid n = ''.'' @ stem @ ''.'' @ decimal pid @ ''.'' @ decimal n @ ''.tmp''"

lemma temp_path_name: "temp_path pid p n = butlast p @ [temp_name (last p) pid n]"
  by (simp add: temp_path_def temp_name_def)

lemma temp_name_counter: "temp_name s p m = temp_name s' p' n \<Longrightarrow> m = n"
proof -
  assume "temp_name s p m = temp_name s' p' n"
  then have "(''.'' @ s @ ''.'' @ decimal p) @ CHR ''.'' # decimal m = (''.'' @ s' @ ''.'' @ decimal p') @ CHR ''.'' # decimal n"
    by (simp add: temp_name_def)
  moreover have "rsplit_once CHR ''.'' (x @ CHR ''.'' # decimal k) = Some (x, decimal k)" for x k
    using decimal_no_dot by (simp add: rsplit_once_Some_iff)
  ultimately show ?thesis by (metis decimal_inj option.inject prod.inject)
qed

definition clean_name :: "string \<Rightarrow> bool" where
  "clean_name s \<longleftrightarrow> \<not> (prefix ''.'' s \<and> suffix ''.tmp'' s)"

definition clean :: "path \<Rightarrow> bool" where
  "clean p \<longleftrightarrow> list_all clean_name p"

lemma clean_append [simp]: "clean (p @ q) \<longleftrightarrow> clean p \<and> clean q"
  by (simp add: clean_def)

lemma clean_butlast: "clean p \<Longrightarrow> clean (butlast p)"
  by (auto simp: clean_def list_all_iff dest: in_set_butlastD)

lemma temp_name_not_clean: "\<not> clean_name (temp_name s p n)"
  by (simp add: clean_name_def temp_name_def suffix_def)

lemma clean_not_temp: "clean q \<Longrightarrow> q \<noteq> d @ [temp_name s p n]"
  using temp_name_not_clean by (auto simp: clean_def)

lemma clean_trash: "clean p \<Longrightarrow> clean (trash_path pid p n)"
proof -
  assume p: "clean p"
  have "\<not> suffix ''.tmp'' (x @ decimal n)" for x
  proof
    assume "suffix ''.tmp'' (x @ decimal n)"
    then obtain y where y: "x @ decimal n = y @ ''.tmp''" by (auto simp: suffix_def)
    have "decimal n \<noteq> []" using is_decimal_decimal [of n] by (auto simp: is_decimal_def)
    then have "last (x @ decimal n) \<in> set (decimal n)" by simp
    moreover have "last (x @ decimal n) = CHR ''p''" unfolding y by simp
    ultimately have "CHR ''p'' \<in> set (decimal n)" by simp
    then show False
      using is_decimal_decimal [of n] by (auto simp: is_decimal_def list_all_iff is_ascii_digit_def byte_def)
  qed
  then have "clean_name (trash_prefix @ last p @ ''.'' @ decimal pid @ ''.'' @ decimal n)"
    unfolding clean_name_def by (metis append.assoc)
  then show ?thesis using clean_butlast [OF p] by (simp add: trash_path_def clean_def)
qed

subsection \<open>The invariant\<close>

definition temps_free :: "store \<Rightarrow> bool" where
  "temps_free st \<longleftrightarrow> (\<forall>d s n. st_next_temp st \<le> n \<longrightarrow> look st (d @ [temp_name s (st_pid st) n]) = None)"

definition sane :: "store \<Rightarrow> bool" where
  "sane st \<longleftrightarrow> wf_tree (st_tree st) \<and> temps_free st"

definition same :: "store \<Rightarrow> store \<Rightarrow> bool" where
  "same st st' \<longleftrightarrow> (\<forall>q. clean q \<longrightarrow> look st q = look st' q)"

lemma sane_temp_free: "sane st \<Longrightarrow> look st (temp_path (st_pid st) p (st_next_temp st)) = None"
  by (simp add: sane_def temps_free_def temp_path_name)

lemma same_refl [simp]: "same st st" by (simp add: same_def)

lemma same_sym: "same st st' \<Longrightarrow> same st' st" by (simp add: same_def)

lemma same_trans: "same a b \<Longrightarrow> same b c \<Longrightarrow> same a c" by (simp add: same_def)

lemma sameD: "same st st' \<Longrightarrow> clean q \<Longrightarrow> look st q = look st' q" by (simp add: same_def)

definition fields_kept :: "store \<Rightarrow> store \<Rightarrow> bool" where
  "fields_kept st st' \<longleftrightarrow> st_pid st' = st_pid st \<and> st_next_temp st' = st_next_temp st
     \<and> st_next_trash st' = st_next_trash st \<and> (st_faults st = [] \<longrightarrow> st_faults st' = [])"

lemma fields_kept_trans: "fields_kept a b \<Longrightarrow> fields_kept b c \<Longrightarrow> fields_kept a c"
  by (simp add: fields_kept_def)

lemma sys_kept: "sys f st = (r, st') \<Longrightarrow> fields_kept st st'"
  using sys_fields [of f st r st'] by (auto simp: fields_kept_def)

lemma calls_kept:
  "fs_create_new p m st = (r, st') \<Longrightarrow> fields_kept st st'"
  "fs_sync st = (r, st') \<Longrightarrow> fields_kept st st'"
  "fs_set_mode p m st = (r, st') \<Longrightarrow> fields_kept st st'"
  "fs_remove_file p st = (r, st') \<Longrightarrow> fields_kept st st'"
  "fs_rename p q st = (r, st') \<Longrightarrow> fields_kept st st'"
  "fs_create_dir_all p st = (r, st') \<Longrightarrow> fields_kept st st'"
  by (auto simp: fs_create_new_def fs_sync_def fs_set_mode_def fs_remove_file_def fs_rename_def
      fs_create_dir_all_def dest: sys_kept)

lemma read_mode_kept:
  "fs_read p st = (c, st') \<Longrightarrow> fields_kept st st'"
  "fs_mode p st = (n, st') \<Longrightarrow> fields_kept st st'"
  by (auto simp: fs_read_def fs_mode_def dest: sys_kept)

lemma write_all_kept: "fs_write_all p b st = (r, st') \<Longrightarrow> fields_kept st st'"
  unfolding fs_write_all_def
  by (auto simp: fields_kept_def split: list.splits option.splits dest: sys_kept)

lemma write_temp_kept: "write_temp t b st = (r, st') \<Longrightarrow> fields_kept st st' \<and> (wf_tree (st_tree st) \<longrightarrow> wf_tree (st_tree st'))"
proof -
  assume w: "write_temp t b st = (r, st')"
  obtain r1 s1 where 1: "fs_create_new t 384 st = (r1, s1)" by (cases "fs_create_new t 384 st")
  obtain r2 s2 where 2: "fs_write_all t b s1 = (r2, s2)" by (cases "fs_write_all t b s1")
  obtain r3 s3 where 3: "fs_sync s2 = (r3, s3)" by (cases "fs_sync s2")
  have "st' \<in> {s1, s2, s3}" using w 1 2 3 by (auto simp: write_temp_def split: sum.splits)
  moreover have "fields_kept st s1" "fields_kept st s2" "fields_kept st s3"
    using calls_kept(1) [OF 1] write_all_kept [OF 2] calls_kept(2) [OF 3] fields_kept_trans by blast+
  moreover have "wf_tree (st_tree s1) \<and> wf_tree (st_tree s2) \<and> wf_tree (st_tree s3)" if "wf_tree (st_tree st)"
    using that wf_create_new [OF 1] wf_write_all [OF 2] fs_sync_effect [OF 3] by auto
  ultimately show ?thesis by blast
qed

lemma carry_kept:
  "carry_permissions_forward p t st = (r, st') \<Longrightarrow>
   fields_kept st st' \<and> (wf_tree (st_tree st) \<longrightarrow> wf_tree (st_tree st'))"
proof -
  assume w: "carry_permissions_forward p t st = (r, st')"
  obtain r1 s1 where 1: "fs_mode p st = (r1, s1)" by (cases "fs_mode p st")
  have k: "fields_kept st s1" "st_tree s1 = st_tree st" using read_mode_kept(2) [OF 1] fs_mode_effect [OF 1] by auto
  show ?thesis
  proof (cases r1)
    case (Inl e)
    then show ?thesis using w 1 k by (cases e) (auto simp: carry_permissions_forward_def)
  next
    case (Inr m)
    then have "fs_set_mode t m s1 = (r, st')" using w 1 by (simp add: carry_permissions_forward_def)
    then show ?thesis using k fields_kept_trans calls_kept(3) wf_set_mode by metis
  qed
qed

lemma cleanup_kept: "fields_kept st (cleanup t st) \<and> (wf_tree (st_tree st) \<longrightarrow> wf_tree (st_tree (cleanup t st)))"
proof -
  obtain r s where 1: "fs_remove_file t st = (r, s)" by (cases "fs_remove_file t st")
  then show ?thesis using calls_kept(4) [OF 1] wf_remove_file [OF 1] by (simp add: cleanup_def)
qed

lemma atomic_write_kept:
  assumes "atomic_write p b st = (r, st')" and "p \<noteq> []"
  shows "fields_kept (st\<lparr>st_next_temp := Suc (st_next_temp st)\<rparr>) st'
    \<and> (wf_tree (st_tree st) \<longrightarrow> wf_tree (st_tree st'))"
proof -
  let ?t = "temp_path (st_pid st) p (st_next_temp st)"
  let ?s0 = "st\<lparr>st_next_temp := Suc (st_next_temp st)\<rparr>"
  let ?G = "\<lambda>s. fields_kept ?s0 s \<and> (wf_tree (st_tree st) \<longrightarrow> wf_tree (st_tree s))"
  obtain r1 s1 where 1: "write_temp ?t b ?s0 = (r1, s1)" by (cases "write_temp ?t b ?s0")
  obtain r2 s2 where 2: "carry_permissions_forward p ?t s1 = (r2, s2)" by (cases "carry_permissions_forward p ?t s1")
  obtain r3 s3 where 3: "fs_rename ?t p s2 = (r3, s3)" by (cases "fs_rename ?t p s2")
  have "st' \<in> {cleanup ?t s1, cleanup ?t s2, cleanup ?t s3, s3}"
    using assms 1 2 3 by (auto simp: atomic_write_def Let_def split: sum.splits)
  moreover have g1: "?G s1" using write_temp_kept [OF 1] by simp
  moreover have g2: "?G s2" using carry_kept [OF 2] g1 fields_kept_trans by blast
  moreover have g3: "?G s3" using calls_kept(5) [OF 3] wf_rename [OF 3] g2 fields_kept_trans by blast
  moreover have "?G (cleanup ?t s)" if "?G s" for s
    using that cleanup_kept [of s ?t] fields_kept_trans by blast
  ultimately show ?thesis by blast
qed

lemma atomic_write_sane:
  assumes "atomic_write p b st = (r, st')" and "file_path p" and "clean p" and "sane st"
  shows "sane st' \<and> (st_faults st = [] \<longrightarrow> st_faults st' = []) \<and> st_pid st' = st_pid st
    \<and> (\<forall>q. clean q \<longrightarrow> q \<noteq> p \<longrightarrow> look st' q = look st q)"
proof -
  note e = atomic_write_effect [OF assms(1,2), THEN conjunct1, unfolded temp_path_name]
  have p: "p \<noteq> []" using assms(2) by (simp add: file_path_def)
  note k = atomic_write_kept [OF assms(1) p]
  have free: "look st' (d @ [temp_name s (st_pid st) n]) = None" if "Suc (st_next_temp st) \<le> n" for d s n
  proof -
    have "d @ [temp_name s (st_pid st) n] \<noteq> p" using clean_not_temp [OF assms(3)] by metis
    moreover have "d @ [temp_name s (st_pid st) n] \<noteq> butlast p @ [temp_name (last p) (st_pid st) (st_next_temp st)]"
      using temp_name_counter that by fastforce
    ultimately have "look st' (d @ [temp_name s (st_pid st) n]) = look st (d @ [temp_name s (st_pid st) n])"
      using e by blast
    then show ?thesis using assms(4) that by (simp add: sane_def temps_free_def)
  qed
  have "look st' q = look st q" if "clean q" "q \<noteq> p" for q
    using e that clean_not_temp by metis
  then show ?thesis
    using k free assms(4) by (auto simp: sane_def temps_free_def fields_kept_def)
qed

subsection \<open>Moves\<close>

definition moved :: "store \<Rightarrow> path \<Rightarrow> path \<Rightarrow> path \<Rightarrow> node option" where
  "moved st a b q =
     (if prefix b q then look st (a @ drop (length b) q) else if prefix a q then None else look st q)"

lemma fs_rename_effect:
  assumes "fs_rename a b st = (r, st')" and "wf_tree (st_tree st)" and "look st b = None"
  shows "r \<noteq> Inr () \<Longrightarrow> st_tree st' = st_tree st"
    and "r = Inr () \<Longrightarrow> look st a \<noteq> None \<and> look st (butlast b) = Some NDir \<and> \<not> prefix a b \<and> \<not> prefix b a
           \<and> look st' q = moved st a b q"
proof -
  let ?t = "st_tree st"
  have "(r \<noteq> Inr () \<longrightarrow> st_tree st' = ?t) \<and> (r = Inr () \<longrightarrow> look st a \<noteq> None
      \<and> look st (butlast b) = Some NDir \<and> \<not> prefix a b \<and> \<not> prefix b a \<and> look st' q = moved st a b q)"
    using assms(1) unfolding fs_rename_def
  proof (elim sysE, goal_cases)
    case (2)
    have nb: "map_of ?t (b @ z) = None" for z
      using wf_no_child [OF assms(2), of b z] assms(3) by (cases "z = []") auto
    have ba: "\<not> prefix b a" if "look st a \<noteq> None" using that nb by (auto simp: prefix_def)
    show ?case
    proof (cases "look st a")
      case None
      then show ?thesis using 2 by simp
    next
      case (Some n)
      show ?thesis
      proof (cases n)
        case NDir
        show ?thesis
        proof (cases "prefix a b \<or> look st (butlast b) \<noteq> Some NDir")
          case True
          then show ?thesis using 2 Some NDir assms(3) by auto
        next
          case False
          then have "\<not> has_child ?t b" using nb by (auto simp: has_child_iff prefix_def)
          then show ?thesis
            using 2 Some NDir False ba assms(3) by (auto simp: map_of_move_tree moved_def)
        qed
      next
        case (NFile c m)
        have na: "map_of ?t (a @ z) = None" if "z \<noteq> []" for z
          using wf_no_child [OF assms(2), of a z] Some NFile that by auto
        show ?thesis
        proof (cases "look st (butlast b) = Some NDir")
          case False
          then show ?thesis using 2 Some NFile assms(3) by auto
        next
          case True
          have ab: "\<not> prefix a b"
          proof
            assume "prefix a b"
            then obtain z where z: "b = a @ z" by (auto simp: prefix_def)
            then have "z \<noteq> []" using assms(3) Some by auto
            then have "butlast b = a @ butlast z" using z by (simp add: butlast_append)
            then show False using True na [of "butlast z"] Some NFile by (cases "butlast z = []") auto
          qed
          have "moved st a b q = ((map_of ?t)(a := None, b \<mapsto> NFile c m)) q"
          proof (cases "prefix b q")
            case True
            then obtain z where "q = b @ z" by (auto simp: prefix_def)
            then show ?thesis using Some NFile na nb ba by (cases "z = []") (auto simp: moved_def)
          next
            case False
            show ?thesis
            proof (cases "prefix a q")
              case True
              then obtain z where "q = a @ z" by (auto simp: prefix_def)
              then show ?thesis using na False by (cases "z = []") (auto simp: moved_def)
            qed (use False in \<open>auto simp: moved_def\<close>)
          qed
          then show ?thesis using 2 Some NFile True ab ba assms(3) by simp
        qed
      qed
    qed
  qed simp
  then show "r \<noteq> Inr () \<Longrightarrow> st_tree st' = st_tree st"
    and "r = Inr () \<Longrightarrow> look st a \<noteq> None \<and> look st (butlast b) = Some NDir \<and> \<not> prefix a b \<and> \<not> prefix b a
           \<and> look st' q = moved st a b q"
    by blast+
qed

lemma fs_rename_quiet:
  assumes "st_faults st = []" and "wf_tree (st_tree st)" and "look st b = None" and "look st a \<noteq> None"
    and "look st (butlast b) = Some NDir" and "\<not> prefix a b"
  shows "\<exists>st'. fs_rename a b st = (Inr (), st')"
proof -
  have "look st (b @ z) = None" for z
    using wf_no_child [OF assms(2), of b z] assms(3) by (cases "z = []") auto
  then have "\<not> has_child (st_tree st) b" by (auto simp: has_child_iff prefix_def)
  then show ?thesis
    using assms by (cases "look st a"; cases "the (look st a)") (auto simp: fs_rename_def sys_quiet)
qed

lemma fs_rename_sane:
  assumes "fs_rename a b st = (Inr (), st')" and "sane st" and "look st b = None" and "clean b"
  shows "sane st'"
proof -
  have wf: "wf_tree (st_tree st)" using assms(2) by (simp add: sane_def)
  note e = fs_rename_effect(2) [OF assms(1) wf assms(3) refl]
  have k: "st_pid st' = st_pid st" "st_next_temp st' = st_next_temp st"
    using calls_kept(5) [OF assms(1)] by (auto simp: fields_kept_def)
  have "look st' (d @ [temp_name s (st_pid st) n]) = None" if n: "st_next_temp st \<le> n" for d s n
  proof -
    let ?q = "d @ [temp_name s (st_pid st) n]"
    have free: "look st (z @ [temp_name s (st_pid st) n]) = None" for z
      using assms(2) n by (auto simp: sane_def temps_free_def)
    show ?thesis
    proof (cases "prefix b ?q")
      case True
      then obtain z where z: "?q = b @ z" by (auto simp: prefix_def)
      have "z \<noteq> []" using clean_not_temp [OF assms(4), of d s "st_pid st" n] z by auto
      then obtain z' where "z = z' @ [temp_name s (st_pid st) n]" using z by (cases z rule: rev_cases) auto
      then have "a @ drop (length b) ?q = (a @ z') @ [temp_name s (st_pid st) n]" using z by simp
      then have "look st (a @ drop (length b) ?q) = None" using free [of "a @ z'"] by metis
      then show ?thesis using e [of ?q] True by (simp add: moved_def)
    next
      case False
      then show ?thesis using e [of ?q] free [of d] by (simp add: moved_def)
    qed
  qed
  then show ?thesis using wf_rename [OF assms(1) wf] k by (simp add: sane_def temps_free_def)
qed

text \<open>Moving there and back again.\<close>

lemma undo_rename:
  assumes r: "fs_rename a b st = (Inr (), st')" and st: "sane st" and b: "look st b = None"
    and c: "clean a" "clean b" and u: "sane u" "same u st'"
    and undo: "fs_rename b a u = (r', u')"
  shows "(r' = Inr () \<longrightarrow> sane u' \<and> same u' st) \<and> (st_faults u = [] \<longrightarrow> r' = Inr () \<and> st_faults u' = [])"
proof -
  have wf: "wf_tree (st_tree st)" "wf_tree (st_tree u)" using st u by (simp_all add: sane_def)
  note e = fs_rename_effect(2) [OF r wf(1) b refl]
  note facts = e [of a, THEN conjunct1] e [of a]
  have nb: "look st (b @ z) = None" for z
    using wf_no_child [OF wf(1), of b z] b by (cases "z = []") auto
  have a: "a \<noteq> []" using facts by auto
  have ua: "look u a = None" using sameD [OF u(2) c(1)] facts by (simp add: moved_def)
  have ub: "look u b \<noteq> None" using sameD [OF u(2) c(2)] e [of b] by (simp add: moved_def)
  have pa: "look u (butlast a) = Some NDir"
  proof -
    have d: "look st (butlast a) = Some NDir" using wf_butlast [OF wf(1)] facts by blast
    have "\<not> prefix b (butlast a)" using d nb by (auto simp: prefix_def)
    moreover have "\<not> prefix a (butlast a)" using a prefix_length_le [of a "butlast a"] by (cases a) auto
    ultimately have "look st' (butlast a) = Some NDir" using e [of "butlast a"] d by (simp add: moved_def)
    then show ?thesis using sameD [OF u(2) clean_butlast [OF c(1)]] by simp
  qed
  have quiet: "st_faults u = [] \<longrightarrow> r' = Inr () \<and> st_faults u' = []"
    using fs_rename_quiet [OF _ wf(2) ua ub pa] facts calls_kept(5) [OF undo] undo by (auto simp: fields_kept_def)
  have "sane u' \<and> same u' st" if u': "fs_rename b a u = (Inr (), u')"
  proof -
    note e' = fs_rename_effect(2) [OF u' wf(2) ua refl]
    have "look u' q = look st q" if q: "clean q" for q
    proof (cases "prefix a q")
      case True
      then obtain z where z: "q = a @ z" by (auto simp: prefix_def)
      have "look u (b @ z) = look st' (b @ z)" using sameD [OF u(2)] q z c(2) by simp
      also have "\<dots> = look st q" using e [of "b @ z"] z by (simp add: moved_def)
      finally show ?thesis using e' [of q] z by (simp add: moved_def)
    next
      case False
      show ?thesis
      proof (cases "prefix b q")
        case True
        then show ?thesis using e' [of q] False nb by (auto simp: moved_def prefix_def)
      next
        case b: False
        then show ?thesis using e' [of q] e [of q] sameD [OF u(2) q] False by (simp add: moved_def)
      qed
    qed
    moreover have "sane u'" using fs_rename_sane [OF u' u(1) ua c(1)] .
    ultimately show ?thesis by (auto simp: same_def)
  qed
  then show ?thesis using quiet undo by blast
qed

subsection \<open>Every call of the journal can be undone\<close>

definition restores :: "file_step list \<Rightarrow> store \<Rightarrow> store \<Rightarrow> bool" where
  "restores ss st st' \<longleftrightarrow> (\<forall>u f u'. sane u \<longrightarrow> same u st' \<longrightarrow> undo_all (rev ss) u = (f, u') \<longrightarrow>
     (f = [] \<longrightarrow> sane u' \<and> same u' st) \<and> (st_faults u = [] \<longrightarrow> f = [] \<and> st_faults u' = []))"

lemma restores_Nil: "same st st' \<Longrightarrow> restores [] st st'"
  by (auto simp: restores_def same_def)

lemma undo_all_append:
  "undo_all (xs @ ys) st = (let (f, st) = undo_all xs st; (g, st) = undo_all ys st in (f @ g, st))"
proof (induction xs arbitrary: st)
  case (Cons s xs)
  obtain f1 s1 where 1: "undo_step s st = (f1, s1)" by (cases "undo_step s st")
  obtain f2 s2 where 2: "undo_all xs s1 = (f2, s2)" by (cases "undo_all xs s1")
  obtain f3 s3 where 3: "undo_all ys s2 = (f3, s3)" by (cases "undo_all ys s2")
  show ?case using Cons.IH [of s1] by (cases f1) (simp_all add: 1 2 3)
qed simp

lemma restores_append:
  assumes "restores ss1 st st1" and "restores ss2 st1 st2"
  shows "restores (ss1 @ ss2) st st2"
  unfolding restores_def
proof (intro allI impI)
  fix u f u' assume u: "sane u" "same u st2" "undo_all (rev (ss1 @ ss2)) u = (f, u')"
  obtain f2 u2 where 2: "undo_all (rev ss2) u = (f2, u2)" by (cases "undo_all (rev ss2) u")
  obtain f1 u1 where 1: "undo_all (rev ss1) u2 = (f1, u1)" by (cases "undo_all (rev ss1) u2")
  have "f = f2 @ f1" "u' = u1" using u(3) 1 2 by (simp_all add: undo_all_append)
  then show "(f = [] \<longrightarrow> sane u' \<and> same u' st) \<and> (st_faults u = [] \<longrightarrow> f = [] \<and> st_faults u' = [])"
    using assms(2) [unfolded restores_def, rule_format, OF u(1,2) 2]
      assms(1) [unfolded restores_def, rule_format, OF _ _ 1] by auto
qed

definition call_ok :: "journal_call \<Rightarrow> store \<Rightarrow> bool" where
  "call_ok c st =
     (case c of
        COverwrite p b \<Rightarrow> file_path p \<and> clean p
      | CRename a b \<Rightarrow> clean a \<and> clean b \<and> look st b = None \<and> look st (butlast b) = Some NDir
      | CTrash p \<Rightarrow> clean p \<and> look st (trash_path (st_pid st) p (st_next_trash st)) = None)"

lemma sane_same_tree:
  "st_tree st' = st_tree st \<Longrightarrow> fields_kept st st' \<Longrightarrow> sane st \<Longrightarrow> sane st'"
  by (simp add: sane_def temps_free_def fields_kept_def)

lemma same_same_tree: "st_tree st' = st_tree st \<Longrightarrow> same st st'"
  by (simp add: same_def)

lemma temps_free_fewer:
  assumes "temps_free u" and "fields_kept u u'" and "\<forall>q. q \<noteq> p \<longrightarrow> look u' q = look u q" and "look u' p = None"
  shows "temps_free u'"
  unfolding temps_free_def
proof (intro allI impI)
  fix d s n assume n: "st_next_temp u' \<le> n"
  show "look u' (d @ [temp_name s (st_pid u') n]) = None"
    using assms n by (cases "d @ [temp_name s (st_pid u) n] = p") (auto simp: temps_free_def fields_kept_def)
qed

lemma restores_overwrite_new:
  assumes w: "atomic_write p b st = (Inr (), st')" and p: "file_path p" "clean p" and st: "sane st" "look st p = None"
  shows "restores [Overwrote p None] st st'"
  unfolding restores_def
proof (intro allI impI)
  fix u f u' assume u: "sane u" "same u st'" "undo_all (rev [Overwrote p None]) u = (f, u')"
  obtain r where r: "fs_remove_file p u = (r, u')" and f: "f = [] \<longleftrightarrow> r = Inr ()"
    using u(3) by (cases "fs_remove_file p u") (auto split: sum.splits)
  note e = atomic_write_effect [OF w p(1)] and s = atomic_write_sane [OF w p st(1)]
  have up: "look u p = look st' p" using sameD [OF u(2) p(2)] .
  then obtain m where um: "look u p = Some (NFile b m)" using e by auto
  have q: "st_faults u = [] \<longrightarrow> r = Inr () \<and> st_faults u' = []"
    using r um by (auto simp: fs_remove_file_def sys_quiet)
  have "sane u' \<and> same u' st" if "r = Inr ()"
  proof -
    note d = fs_remove_file_effect [OF r]
    have "look u' q = look st q" if "clean q" for q
      using d s st(2) sameD [OF u(2) that] \<open>r = Inr ()\<close> that by (cases "q = p") auto
    moreover have "sane u'"
      using u(1) wf_remove_file [OF r] d \<open>r = Inr ()\<close> temps_free_fewer [OF _ calls_kept(4) [OF r], of p]
      by (auto simp: sane_def)
    ultimately show ?thesis by (simp add: same_def)
  qed
  then show "(f = [] \<longrightarrow> sane u' \<and> same u' st) \<and> (st_faults u = [] \<longrightarrow> f = [] \<and> st_faults u' = [])"
    using q f by blast
qed

lemma restores_overwrite_old:
  assumes w: "atomic_write p b st = (Inr (), st')" and p: "file_path p" "clean p"
    and st: "sane st" "look st p = Some (NFile c m)"
  shows "restores [Overwrote p (Some c)] st st'"
  unfolding restores_def
proof (intro allI impI)
  fix u f u' assume u: "sane u" "same u st'" "undo_all (rev [Overwrote p (Some c)]) u = (f, u')"
  obtain r where r: "atomic_write p c u = (r, u')" and f: "f = [] \<longleftrightarrow> r = Inr ()"
    using u(3) by (cases "atomic_write p c u") (auto split: sum.splits)
  note e = atomic_write_effect [OF w p(1)] and s = atomic_write_sane [OF w p st(1)]
  note e' = atomic_write_effect [OF r p(1)] and s' = atomic_write_sane [OF r p u(1)]
  have um: "look u p = Some (NFile b m)" using sameD [OF u(2) p(2)] e st(2) by auto
  have "butlast p \<noteq> p" using p(1) by (cases p rule: rev_cases) (auto simp: file_path_def)
  then have "look st' (butlast p) = Some NDir"
    using s clean_butlast [OF p(2)] wf_butlast [of "st_tree st" p] st by (simp add: sane_def)
  then have "look u (butlast p) = Some NDir" using sameD [OF u(2) clean_butlast [OF p(2)]] by simp
  then have q: "st_faults u = [] \<longrightarrow> r = Inr () \<and> st_faults u' = []"
    using atomic_write_quiet [OF _ _ p(1), of u c] sane_temp_free [OF u(1)] um r s' by auto
  have "look u' q = look st q" if "r = Inr ()" "clean q" for q
    using e' s s' um st(2) sameD [OF u(2) that(2)] that by (cases "q = p") auto
  then show "(f = [] \<longrightarrow> sane u' \<and> same u' st) \<and> (st_faults u = [] \<longrightarrow> f = [] \<and> st_faults u' = [])"
    using q f s' by (auto simp: same_def)
qed

lemma restores_rename:
  assumes "fs_rename a b st = (Inr (), st')" and "sane st" and "look st b = None" and "clean a" "clean b"
  shows "restores [Renamed a b] st st'" and "restores [Trashed a b] st st'"
proof -
  have "(f = [] \<longrightarrow> sane u' \<and> same u' st) \<and> (st_faults u = [] \<longrightarrow> f = [] \<and> st_faults u' = [])"
    if u: "sane u" "same u st'" "fs_rename b a u = (r, u')" "f = [] \<longleftrightarrow> r = Inr ()" for u f u' r
    using undo_rename [OF assms u(1,2,3)] u(4) by blast
  then show "restores [Renamed a b] st st'" "restores [Trashed a b] st st'"
    unfolding restores_def by (auto split: prod.splits sum.splits)
qed

lemma mkdir_loop_exists:
  "wf_tree t \<Longrightarrow> map_of t (pre @ cs) = Some NDir \<Longrightarrow> mkdir_loop t pre cs = (Inr (), t)"
proof (induction cs arbitrary: pre)
  case (Cons c cs)
  have "map_of t (pre @ [c]) = Some NDir"
    using Cons.prems wf_ancestor [OF Cons.prems(1), of "pre @ [c]" cs] by (cases "cs = []") simp_all
  then show ?case using Cons.IH [of "pre @ [c]"] Cons.prems by (simp add: Let_def)
qed simp

lemma make_parent_exists:
  assumes "make_parent b st = (r, st')" and "wf_tree (st_tree st)" and "look st (butlast b) = Some NDir"
  shows "st_tree st' = st_tree st \<and> fields_kept st st'"
proof (cases "b = []")
  case True
  then show ?thesis using assms(1) by (simp add: make_parent_def fields_kept_def)
next
  case False
  then have c: "fs_create_dir_all (butlast b) st = (r, st')" using assms(1) by (simp add: make_parent_def)
  then have "st_tree st' = st_tree st"
    using mkdir_loop_exists [OF assms(2), of "[]" "butlast b"] assms(3)
    unfolding fs_create_dir_all_def by (elim sysE) simp_all
  then show ?thesis using calls_kept(6) [OF c] by simp
qed

text \<open>
  A call that reports an error leaves nothing behind but a temporary file, and one that succeeds has recorded
  exactly the step that undoes it.
\<close>

lemma run_call_restores:
  assumes "run_call c j = (r, j')" and "call_ok c (fst j)" and "sane (fst j)"
  shows "sane (fst j') \<and> (\<exists>ss. snd j' = snd j @ ss \<and> restores ss (fst j) (fst j'))"
proof (cases c)
  case (COverwrite p b)
  obtain st ss0 where j: "j = (st, ss0)" by (cases j)
  have p: "file_path p" "clean p" and st: "sane st" using assms COverwrite j by (simp_all add: call_ok_def)
  obtain c s1 where 1: "fs_read p st = (c, s1)" by (cases "fs_read p st")
  have t1: "st_tree s1 = st_tree st" using fs_read_effect [OF 1] by simp
  have s1: "sane s1" "same st s1"
    using sane_same_tree [OF t1 read_mode_kept(1) [OF 1] st] same_same_tree [OF t1] by auto
  obtain r2 s2 where 2: "atomic_write p b s1 = (r2, s2)" by (cases "atomic_write p b s1")
  note e2 = atomic_write_effect [OF 2 p(1)] and k2 = atomic_write_sane [OF 2 p s1(1)]
  have fail: "same st s2" if "r2 \<noteq> Inr ()"
    unfolding same_def
  proof (intro allI impI)
    fix q assume "clean q"
    then show "look st q = look s2 q" using e2 k2 that t1 by (cases "q = p") auto
  qed
  have lift: "restores [step] st s2" if "restores [step] s1 s2" for step
    using restores_append [OF restores_Nil [OF s1(2)] that] by simp
  consider "c = Inl NotFoundErr" | e where "c = Inl e" "e \<noteq> NotFoundErr" | prev where "c = Inr prev"
    by (cases c) auto
  then show ?thesis
  proof cases
    case 1
    then have n: "look s1 p = None" using fs_read_effect [OF \<open>fs_read p st = (c, s1)\<close>] t1 by simp
    show ?thesis
    proof (cases r2)
      case (Inl e)
      then have "j' = (s2, ss0)"
        using assms(1) COverwrite j \<open>fs_read p st = (c, s1)\<close> 1 2 by (auto simp: journal_overwrite_def)
      then show ?thesis using k2 restores_Nil [OF fail] Inl j by auto
    next
      case (Inr u)
      then have "j' = (s2, ss0 @ [Overwrote p None])"
        using assms(1) COverwrite j \<open>fs_read p st = (c, s1)\<close> 1 2 by (auto simp: journal_overwrite_def)
      moreover have "restores [Overwrote p None] st s2"
        using lift restores_overwrite_new [OF _ p s1(1) n] 2 Inr by simp
      ultimately show ?thesis using k2 j by auto
    qed
  next
    case 2
    then have "j' = (s1, ss0)"
      using assms(1) COverwrite j \<open>fs_read p st = (c, s1)\<close> by (auto simp: journal_overwrite_def)
    then show ?thesis using s1 restores_Nil [OF s1(2)] j by auto
  next
    case 3
    then obtain m where m: "look s1 p = Some (NFile prev m)"
      using fs_read_effect [OF \<open>fs_read p st = (c, s1)\<close>] t1 by auto
    show ?thesis
    proof (cases r2)
      case (Inl e)
      then have "j' = (s2, ss0)"
        using assms(1) COverwrite j \<open>fs_read p st = (c, s1)\<close> 2 3 by (auto simp: journal_overwrite_def)
      then show ?thesis using k2 restores_Nil [OF fail] Inl j by auto
    next
      case (Inr u)
      then have "j' = (s2, ss0 @ [Overwrote p (Some prev)])"
        using assms(1) COverwrite j \<open>fs_read p st = (c, s1)\<close> 2 3 by (auto simp: journal_overwrite_def)
      moreover have "restores [Overwrote p (Some prev)] st s2"
        using lift restores_overwrite_old [OF _ p s1(1) m] 2 Inr by simp
      ultimately show ?thesis using k2 j by auto
    qed
  qed
next
  case (CRename a b)
  obtain st ss0 where j: "j = (st, ss0)" by (cases j)
  have ab: "clean a" "clean b" "look st b = None" "look st (butlast b) = Some NDir" and st: "sane st"
    using assms CRename j by (simp_all add: call_ok_def)
  obtain r1 s1 where 1: "make_parent b st = (r1, s1)" by (cases "make_parent b st")
  have t1: "st_tree s1 = st_tree st" "fields_kept st s1"
    using make_parent_exists [OF 1 _ ab(4)] st by (auto simp: sane_def)
  have s1: "sane s1" "same st s1" using sane_same_tree [OF t1 st] same_same_tree [OF t1(1)] by auto
  have b1: "look s1 b = None" using ab(3) t1 by simp
  obtain r2 s2 where 2: "fs_rename a b s1 = (r2, s2)" by (cases "fs_rename a b s1")
  have wf: "wf_tree (st_tree s1)" using s1 by (simp add: sane_def)
  show ?thesis
  proof (cases "r1 = Inr () \<and> r2 = Inr ()")
    case True
    then have "j' = (s2, ss0 @ [Renamed a b])"
      using assms(1) CRename j 1 2 by (auto simp: journal_rename_def)
    moreover have "restores [Renamed a b] s1 s2" "sane s2"
      using restores_rename(1) [OF _ s1(1) b1 ab(1,2)] fs_rename_sane [OF _ s1(1) b1 ab(2)] 2 True by auto
    ultimately show ?thesis using restores_append [OF restores_Nil [OF s1(2)]] j by fastforce
  next
    case False
    have "j' = (s1, ss0) \<or> (j' = (s2, ss0) \<and> r2 \<noteq> Inr ())"
      using assms(1) CRename j 1 2 False by (auto simp: journal_rename_def split: sum.splits)
    moreover have "sane s2 \<and> same st s2" if "r2 \<noteq> Inr ()"
      using fs_rename_effect(1) [OF 2 wf b1 that] sane_same_tree [OF _ calls_kept(5) [OF 2] s1(1)]
        same_same_tree same_trans [OF s1(2)] by blast
    ultimately show ?thesis using s1 restores_Nil j by auto
  qed
next
  case (CTrash p)
  obtain st ss0 where j: "j = (st, ss0)" by (cases j)
  let ?b = "trash_path (st_pid st) p (st_next_trash st)"
  have p: "clean p" "look st ?b = None" and st: "sane st"
    using assms CTrash j by (simp_all add: call_ok_def)
  obtain r1 s1 where 1: "fs_mode p st = (r1, s1)" by (cases "fs_mode p st")
  have t1: "st_tree s1 = st_tree st" "fields_kept st s1"
    using fs_mode_effect [OF 1] read_mode_kept(2) [OF 1] by auto
  let ?s1 = "s1\<lparr>st_next_trash := Suc (st_next_trash s1)\<rparr>"
  have s1: "sane s1" "same st s1" "sane ?s1" "same st ?s1"
    using sane_same_tree [OF t1 st] same_same_tree [OF t1(1)]
    by (auto simp: sane_def temps_free_def same_def)
  have b: "look ?s1 ?b = None" "trash_path (st_pid s1) p (st_next_trash s1) = ?b"
    using p(2) t1 by (auto simp: fields_kept_def)
  obtain r2 s2 where 2: "fs_rename p ?b ?s1 = (r2, s2)" by (cases "fs_rename p ?b ?s1")
  have wf: "wf_tree (st_tree ?s1)" using s1 by (simp add: sane_def)
  consider "j' = (s1, ss0)" | "j' = (s2, ss0)" "r2 \<noteq> Inr ()" | "j' = (s2, ss0 @ [Trashed p ?b])" "r2 = Inr ()"
    using assms(1) CTrash j 1 2 b(2) by (auto simp: journal_trash_def Let_def split: sum.splits if_splits)
  then show ?thesis
  proof cases
    case 1
    then show ?thesis using s1 restores_Nil j by auto
  next
    case 2
    note t2 = fs_rename_effect(1) [OF \<open>fs_rename p ?b ?s1 = (r2, s2)\<close> wf b(1) 2(2)]
    have "sane s2" "same st s2"
      using sane_same_tree [OF t2 calls_kept(5) [OF \<open>fs_rename p ?b ?s1 = (r2, s2)\<close>] s1(3)]
        same_trans [OF s1(4) same_same_tree [OF t2]] by auto
    then show ?thesis using 2 restores_Nil j by auto
  next
    case 3
    have "restores [Trashed p ?b] ?s1 s2" "sane s2"
      using restores_rename(2) [OF _ s1(3) b(1) p(1) clean_trash [OF p(1)]]
        fs_rename_sane [OF _ s1(3) b(1) clean_trash [OF p(1)]] 2 3(2) by auto
    then show ?thesis using restores_append [OF restores_Nil [OF s1(4)]] 3 j by fastforce
  qed
qed

fun calls_ok :: "journal_call list \<Rightarrow> journal \<Rightarrow> bool" where
  "calls_ok [] j = True"
| "calls_ok (c # cs) j =
     (call_ok c (fst j) \<and> (case run_call c j of (Inl _, _) \<Rightarrow> True | (Inr _, j) \<Rightarrow> calls_ok cs j))"

lemma run_calls_restores:
  "run_calls cs j = (r, j') \<Longrightarrow> calls_ok cs j \<Longrightarrow> sane (fst j) \<Longrightarrow>
   sane (fst j') \<and> (\<exists>ss. snd j' = snd j @ ss \<and> restores ss (fst j) (fst j'))"
proof (induction cs arbitrary: j)
  case Nil
  then show ?case using restores_Nil by auto
next
  case (Cons c cs)
  obtain r1 j1 where 1: "run_call c j = (r1, j1)" by (cases "run_call c j")
  have ok: "call_ok c (fst j)" using Cons.prems by simp
  obtain ss1 where s1: "sane (fst j1)" "snd j1 = snd j @ ss1" "restores ss1 (fst j) (fst j1)"
    using run_call_restores [OF 1 ok Cons.prems(3)] by blast
  show ?case
  proof (cases r1)
    case (Inl e)
    then show ?thesis using Cons.prems 1 s1 by auto
  next
    case (Inr u)
    then have "run_calls cs j1 = (r, j')" "calls_ok cs j1" using Cons.prems 1 by simp_all
    from Cons.IH [OF this s1(1)] obtain ss2 where
      "sane (fst j')" "snd j' = snd j1 @ ss2" "restores ss2 (fst j1) (fst j')" by blast
    then show ?thesis using s1 restores_append [OF s1(3)] by auto
  qed
qed

lemma restores_rollback:
  assumes "restores ss st st1" and "sane st1" and "rollback (st1\<lparr>st_faults := fs\<rparr>, ss) = (summary, (st2, rest))"
  shows "(summary = None \<longrightarrow> same st2 st) \<and> (fs = [] \<longrightarrow> summary = None) \<and> rest = []"
proof -
  let ?u = "st1\<lparr>st_faults := fs\<rparr>"
  obtain f u' where f: "undo_all (rev ss) ?u = (f, u')" by (cases "undo_all (rev ss) ?u")
  have "sane ?u" "same ?u st1" using assms(2) by (simp_all add: sane_def temps_free_def same_def)
  from assms(1) [unfolded restores_def, rule_format, OF this f]
  show ?thesis using assms(3) f by (auto simp: rollback_def Let_def split: if_splits)
qed

subsection \<open>The tree stays a tree\<close>

abbreviation wf_store :: "store \<Rightarrow> bool" where
  "wf_store st \<equiv> wf_tree (st_tree st)"

lemma wf_atomic_write: "wf_store st \<Longrightarrow> wf_store (snd (atomic_write p b st))"
  using atomic_write_kept [of p b st] by (cases "p = []"; cases "atomic_write p b st") (auto simp: atomic_write_def)

lemma wf_atomic_create: "wf_store st \<Longrightarrow> wf_store (snd (atomic_create p b st))"
proof (cases "p = []")
  case False
  assume wf: "wf_store st"
  let ?t = "temp_path (st_pid st) p (st_next_create st)"
  let ?s0 = "st\<lparr>st_next_create := Suc (st_next_create st)\<rparr>"
  obtain r1 s1 where 1: "write_temp ?t b ?s0 = (r1, s1)" by (cases "write_temp ?t b ?s0")
  obtain r2 s2 where 2: "fs_hard_link ?t p s1 = (r2, s2)" by (cases "fs_hard_link ?t p s1")
  have "wf_store s1" using write_temp_kept [OF 1] wf by simp
  moreover have "wf_store s2" using wf_hard_link [OF 2] calculation by simp
  moreover have "snd (atomic_create p b st) \<in> {cleanup ?t s1, cleanup ?t s2}"
    using False 1 2 by (cases r2; cases "projl r2") (auto simp: atomic_create_def Let_def split: sum.splits)
  moreover have "wf_store (cleanup ?t s)" if "wf_store s" for s using cleanup_kept [of s ?t] that by simp
  ultimately show ?thesis by auto
qed (simp add: atomic_create_def)

lemma wf_read: "fs_read p st = (c, st') \<Longrightarrow> wf_store st \<Longrightarrow> wf_store st'"
  using fs_read_effect [of p st c st'] by simp

lemma wf_mode: "fs_mode p st = (c, st') \<Longrightarrow> wf_store st \<Longrightarrow> wf_store st'"
  using fs_mode_effect [of p st c st'] by simp

lemma wf_atomic_write': "atomic_write p b st = (r, st') \<Longrightarrow> wf_store st \<Longrightarrow> wf_store st'"
  using wf_atomic_write [of st p b] by simp

lemma wf_make_parent: "make_parent p st = (r, st') \<Longrightarrow> wf_store st \<Longrightarrow> wf_store st'"
  by (auto simp: make_parent_def wf_create_dir_all split: if_splits)

lemmas wf_calls = wf_read wf_mode wf_atomic_write' wf_make_parent wf_rename wf_remove_file

lemma wf_run_call: "run_call c j = (r, j') \<Longrightarrow> wf_store (fst j) \<Longrightarrow> wf_store (fst j')"
proof -
  assume run: "run_call c j = (r, j')" and wf: "wf_store (fst j)"
  show ?thesis
  proof (cases c)
    case (COverwrite p b)
    obtain r1 s1 where 1: "fs_read p (fst j) = (r1, s1)" by (cases "fs_read p (fst j)")
    obtain r2 s2 where 2: "atomic_write p b s1 = (r2, s2)" by (cases "atomic_write p b s1")
    have "fst j' \<in> {s1, s2}"
      using run COverwrite 1 2 by (auto simp: journal_overwrite_def split: sum.splits if_splits)
    then show ?thesis using wf_read [OF 1 wf] wf_atomic_write' [OF 2] by auto
  next
    case (CRename a b)
    obtain r1 s1 where 1: "make_parent b (fst j) = (r1, s1)" by (cases "make_parent b (fst j)")
    obtain r2 s2 where 2: "fs_rename a b s1 = (r2, s2)" by (cases "fs_rename a b s1")
    have "fst j' \<in> {s1, s2}"
      using run CRename 1 2 by (auto simp: journal_rename_def split: sum.splits)
    then show ?thesis using wf_make_parent [OF 1 wf] wf_rename [OF 2] by auto
  next
    case (CTrash p)
    obtain r1 s1 where 1: "fs_mode p (fst j) = (r1, s1)" by (cases "fs_mode p (fst j)")
    let ?s1 = "s1\<lparr>st_next_trash := Suc (st_next_trash s1)\<rparr>"
    let ?b = "trash_path (st_pid s1) p (st_next_trash s1)"
    obtain r2 s2 where 2: "fs_rename p ?b ?s1 = (r2, s2)" by (cases "fs_rename p ?b ?s1")
    have "fst j' \<in> {s1, s2}"
      using run CTrash 1 2 by (auto simp: journal_trash_def Let_def split: sum.splits if_splits)
    then show ?thesis using wf_mode [OF 1 wf] wf_rename [OF 2] by auto
  qed
qed

lemma wf_run_calls: "run_calls cs j = (r, j') \<Longrightarrow> wf_store (fst j) \<Longrightarrow> wf_store (fst j')"
proof (induction cs arbitrary: j)
  case (Cons c cs)
  obtain r1 j1 where 1: "run_call c j = (r1, j1)" by (cases "run_call c j")
  then show ?case using Cons wf_run_call [OF 1] by (cases r1) auto
qed simp

lemma wf_undo_all: "undo_all ss st = (f, st') \<Longrightarrow> wf_store st \<Longrightarrow> wf_store st'"
proof (induction ss arbitrary: st f)
  case (Cons s ss)
  obtain f1 s1 where 1: "undo_step s st = (f1, s1)" by (cases "undo_step s st")
  then have "wf_store s1"
    using Cons.prems(2)
    by (cases "(s, st)" rule: undo_step.cases) (auto split: prod.splits sum.splits dest!: wf_calls)
  moreover obtain f2 where "undo_all ss s1 = (f2, st')"
    using Cons.prems(1) 1 by (auto split: prod.splits)
  ultimately show ?case using Cons.IH by blast
qed simp

section \<open>Properties of the file layer\<close>

text \<open>C18: A composite file operation either completes or changes nothing: whatever calls it made, whichever of
  them failed and wherever it stopped, rolling its journal back gives every file and directory the
  contents, the permissions and the place it had before, or reports that it could not. Without further
  faults it can. Only temporary names are exempt.\<close>

theorem rollback_restores:
  assumes "sane st" and "calls_ok cs (st, [])" and "run_calls cs (st, []) = (r, (st1, steps))"
    and "rollback (st1\<lparr>st_faults := faults\<rparr>, steps) = (summary, (st2, left))"
  shows "(summary = None \<longrightarrow> (\<forall>q. clean q \<longrightarrow> map_of (st_tree st2) q = map_of (st_tree st) q))
    \<and> (faults = [] \<longrightarrow> summary = None) \<and> left = []"
proof -
  obtain ss where "sane st1" "steps = ss" "restores ss st st1"
    using run_calls_restores [OF assms(3,2)] assms(1) by auto
  then show ?thesis using restores_rollback [of ss st st1 faults summary st2 left] assms(4) by (simp add: same_def)
qed

definition sample_store :: store where
  "sample_store = \<lparr>st_tree = [([], NDir), ([''a.md''], NFile ''old'' 420), ([''b.md''], NFile ''b'' 384)],
     st_faults = [], st_pid = 7, st_next_temp = 0, st_next_create = 0, st_next_trash = 0\<rparr>"

lemma sample_store_sane: "sane sample_store"
proof -
  have "wf_tree (st_tree sample_store)"
    by (auto simp: wf_tree_def sample_store_def split: if_splits)
  moreover have "temps_free sample_store"
    by (auto simp: temps_free_def sample_store_def temp_name_def)
  ultimately show ?thesis by (simp add: sane_def)
qed

lemma rollback_restores_witness:
  "let (r, j) = run_calls [COverwrite [''a.md''] ''new'', CTrash [''b.md'']] (sample_store, []);
       (summary, j) = rollback j
   in summary = None \<and> map_of (st_tree (fst j)) [''a.md''] = Some (NFile ''old'' 420)"
proof -
  let ?cs = "[COverwrite [''a.md''] ''new'', CTrash [''b.md'']]"
  obtain r st1 steps where 1: "run_calls ?cs (sample_store, []) = (r, (st1, steps))"
    by (cases "run_calls ?cs (sample_store, [])") auto
  obtain summary st2 rest where 2: "rollback (st1\<lparr>st_faults := []\<rparr>, steps) = (summary, (st2, rest))"
    by (cases "rollback (st1\<lparr>st_faults := []\<rparr>, steps)") auto
  have "calls_ok ?cs (sample_store, [])" by code_simp
  from rollback_restores [OF sample_store_sane this 1 2]
  have "summary = None" "map_of (st_tree st2) [''a.md''] = Some (NFile ''old'' 420)"
    by (auto simp: clean_def clean_name_def sample_store_def)
  moreover have "st_faults (fst (snd (run_calls ?cs (sample_store, [])))) = []" by code_simp
  then have "st1\<lparr>st_faults := []\<rparr> = st1" using 1 by (cases st1) simp
  ultimately show ?thesis using 1 2 by simp
qed

text \<open>Committing a journal keeps everything the operation did and discards exactly what it parked: no entry
  outside the trash is touched, a commit that succeeds leaves no trash, and one that fails keeps its steps
  for another attempt.\<close>

theorem commit_discards_trash:
  assumes "commit (st, steps) = (r, (st', left))"
  shows "(\<forall>q. (\<forall>a b. Trashed a b \<in> set steps \<longrightarrow> \<not> prefix b q) \<longrightarrow> map_of (st_tree st') q = map_of (st_tree st) q)
    \<and> (r = Inr () \<longrightarrow> left = [] \<and> (\<forall>a b. Trashed a b \<in> set steps \<longrightarrow> map_of (st_tree st') b = None))
    \<and> (r \<noteq> Inr () \<longrightarrow> left = steps)"
proof -
  have one: "(\<forall>q. (\<forall>a b. s = Trashed a b \<longrightarrow> \<not> prefix b q) \<longrightarrow> look st' q = look st q)
      \<and> (\<forall>q. look st q = None \<longrightarrow> look st' q = None)
      \<and> (\<forall>a b. r = Inr () \<longrightarrow> s = Trashed a b \<longrightarrow> look st' b = None)"
    if "discard_trash s st = (r, st')" for s st r st'
  proof (cases s)
    case (Trashed a b)
    obtain d s1 where 1: "fs_is_dir b st = (d, s1)" by (cases "fs_is_dir b st")
    have t1: "st_tree s1 = st_tree st"
      using 1 unfolding fs_is_dir_def by (auto split: prod.splits sum.splits elim!: sysE)
    show ?thesis
    proof (cases d)
      case True
      obtain r2 s2 where 2: "fs_remove_dir_all b s1 = (r2, s2)" by (cases "fs_remove_dir_all b s1")
      then have e: "st' = s2" "r = Inr () \<longleftrightarrow> r2 = Inr () \<or> r2 = Inl NotFoundErr"
        using that Trashed 1 True by (auto simp: discard_trash_def split: if_splits)
      show ?thesis
        using 2 unfolding fs_remove_dir_all_def
        by (elim sysE) (auto simp: e Trashed t1 map_of_drop_tree split: option.splits node.splits)
    next
      case False
      obtain r2 s2 where 2: "fs_remove_file b s1 = (r2, s2)" by (cases "fs_remove_file b s1")
      then have e: "st' = s2" "r = Inr () \<longleftrightarrow> r2 = Inr () \<or> r2 = Inl NotFoundErr"
        using that Trashed 1 False by (auto simp: discard_trash_def split: if_splits)
      show ?thesis
        using 2 unfolding fs_remove_file_def
        by (elim sysE) (auto simp: e Trashed t1 split: option.splits node.splits)
    qed
  qed (use that in \<open>auto simp: discard_trash_def\<close>)
  have all: "(\<forall>q. (\<forall>a b. Trashed a b \<in> set ss \<longrightarrow> \<not> prefix b q) \<longrightarrow> look st' q = look st q)
      \<and> (\<forall>q. look st q = None \<longrightarrow> look st' q = None)
      \<and> (f = [] \<longrightarrow> (\<forall>a b. Trashed a b \<in> set ss \<longrightarrow> look st' b = None))"
    if "discard_all ss st = (f, st')" for ss f st st'
    using that
  proof (induction ss arbitrary: st f)
    case (Cons s ss)
    obtain r1 s1 where 1: "discard_trash s st = (r1, s1)" by (cases "discard_trash s st")
    obtain f2 s2 where 2: "discard_all ss s1 = (f2, s2)" by (cases "discard_all ss s1")
    have "st' = s2" "f = [] \<longrightarrow> r1 = Inr () \<and> f2 = []" using Cons.prems 1 2 by (auto split: sum.splits)
    then show ?case using one [OF 1] Cons.IH [of s1 f2] 2 by auto
  qed simp
  obtain f st2 where f: "discard_all steps st = (f, st2)" by (cases "discard_all steps st")
  then show ?thesis using assms all [OF f] by (auto simp: commit_def split: if_splits)
qed

lemma commit_discards_trash_witness:
  "let (r, j) = run_calls [CTrash [''b.md'']] (sample_store, []); (r', j') = commit j
   in r' = Inr () \<and> snd j' = [] \<and> map_of (st_tree (fst j')) [''a.md''] = Some (NFile ''old'' 420)"
proof -
  obtain r st steps where 1: "run_calls [CTrash [''b.md'']] (sample_store, []) = (r, (st, steps))"
    by (cases "run_calls [CTrash [''b.md'']] (sample_store, [])") auto
  obtain r' st' rest where 2: "commit (st, steps) = (r', (st', rest))"
    by (cases "commit (st, steps)") auto
  have "fst (commit (snd (run_calls [CTrash [''b.md'']] (sample_store, [])))) = Inr ()" by code_simp
  then have "r' = Inr ()" using 1 2 by simp
  moreover have "steps = [Trashed [''b.md''] (trash_path 7 [''b.md''] 0)]
      \<and> map_of (st_tree st) [''a.md''] = Some (NFile ''old'' 420)"
  proof -
    have "snd (snd (run_calls [CTrash [''b.md'']] (sample_store, []))) = [Trashed [''b.md''] (trash_path 7 [''b.md''] 0)]"
      "map_of (st_tree (fst (snd (run_calls [CTrash [''b.md'']] (sample_store, []))))) [''a.md''] = Some (NFile ''old'' 420)"
      by code_simp+
    then show ?thesis using 1 by simp
  qed
  ultimately show ?thesis
    using commit_discards_trash [OF 2] 1 2 by (simp add: trash_path_def trash_prefix_def)
qed



end
