(* ===== verification/Session_Snapshot.thy ===== *)
theory Session_Snapshot
  imports File_Store_Laws
begin

section \<open>Session snapshots\<close>

text \<open>
  \<^verbatim>\<open>workspace/session_snapshot.rs\<close>: the small file that remembers which notes were open. Parsing and printing
  JSON are the arguments \<open>json_parse\<close> and \<open>json_print\<close>, the SHA-256 digest is the argument \<open>digest\<close>; the file
  system is that of \<^verbatim>\<open>File_Store\<close>. A number keeps the two forms \<^verbatim>\<open>serde_json\<close> stores: an integer, or a double
  \<open>m / 2 ^ k\<close>.
\<close>

datatype json =
    JNull
  | JBool bool
  | JInt int
  | JFloat int nat
  | JStr string
  | JArr "json list"
  | JObj "(string \<times> json) list"

datatype sync_presentation = Local | Connected | Paused

record snapshot =
  sn_open_note_ids :: "string list"
  sn_active_note_id :: "string option"
  sn_expanded_directory_ids :: "string list"
  sn_search_query :: string
  sn_sync_presentation :: sync_presentation

definition default_snapshot :: snapshot where
  "default_snapshot = \<lparr>sn_open_note_ids = [], sn_active_note_id = None, sn_expanded_directory_ids = [],
     sn_search_query = [], sn_sync_presentation = Local\<rparr>"

record persisted =
  ps_schema_version :: nat
  ps_workspace_id :: string
  ps_snapshot :: snapshot

record workspace =
  ws_id :: string
  ws_entries :: entry_at

definition current_schema_version :: nat where
  "current_schema_version = 1"

definition from_snapshot :: "workspace \<Rightarrow> snapshot \<Rightarrow> persisted" where
  "from_snapshot ws s =
     \<lparr>ps_schema_version = current_schema_version, ps_workspace_id = ws_id ws, ps_snapshot = s\<rparr>"

subsection \<open>Schema\<close>

datatype snapshot_version = VCurrent | VLater | VUnknown

definition is_current_schema_version :: "json \<Rightarrow> bool" where
  "is_current_schema_version v =
     (case v of JInt i \<Rightarrow> i = 1 | JFloat m k \<Rightarrow> m = 2 ^ k | _ \<Rightarrow> False)"

definition is_later_integer_schema_version :: "json \<Rightarrow> bool" where
  "is_later_integer_schema_version v =
     (case v of JInt i \<Rightarrow> 1 < i | JFloat m k \<Rightarrow> 2 ^ k dvd m \<and> 2 ^ k < m | _ \<Rightarrow> False)"

definition snapshot_version :: "json \<Rightarrow> snapshot_version" where
  "snapshot_version raw =
     (case raw of
        JObj kvs \<Rightarrow>
          (case map_of kvs ''schema_version'' of
             None \<Rightarrow> VUnknown
           | Some version \<Rightarrow>
               if is_current_schema_version version then VCurrent
               else if is_later_integer_schema_version version then VLater
               else VUnknown)
      | _ \<Rightarrow> VUnknown)"

fun as_str :: "json \<Rightarrow> string option" where
  "as_str (JStr s) = Some s"
| "as_str _ = None"

fun as_strings :: "json \<Rightarrow> string list option" where
  "as_strings (JArr items) = those (map as_str items)"
| "as_strings _ = None"

definition schema_keys :: "string list" where
  "schema_keys = [''schema_version'', ''workspace_id'', ''open_note_ids'', ''active_note_id'',
     ''expanded_directory_ids'', ''search_query'', ''sync_presentation'']"

definition read_presentation :: "json \<Rightarrow> sync_presentation option" where
  "read_presentation v =
     (case v of
        JStr s \<Rightarrow>
          if s = ''local'' then Some Local else if s = ''connected'' then Some Connected
          else if s = ''paused'' then Some Paused else None
      | _ \<Rightarrow> None)"

definition read_nullable :: "json \<Rightarrow> string option option" where
  "read_nullable v = (case v of JNull \<Rightarrow> Some None | JStr s \<Rightarrow> Some (Some s) | _ \<Rightarrow> None)"

definition parse_current_schema :: "json \<Rightarrow> persisted option" where
  "parse_current_schema raw =
     (case raw of
        JObj kvs \<Rightarrow>
          (if length kvs \<noteq> length schema_keys \<or> \<not> list_all (\<lambda>k. map_of kvs k \<noteq> None) schema_keys then None
           else if \<not> is_current_schema_version (the (map_of kvs ''schema_version'')) then None
           else
             Option.bind (read_nullable (the (map_of kvs ''active_note_id''))) (\<lambda>active.
             Option.bind (as_strings (the (map_of kvs ''open_note_ids''))) (\<lambda>open_ids.
             Option.bind (as_strings (the (map_of kvs ''expanded_directory_ids''))) (\<lambda>dirs.
             Option.bind (as_str (the (map_of kvs ''workspace_id''))) (\<lambda>wid.
             Option.bind (as_str (the (map_of kvs ''search_query''))) (\<lambda>query.
             Option.bind (read_presentation (the (map_of kvs ''sync_presentation''))) (\<lambda>sp.
               Some \<lparr>ps_schema_version = current_schema_version, ps_workspace_id = wid,
                     ps_snapshot = \<lparr>sn_open_note_ids = open_ids, sn_active_note_id = active,
                       sn_expanded_directory_ids = dirs, sn_search_query = query,
                       sn_sync_presentation = sp\<rparr>\<rparr>)))))))
      | _ \<Rightarrow> None)"

subsection \<open>Semantics\<close>

fun validate_unique_note_ids :: "workspace \<Rightarrow> string set \<Rightarrow> string list \<Rightarrow> unit result" where
  "validate_unique_note_ids ws seen [] = Inr ()"
| "validate_unique_note_ids ws seen (i # ids) =
     (if i = [] \<or> i \<in> seen then Inl (ParseError ''empty or duplicate Note identity'')
      else and_then (validate_persisted_note_id (ws_entries ws) i) (\<lambda>_.
        validate_unique_note_ids ws (insert i seen) ids))"

fun validate_unique_directory_ids :: "string set \<Rightarrow> string list \<Rightarrow> unit result" where
  "validate_unique_directory_ids seen [] = Inr ()"
| "validate_unique_directory_ids seen (i # ids) =
     (if i = [] \<or> i \<in> seen then Inl (ParseError ''empty or duplicate Directory identity'')
      else and_then (validate_persisted_directory_id i) (\<lambda>_. validate_unique_directory_ids (insert i seen) ids))"

definition validate_semantics :: "workspace \<Rightarrow> persisted \<Rightarrow> unit result" where
  "validate_semantics ws p =
     (let s = ps_snapshot p in
      if ps_workspace_id p = [] \<or> ps_workspace_id p \<noteq> ws_id ws
      then Inl (ParseError ''Workspace identity does not match'')
      else
        and_then (validate_unique_note_ids ws {} (sn_open_note_ids s)) (\<lambda>_.
        and_then (validate_unique_directory_ids {} (sn_expanded_directory_ids s)) (\<lambda>_.
        case sn_active_note_id s of
          None \<Rightarrow> Inr ()
        | Some active \<Rightarrow>
            if active = [] \<or> active \<notin> set (sn_open_note_ids s)
            then Inl (ParseError ''active Note must occur in open_note_ids'')
            else validate_persisted_note_id (ws_entries ws) active)))"

text \<open>What \<^verbatim>\<open>serde_json::to_vec\<close> is given.\<close>

definition presentation_name :: "sync_presentation \<Rightarrow> string" where
  "presentation_name sp = (case sp of Local \<Rightarrow> ''local'' | Connected \<Rightarrow> ''connected'' | Paused \<Rightarrow> ''paused'')"

definition persisted_json :: "persisted \<Rightarrow> json" where
  "persisted_json p =
     (let s = ps_snapshot p in
      JObj [(''schema_version'', JInt (int (ps_schema_version p))),
            (''workspace_id'', JStr (ps_workspace_id p)),
            (''open_note_ids'', JArr (map JStr (sn_open_note_ids s))),
            (''active_note_id'', (case sn_active_note_id s of None \<Rightarrow> JNull | Some i \<Rightarrow> JStr i)),
            (''expanded_directory_ids'', JArr (map JStr (sn_expanded_directory_ids s))),
            (''search_query'', JStr (sn_search_query s)),
            (''sync_presentation'', JStr (presentation_name (sn_sync_presentation s)))])"

subsection \<open>The store\<close>

record session_store =
  ss_files :: store
  ss_next :: nat

definition lower_hex :: "nat \<Rightarrow> char" where
  "lower_hex n = (if n < 10 then char_of (48 + n) else char_of (87 + n))"

definition key :: "(string \<Rightarrow> nat list) \<Rightarrow> string \<Rightarrow> string" where
  "key digest workspace_id =
     concat (map (\<lambda>b. [lower_hex (b div 16 mod 16), lower_hex (b mod 16)]) (digest workspace_id))"

definition snapshot_name :: "(string \<Rightarrow> nat list) \<Rightarrow> string \<Rightarrow> string" where
  "snapshot_name digest workspace_id = key digest workspace_id @ ''.json''"

definition snapshot_path :: "(string \<Rightarrow> nat list) \<Rightarrow> path \<Rightarrow> string \<Rightarrow> path" where
  "snapshot_path digest root workspace_id = root @ [snapshot_name digest workspace_id]"

definition later_version_guard_path :: "(string \<Rightarrow> nat list) \<Rightarrow> path \<Rightarrow> string \<Rightarrow> path" where
  "later_version_guard_path digest root workspace_id =
     root @ [key digest workspace_id @ ''.later-version-refused'']"

definition quarantine_path :: "(string \<Rightarrow> nat list) \<Rightarrow> path \<Rightarrow> string \<Rightarrow> string \<Rightarrow> nat \<Rightarrow> nat \<Rightarrow> path" where
  "quarantine_path digest root workspace_id reason pid n =
     root @ [snapshot_name digest workspace_id @ ''.'' @ reason @ ''.'' @ decimal pid @ ''.'' @ decimal n]"

text \<open>
  The loop of \<^verbatim>\<open>quarantine\<close>: it tries one name after another until one is free. The counter is taken as
  unbounded.
\<close>

partial_function (option) quarantine_loop ::
    "path \<Rightarrow> (nat \<Rightarrow> path) \<Rightarrow> nat \<Rightarrow> store \<Rightarrow> (unit result \<times> nat \<times> store) option" where
  "quarantine_loop p isolated n st =
     (case fs_hard_link p (isolated n) st of
        (Inr _, st) \<Rightarrow>
          (case fs_remove_file p st of
             (Inr _, st) \<Rightarrow> Some (Inr (), Suc n, st)
           | (Inl e, st) \<Rightarrow>
               Some (if e = NotFoundErr then Inr () else Inl (IoError ''remove quarantined session snapshot''), Suc n, st))
      | (Inl e, st) \<Rightarrow>
          (if e = ExistsErr then quarantine_loop p isolated (Suc n) st
           else Some (if e = NotFoundErr then Inr () else Inl (IoError ''quarantine session snapshot''), Suc n, st)))"

declare quarantine_loop.simps [code]

text \<open>
  The operations are functions once the loop is known to end (\<^verbatim>\<open>quarantine_ends\<close> below): \<open>the\<close> takes the
  value it returns.
\<close>

definition quarantine :: "(string \<Rightarrow> nat list) \<Rightarrow> path \<Rightarrow> string \<Rightarrow> string \<Rightarrow> session_store \<Rightarrow> unit result \<times> session_store" where
  "quarantine digest root workspace_id reason ss =
     (let st = ss_files ss;
          (r, n, st) = the (quarantine_loop (snapshot_path digest root workspace_id)
            (quarantine_path digest root workspace_id reason (st_pid st)) (ss_next ss) st)
      in (r, \<lparr>ss_files = st, ss_next = n\<rparr>))"

definition quarantine_and_default ::
    "(string \<Rightarrow> nat list) \<Rightarrow> path \<Rightarrow> string \<Rightarrow> string \<Rightarrow> bool \<Rightarrow> session_store \<Rightarrow> snapshot result \<times> session_store" where
  "quarantine_and_default digest root workspace_id reason later ss =
     (case (if later then
              (case atomic_write (later_version_guard_path digest root workspace_id) ''refused'' (ss_files ss) of
                 (r, st) \<Rightarrow> (r, ss\<lparr>ss_files := st\<rparr>))
            else (Inr (), ss)) of
        (Inl e, ss) \<Rightarrow> (Inl e, ss)
      | (Inr _, ss) \<Rightarrow>
          (case quarantine digest root workspace_id reason ss of
             (Inl e, ss) \<Rightarrow> (Inl e, ss)
           | (Inr _, ss) \<Rightarrow> (Inr default_snapshot, ss)))"

definition read_snapshot :: "path \<Rightarrow> session_store \<Rightarrow> (io_kind + string) \<times> session_store" where
  "read_snapshot p ss = (case fs_read p (ss_files ss) of (r, st) \<Rightarrow> (r, ss\<lparr>ss_files := st\<rparr>))"

text \<open>The result of reading the bytes of a snapshot file.\<close>

datatype verdict = Corrupt | Later_Version | Unknown_Version | Invalid | Valid snapshot

definition judge :: "(string \<Rightarrow> json option) \<Rightarrow> workspace \<Rightarrow> string \<Rightarrow> verdict" where
  "judge json_parse ws bytes =
     (case json_parse bytes of
        None \<Rightarrow> Corrupt
      | Some raw \<Rightarrow>
          (case snapshot_version raw of
             VLater \<Rightarrow> Later_Version
           | VUnknown \<Rightarrow> Unknown_Version
           | VCurrent \<Rightarrow>
               (case parse_current_schema raw of
                  None \<Rightarrow> Invalid
                | Some p \<Rightarrow> (case validate_semantics ws p of Inl _ \<Rightarrow> Invalid | Inr _ \<Rightarrow> Valid (ps_snapshot p)))))"

definition load ::
    "(string \<Rightarrow> json option) \<Rightarrow> (string \<Rightarrow> nat list) \<Rightarrow> path \<Rightarrow> workspace \<Rightarrow> session_store \<Rightarrow> snapshot result \<times> session_store" where
  "load json_parse digest root ws ss =
     (case read_snapshot (snapshot_path digest root (ws_id ws)) ss of
        (Inl e, ss) \<Rightarrow> (if e = NotFoundErr then Inr default_snapshot else Inl (IoError ''read session snapshot''), ss)
      | (Inr bytes, ss) \<Rightarrow>
          (let quarantined = quarantine_and_default digest root (ws_id ws) in
           case judge json_parse ws bytes of
             Corrupt \<Rightarrow> quarantined ''corrupt'' True ss
           | Later_Version \<Rightarrow> quarantined ''later'' True ss
           | Unknown_Version \<Rightarrow> quarantined ''unknown'' True ss
           | Invalid \<Rightarrow> quarantined ''invalid'' False ss
           | Valid s \<Rightarrow> (Inr s, ss)))"

definition normal_path_refusal :: app_error where
  "normal_path_refusal = ParseError ''preserved unverified or later session bytes''"

definition ensure_no_later_version_guard ::
    "(string \<Rightarrow> nat list) \<Rightarrow> path \<Rightarrow> string \<Rightarrow> session_store \<Rightarrow> unit result \<times> session_store" where
  "ensure_no_later_version_guard digest root workspace_id ss =
     (case fs_mode (later_version_guard_path digest root workspace_id) (ss_files ss) of
        (Inr _, st) \<Rightarrow> (Inl normal_path_refusal, ss\<lparr>ss_files := st\<rparr>)
      | (Inl e, st) \<Rightarrow>
          (if e = NotFoundErr then Inr () else Inl (IoError ''inspect later-version refusal''), ss\<lparr>ss_files := st\<rparr>))"

definition prepare_normal_path_write ::
    "(string \<Rightarrow> json option) \<Rightarrow> (string \<Rightarrow> nat list) \<Rightarrow> path \<Rightarrow> workspace \<Rightarrow> session_store \<Rightarrow> unit result \<times> session_store" where
  "prepare_normal_path_write json_parse digest root ws ss =
     (case ensure_no_later_version_guard digest root (ws_id ws) ss of
        (Inl e, ss) \<Rightarrow> (Inl e, ss)
      | (Inr _, ss) \<Rightarrow>
          (case read_snapshot (snapshot_path digest root (ws_id ws)) ss of
             (Inl e, ss) \<Rightarrow> (if e = NotFoundErr then Inr () else Inl (IoError ''read session snapshot before save''), ss)
           | (Inr bytes, ss) \<Rightarrow>
               (let refused = (\<lambda>reason.
                      (case quarantine_and_default digest root (ws_id ws) reason True ss of
                         (Inl e, ss) \<Rightarrow> (Inl e, ss)
                       | (Inr _, ss) \<Rightarrow> (Inl normal_path_refusal, ss)))
                in case judge json_parse ws bytes of
                     Corrupt \<Rightarrow> refused ''corrupt''
                   | Later_Version \<Rightarrow> refused ''later''
                   | Unknown_Version \<Rightarrow> refused ''unknown''
                   | Invalid \<Rightarrow> quarantine digest root (ws_id ws) ''invalid'' ss
                   | Valid _ \<Rightarrow> (Inr (), ss))))"

definition save ::
    "(string \<Rightarrow> json option) \<Rightarrow> (json \<Rightarrow> string) \<Rightarrow> (string \<Rightarrow> nat list) \<Rightarrow> path \<Rightarrow> workspace \<Rightarrow> snapshot \<Rightarrow> session_store \<Rightarrow>
     unit result \<times> session_store" where
  "save json_parse json_print digest root ws s ss =
     (case prepare_normal_path_write json_parse digest root ws ss of
        (Inl e, ss) \<Rightarrow> (Inl e, ss)
      | (Inr _, ss) \<Rightarrow>
          (case fs_create_dir_all root (ss_files ss) of
             (Inl _, st) \<Rightarrow> (Inl (IoError ''create session snapshot directory''), ss\<lparr>ss_files := st\<rparr>)
           | (Inr _, st) \<Rightarrow>
               (let p = from_snapshot ws s in
                case validate_semantics ws p of
                  Inl e \<Rightarrow> (Inl e, ss\<lparr>ss_files := st\<rparr>)
                | Inr _ \<Rightarrow>
                    (case atomic_write (snapshot_path digest root (ws_id ws)) (json_print (persisted_json p)) st of
                       (r, st) \<Rightarrow> (r, ss\<lparr>ss_files := st\<rparr>)))))"

definition clear_corrupt ::
    "(string \<Rightarrow> json option) \<Rightarrow> (string \<Rightarrow> nat list) \<Rightarrow> path \<Rightarrow> workspace \<Rightarrow> session_store \<Rightarrow> unit result \<times> session_store" where
  "clear_corrupt json_parse digest root ws ss =
     (case read_snapshot (snapshot_path digest root (ws_id ws)) ss of
        (Inl e, ss) \<Rightarrow> (if e = NotFoundErr then Inr () else Inl (IoError ''read session snapshot''), ss)
      | (Inr bytes, ss) \<Rightarrow>
          (let quarantined = (\<lambda>reason.
                 (case quarantine_and_default digest root (ws_id ws) reason True ss of
                    (Inl e, ss) \<Rightarrow> (Inl e, ss)
                  | (Inr _, ss) \<Rightarrow> (Inr (), ss)))
           in case judge json_parse ws bytes of
                Corrupt \<Rightarrow> quarantined ''corrupt''
              | Later_Version \<Rightarrow> quarantined ''later''
              | Unknown_Version \<Rightarrow> quarantined ''unknown''
              | Invalid \<Rightarrow> quarantine digest root (ws_id ws) ''cleared'' ss
              | Valid _ \<Rightarrow> (Inr (), ss)))"

end
