(* ===== verification/Session_Laws.thy ===== *)
theory Session_Laws
  imports Session_Snapshot File_Journal_Laws
begin

section \<open>Properties of session snapshots\<close>

text \<open>
  The quarantine loop ends because the tree is finite and the names differ; no operation loses bytes it has
  not verified; a refusal is durable; and what was saved loads again.
\<close>

subsection \<open>Names\<close>

lemma key_chars: "c \<in> set (key digest i) \<Longrightarrow> 48 \<le> byte c"
  by (auto simp: key_def lower_hex_def byte_def)

lemma name_not_scratch:
  assumes "\<not> suffix ''.tmp'' (k @ rest)" and "\<forall>c\<in>set k. 48 \<le> byte c" and "hd (tl rest) \<noteq> CHR ''b''"
    and "1 < length rest"
  shows "\<not> is_burlmd_scratch_name (k @ rest)"
proof -
  have "\<not> prefix trash_prefix (k @ rest)"
  proof (cases k)
    case Nil
    then show ?thesis using assms(3,4) by (cases rest; cases "tl rest") (auto simp: trash_prefix_def)
  next
    case (Cons c k')
    then show ?thesis using assms(2) by (auto simp: trash_prefix_def byte_def)
  qed
  then show ?thesis
    using assms(1) by (auto simp: is_burlmd_scratch_name_def strip_prefix_Some strip_suffix_Some suffix_def
        split: option.splits)
qed

lemma not_tmp: "last s \<noteq> CHR ''p'' \<Longrightarrow> \<not> suffix ''.tmp'' (x @ s)" if "s \<noteq> []"
proof
  assume l: "last s \<noteq> CHR ''p''" and "suffix ''.tmp'' (x @ s)"
  then obtain y where y: "x @ s = y @ ''.tmp''" by (auto simp: suffix_def)
  have "last (x @ s) = CHR ''p''" unfolding y by simp
  then show False using l that by simp
qed

lemma session_file_paths:
  "file_path (snapshot_path digest root i)" "file_path (later_version_guard_path digest root i)"
  using name_not_scratch [of "key digest i" "''.json''"] not_tmp [of "''.json''" "key digest i"]
    name_not_scratch [of "key digest i" "''.later-version-refused''"]
    not_tmp [of "''.later-version-refused''" "key digest i"] key_chars
  by (auto simp: file_path_def scratch_path_def snapshot_path_def snapshot_name_def later_version_guard_path_def)

lemma decimal_last: "last (decimal n) \<in> set (decimal n)"
  using is_decimal_decimal [of n] by (auto simp: is_decimal_def)

lemma quarantine_path_facts:
  "\<not> scratch_path (quarantine_path digest root i reason pid n)"
  "quarantine_path digest root i reason pid n \<noteq> snapshot_path digest root i"
  "quarantine_path digest root i reason pid n \<noteq> later_version_guard_path digest root i"
  "quarantine_path digest root i reason pid m = quarantine_path digest root i reason pid n \<longleftrightarrow> m = n"
  "butlast (quarantine_path digest root i reason pid n) = butlast (snapshot_path digest root i)"
proof -
  have "is_ascii_digit (last (decimal n))"
    using is_decimal_decimal [of n] decimal_last [of n] by (simp add: is_decimal_def list_all_iff)
  then have d: "last (decimal n) \<noteq> CHR ''p''" "decimal n \<noteq> []"
    using is_decimal_decimal [of n] by (auto simp: is_decimal_def is_ascii_digit_def byte_def)
  have "\<not> suffix ''.tmp'' (snapshot_name digest i @ ''.'' @ reason @ ''.'' @ decimal pid @ ''.'' @ decimal n)"
    using not_tmp [OF d(2,1), of "snapshot_name digest i @ ''.'' @ reason @ ''.'' @ decimal pid @ ''.''"] by simp
  then show "\<not> scratch_path (quarantine_path digest root i reason pid n)"
    using name_not_scratch [of "key digest i" "''.json.'' @ reason @ ''.'' @ decimal pid @ ''.'' @ decimal n"] key_chars
    by (simp add: scratch_path_def quarantine_path_def snapshot_name_def)
  show "quarantine_path digest root i reason pid n \<noteq> snapshot_path digest root i"
    by (simp add: quarantine_path_def snapshot_path_def snapshot_name_def)
  show "quarantine_path digest root i reason pid n \<noteq> later_version_guard_path digest root i"
    by (simp add: quarantine_path_def later_version_guard_path_def snapshot_name_def)
  show "quarantine_path digest root i reason pid m = quarantine_path digest root i reason pid n \<longleftrightarrow> m = n"
    by (simp add: quarantine_path_def decimal_inj)
  show "butlast (quarantine_path digest root i reason pid n) = butlast (snapshot_path digest root i)"
    by (simp add: quarantine_path_def snapshot_path_def)
qed

lemma guard_not_snapshot: "later_version_guard_path digest root i \<noteq> snapshot_path digest root i"
  by (simp add: later_version_guard_path_def snapshot_path_def snapshot_name_def)

subsection \<open>The quarantine loop\<close>

definition isolated_bytes :: "path \<Rightarrow> (nat \<Rightarrow> path) \<Rightarrow> store \<Rightarrow> store \<Rightarrow> bool" where
  "isolated_bytes p nm st st' \<longleftrightarrow>
     (\<forall>q. q \<noteq> p \<longrightarrow> q \<notin> range nm \<longrightarrow> look st' q = look st q)
     \<and> (\<forall>q. q \<noteq> p \<longrightarrow> look st q \<noteq> None \<longrightarrow> look st' q = look st q)
     \<and> (look st' p = look st p \<or> (look st' p = None \<and> (\<exists>n. look st' (nm n) = look st p)))
     \<and> (wf_tree (st_tree st) \<longrightarrow> wf_tree (st_tree st')) \<and> (st_faults st = [] \<longrightarrow> st_faults st' = [])"

lemma taken_finite:
  assumes "inj nm"
  shows "finite {m. look st (nm m) \<noteq> None}"
proof -
  have "nm ` {m. look st (nm m) \<noteq> None} \<subseteq> dom (map_of (st_tree st))" by auto
  then have "finite (nm ` {m. look st (nm m) \<noteq> None})" using finite_dom_map_of finite_subset by blast
  then show ?thesis using assms finite_imageD inj_on_subset by blast
qed

lemma quarantine_loop_result:
  assumes inj: "inj nm" and p: "p \<notin> range nm" and dir: "\<And>n. butlast (nm n) = butlast p"
  shows "\<exists>r n' st'. quarantine_loop p nm n st = Some (r, n', st') \<and> isolated_bytes p nm st st'
    \<and> (r = Inr () \<longrightarrow> wf_tree (st_tree st) \<longrightarrow> look st' p = None)"
proof (induction "card {m. n \<le> m \<and> look st (nm m) \<noteq> None}" arbitrary: n st rule: less_induct)
  case less
  obtain r1 s1 where 1: "fs_hard_link p (nm n) st = (r1, s1)" by (cases "fs_hard_link p (nm n) st")
  note e1 = fs_hard_link_effect [OF 1]
  have k1: "st_faults st = [] \<longrightarrow> st_faults s1 = []"
    using 1 sys_fields unfolding fs_hard_link_def by fastforce
  consider "r1 = Inr ()" | "r1 = Inl ExistsErr" | e where "r1 = Inl e" "e \<noteq> ExistsErr" by (cases r1) auto
  then show ?case
  proof cases
    case 1
    obtain r2 s2 where 2: "fs_remove_file p s1 = (r2, s2)" by (cases "fs_remove_file p s1")
    note e2 = fs_remove_file_effect [OF 2]
    have k2: "st_faults s1 = [] \<longrightarrow> st_faults s2 = []"
      using 2 sys_fields unfolding fs_remove_file_def by fastforce
    have np: "p \<noteq> nm n" using p by auto
    have link: "look s1 (nm n) = look st p" "look st (nm n) = None" "look s1 p = look st p"
      using e1 1 np by auto
    have gone: "r2 = Inr () \<or> r2 = Inl NotFoundErr \<longrightarrow> look s2 p = None"
      using 2 unfolding fs_remove_file_def by (elim sysE) (auto split: option.splits node.splits)
    have nm: "isolated_bytes p nm st s2"
      unfolding isolated_bytes_def
    proof (intro conjI allI impI)
      show "look s2 p = look st p \<or> look s2 p = None \<and> (\<exists>n. look s2 (nm n) = look st p)"
        using e2 link np by (cases "r2 = Inr ()") auto
      show "wf_tree (st_tree st) \<Longrightarrow> wf_tree (st_tree s2)"
        using wf_hard_link [OF \<open>fs_hard_link p (nm n) st = (r1, s1)\<close>] wf_remove_file [OF 2] by blast
      fix q assume "q \<noteq> p"
      then have q: "look s2 q = look s1 q" "q \<noteq> nm n \<longrightarrow> look s1 q = look st q" using e1 e2 by auto
      show "look s2 q = look st q" if "q \<notin> range nm" using q that by auto
      show "look s2 q = look st q" if "look st q \<noteq> None" using q that link by auto
    qed (use k1 k2 in auto)
    have "quarantine_loop p nm n st = Some (if r2 = Inr () \<or> r2 = Inl NotFoundErr then Inr ()
        else Inl (IoError ''remove quarantined session snapshot''), Suc n, s2)"
      using \<open>fs_hard_link p (nm n) st = (r1, s1)\<close> 1 2
      by (subst quarantine_loop.simps) (auto split: sum.splits)
    then show ?thesis using nm gone by auto
  next
    case 2
    then have taken: "look st (nm n) \<noteq> None" and t1: "st_tree s1 = st_tree st" using e1 by auto
    have "{m. Suc n \<le> m \<and> look s1 (nm m) \<noteq> None} \<subset> {m. n \<le> m \<and> look st (nm m) \<noteq> None}"
    proof (rule psubsetI)
      show "{m. Suc n \<le> m \<and> look s1 (nm m) \<noteq> None} \<subseteq> {m. n \<le> m \<and> look st (nm m) \<noteq> None}"
        using t1 by auto
      have "n \<in> {m. n \<le> m \<and> look st (nm m) \<noteq> None}" using taken by simp
      moreover have "n \<notin> {m. Suc n \<le> m \<and> look s1 (nm m) \<noteq> None}" by simp
      ultimately show "{m. Suc n \<le> m \<and> look s1 (nm m) \<noteq> None} \<noteq> {m. n \<le> m \<and> look st (nm m) \<noteq> None}"
        by blast
    qed
    moreover have "finite {m. n \<le> m \<and> look st (nm m) \<noteq> None}"
      using taken_finite [OF inj, of st] by (rule rev_finite_subset) auto
    ultimately have "card {m. Suc n \<le> m \<and> look s1 (nm m) \<noteq> None} < card {m. n \<le> m \<and> look st (nm m) \<noteq> None}"
      by (rule psubset_card_mono [rotated])
    from less [OF this] obtain r n' st' where IH: "quarantine_loop p nm (Suc n) s1 = Some (r, n', st')"
        "isolated_bytes p nm s1 st'" "r = Inr () \<longrightarrow> wf_tree (st_tree s1) \<longrightarrow> look st' p = None" by blast
    have "quarantine_loop p nm n st = Some (r, n', st')"
      using \<open>fs_hard_link p (nm n) st = (r1, s1)\<close> 2 IH(1) by (subst quarantine_loop.simps) simp
    then show ?thesis using IH t1 k1 by (auto simp: isolated_bytes_def)
  next
    case 3
    then have t1: "st_tree s1 = st_tree st" using e1 by auto
    have "look st p = None" if "e = NotFoundErr" "wf_tree (st_tree st)"
    proof (rule ccontr)
      assume "look st p \<noteq> None"
      then have "look st (butlast (nm n)) = Some NDir" using wf_butlast [OF that(2)] dir by simp
      then show False
        using \<open>fs_hard_link p (nm n) st = (r1, s1)\<close> 3 that(1) \<open>look st p \<noteq> None\<close>
        unfolding fs_hard_link_def by (elim sysE) (auto split: option.splits node.splits if_splits)
    qed
    moreover have "quarantine_loop p nm n st = Some (if e = NotFoundErr then Inr ()
        else Inl (IoError ''quarantine session snapshot''), Suc n, s1)"
      using \<open>fs_hard_link p (nm n) st = (r1, s1)\<close> 3 by (subst quarantine_loop.simps) simp
    ultimately show ?thesis using t1 k1 by (auto simp: isolated_bytes_def)
  qed
qed

subsection \<open>The operations\<close>

text \<open>
  What an operation does to the store of one workspace: \<open>P\<close> is the snapshot's path, \<open>G\<close> its guard. Bytes
  stay where they are or move to a quarantine name, and nothing else that has a name is touched.
\<close>

definition keeps_others :: "(string \<Rightarrow> nat list) \<Rightarrow> path \<Rightarrow> string \<Rightarrow> store \<Rightarrow> store \<Rightarrow> bool" where
  "keeps_others digest root i st st' \<longleftrightarrow>
     (let P = snapshot_path digest root i; G = later_version_guard_path digest root i in
      (\<forall>q. q \<noteq> P \<longrightarrow> q \<noteq> G \<longrightarrow> \<not> scratch_path q \<longrightarrow> look st q \<noteq> None \<longrightarrow> look st' q = look st q)
      \<and> (look st G \<noteq> None \<longrightarrow> look st' G \<noteq> None))"

definition keeps_snapshot :: "(string \<Rightarrow> nat list) \<Rightarrow> path \<Rightarrow> string \<Rightarrow> store \<Rightarrow> store \<Rightarrow> bool" where
  "keeps_snapshot digest root i st st' \<longleftrightarrow>
     (let n = look st (snapshot_path digest root i) in
      n \<noteq> None \<longrightarrow> look st' (snapshot_path digest root i) = n
        \<or> (\<exists>reason pid k. look st' (quarantine_path digest root i reason pid k) = n))"

definition keeps_bytes :: "(string \<Rightarrow> nat list) \<Rightarrow> path \<Rightarrow> string \<Rightarrow> store \<Rightarrow> store \<Rightarrow> bool" where
  "keeps_bytes digest root i st st' \<longleftrightarrow> keeps_others digest root i st st' \<and> keeps_snapshot digest root i st st'"

lemmas keeps_defs = keeps_bytes_def keeps_others_def keeps_snapshot_def Let_def

lemma keeps_bytes_refl: "st_tree st' = st_tree st \<Longrightarrow> keeps_bytes digest root i st st'"
  by (simp add: keeps_defs)

lemma quarantine_result:
  obtains r st' n where "quarantine digest root i reason ss = (r, \<lparr>ss_files = st', ss_next = n\<rparr>)"
    "keeps_bytes digest root i (ss_files ss) st'"
    "look st' (later_version_guard_path digest root i) = look (ss_files ss) (later_version_guard_path digest root i)"
    "wf_tree (st_tree (ss_files ss)) \<longrightarrow> wf_tree (st_tree st')"
    "r = Inr () \<longrightarrow> wf_tree (st_tree (ss_files ss)) \<longrightarrow> look st' (snapshot_path digest root i) = None"
proof -
  let ?P = "snapshot_path digest root i" and ?G = "later_version_guard_path digest root i"
  let ?nm = "quarantine_path digest root i reason (st_pid (ss_files ss))"
  have inj: "inj ?nm" and np: "?P \<notin> range ?nm"
    using quarantine_path_facts(4) by (auto simp: inj_def quarantine_path_facts(2) [symmetric])
  obtain r n' st' where q: "quarantine_loop ?P ?nm (ss_next ss) (ss_files ss) = Some (r, n', st')"
      "isolated_bytes ?P ?nm (ss_files ss) st'"
      "r = Inr () \<longrightarrow> wf_tree (st_tree (ss_files ss)) \<longrightarrow> look st' ?P = None"
    using quarantine_loop_result [OF inj np quarantine_path_facts(5)] by blast
  have g: "look st' ?G = look (ss_files ss) ?G"
  proof -
    have "?G \<notin> range ?nm" using quarantine_path_facts(3) by (metis rangeE)
    then show ?thesis using q(2) guard_not_snapshot by (simp add: isolated_bytes_def)
  qed
  have "keeps_bytes digest root i (ss_files ss) st'"
    using q(2) g by (auto simp: isolated_bytes_def keeps_defs)
  moreover have "quarantine digest root i reason ss = (r, \<lparr>ss_files = st', ss_next = n'\<rparr>)"
    using q(1) by (simp add: quarantine_def)
  ultimately show ?thesis using that q g by (auto simp: isolated_bytes_def)
qed

lemma keeps_bytes_trans:
  assumes "keeps_bytes digest root i a b" and "keeps_bytes digest root i b c"
    and "look b (snapshot_path digest root i) = look a (snapshot_path digest root i)"
  shows "keeps_bytes digest root i a c"
  using assms unfolding keeps_defs by metis

lemma guard_write:
  assumes "atomic_write (later_version_guard_path digest root i) b st = (r, st')"
  shows "keeps_bytes digest root i st st'"
    and "look st' (snapshot_path digest root i) = look st (snapshot_path digest root i)"
    and "r = Inr () \<Longrightarrow> look st' (later_version_guard_path digest root i) \<noteq> None"
proof -
  note e = atomic_write_effect [OF assms session_file_paths(2)]
  have p: "\<not> scratch_path (snapshot_path digest root i)" using session_file_paths(1) by (simp add: file_path_def)
  show s: "look st' (snapshot_path digest root i) = look st (snapshot_path digest root i)"
    using e temp_path_other [OF session_file_paths(2) p] guard_not_snapshot by metis
  show "r = Inr () \<Longrightarrow> look st' (later_version_guard_path digest root i) \<noteq> None" using e by simp
  have "look st' q = look st q" if "q \<noteq> later_version_guard_path digest root i" "\<not> scratch_path q" for q
    using e temp_path_other [OF session_file_paths(2) that(2)] that(1) by metis
  moreover have "look st' (later_version_guard_path digest root i) \<noteq> None"
    if "look st (later_version_guard_path digest root i) \<noteq> None"
    using e that by (cases "r = Inr ()") auto
  ultimately show "keeps_bytes digest root i st st'" using s by (simp add: keeps_defs)
qed

lemma quarantine_and_default_result:
  obtains r ss' where "quarantine_and_default digest root i reason later ss = (r, ss')"
    "keeps_bytes digest root i (ss_files ss) (ss_files ss')"
    "r \<noteq> Inr default_snapshot \<longrightarrow> (\<exists>e. r = Inl e)"
    "later \<longrightarrow> r = Inr default_snapshot \<longrightarrow> look (ss_files ss') (later_version_guard_path digest root i) \<noteq> None"
proof -
  let ?G = "later_version_guard_path digest root i"
  obtain r1 s1 where 1: "(if later then (case atomic_write ?G ''refused'' (ss_files ss) of (r, st) \<Rightarrow> (r, ss\<lparr>ss_files := st\<rparr>))
      else (Inr (), ss)) = (r1, s1)" by (metis surj_pair)
  have k1: "keeps_bytes digest root i (ss_files ss) (ss_files s1)"
    "look (ss_files s1) (snapshot_path digest root i) = look (ss_files ss) (snapshot_path digest root i)"
    "later \<longrightarrow> r1 = Inr () \<longrightarrow> look (ss_files s1) ?G \<noteq> None"
    using 1 guard_write [of digest root i "''refused''" "ss_files ss"] keeps_bytes_refl
    by (auto split: if_splits prod.splits)
  show ?thesis
  proof (cases r1)
    case (Inl e)
    then have "quarantine_and_default digest root i reason later ss = (Inl e, s1)"
      using 1 by (simp add: quarantine_and_default_def)
    then show ?thesis using that k1 by auto
  next
    case (Inr u)
    obtain r2 st2 n2 where 2: "quarantine digest root i reason s1 = (r2, \<lparr>ss_files = st2, ss_next = n2\<rparr>)"
        "keeps_bytes digest root i (ss_files s1) st2" "look st2 ?G = look (ss_files s1) ?G"
      by (rule quarantine_result)
    have "quarantine_and_default digest root i reason later ss =
        ((case r2 of Inl e \<Rightarrow> Inl e | Inr _ \<Rightarrow> Inr default_snapshot), \<lparr>ss_files = st2, ss_next = n2\<rparr>)"
      using 1 2(1) Inr by (simp add: quarantine_and_default_def split: sum.splits)
    moreover have "keeps_bytes digest root i (ss_files ss) st2"
      using keeps_bytes_trans [OF k1(1) 2(2) k1(2)] .
    ultimately show ?thesis using that 2(3) k1(3) Inr by (auto split: sum.splits)
  qed
qed

lemma read_snapshot_result:
  "read_snapshot p ss = (r, ss') \<Longrightarrow>
   st_tree (ss_files ss') = st_tree (ss_files ss)
   \<and> (\<forall>b. r = Inr b \<longrightarrow> (\<exists>m. look (ss_files ss) p = Some (NFile b m)))
   \<and> (r = Inl NotFoundErr \<longrightarrow> look (ss_files ss) p = None)"
  using fs_read_effect by (auto simp: read_snapshot_def split: prod.splits)

lemma mkdir_loop_adds: "map_of t q \<noteq> None \<Longrightarrow> map_of (snd (mkdir_loop t pre cs)) q = map_of t q"
proof (induction cs arbitrary: t pre)
  case (Cons c cs)
  show ?case
  proof (cases "map_of t (pre @ [c])")
    case None
    then have "q \<noteq> pre @ [c]" using Cons.prems by auto
    then show ?thesis using Cons None by (simp add: Let_def)
  next
    case (Some n)
    then show ?thesis using Cons by (cases n) (simp_all add: Let_def)
  qed
qed simp

lemma create_dir_all_adds:
  "fs_create_dir_all p st = (r, st') \<Longrightarrow> look st q \<noteq> None \<Longrightarrow> look st' q = look st q"
  unfolding fs_create_dir_all_def using mkdir_loop_adds by (elim sysE) auto

lemma load_keeps: "keeps_bytes digest root (ws_id ws) (ss_files ss) (ss_files (snd (load json_parse digest root ws ss)))"
proof -
  let ?P = "snapshot_path digest root (ws_id ws)"
  obtain r s1 where 1: "read_snapshot ?P ss = (r, s1)" by (cases "read_snapshot ?P ss")
  have t: "st_tree (ss_files s1) = st_tree (ss_files ss)" using read_snapshot_result [OF 1] by simp
  have q: "keeps_bytes digest root (ws_id ws) (ss_files ss)
      (ss_files (snd (quarantine_and_default digest root (ws_id ws) reason later s1)))" for reason later
    by (rule quarantine_and_default_result [of digest root "ws_id ws" reason later s1])
       (use t in \<open>auto simp: keeps_defs\<close>)
  show ?thesis
    using 1 q keeps_bytes_refl [OF t]
    by (cases r) (auto simp: load_def Let_def split: verdict.splits)
qed

lemma clear_keeps:
  "keeps_bytes digest root (ws_id ws) (ss_files ss) (ss_files (snd (clear_corrupt json_parse digest root ws ss)))"
proof -
  let ?P = "snapshot_path digest root (ws_id ws)"
  obtain r s1 where 1: "read_snapshot ?P ss = (r, s1)" by (cases "read_snapshot ?P ss")
  have t: "st_tree (ss_files s1) = st_tree (ss_files ss)" using read_snapshot_result [OF 1] by simp
  have q: "keeps_bytes digest root (ws_id ws) (ss_files ss)
      (ss_files (snd (quarantine_and_default digest root (ws_id ws) reason later s1)))" for reason later
    by (rule quarantine_and_default_result [of digest root "ws_id ws" reason later s1])
       (use t in \<open>auto simp: keeps_defs\<close>)
  have q': "keeps_bytes digest root (ws_id ws) (ss_files ss) (ss_files (snd (quarantine digest root (ws_id ws) reason s1)))"
    for reason
    by (rule quarantine_result [of digest root "ws_id ws" reason s1]) (use t in \<open>auto simp: keeps_defs\<close>)
  have "ss_files (snd (case quarantine_and_default digest root (ws_id ws) reason True s1 of
        (Inl e, ss) \<Rightarrow> (Inl e, ss) | (Inr x, ss) \<Rightarrow> (Inr (), ss)))
      = ss_files (snd (quarantine_and_default digest root (ws_id ws) reason True s1))" for reason
    by (simp split: prod.splits sum.splits)
  then show ?thesis
    using 1 q q' keeps_bytes_refl [OF t]
    by (cases r) (auto simp: clear_corrupt_def Let_def split: verdict.splits)
qed

lemma prepare_result:
  assumes "prepare_normal_path_write json_parse digest root ws ss = (r, ss')"
  shows "keeps_bytes digest root (ws_id ws) (ss_files ss) (ss_files ss')
    \<and> (look (ss_files ss) (later_version_guard_path digest root (ws_id ws)) \<noteq> None \<longrightarrow>
         r \<noteq> Inr () \<and> st_tree (ss_files ss') = st_tree (ss_files ss))
    \<and> (r = Inr () \<longrightarrow> wf_tree (st_tree (ss_files ss)) \<longrightarrow>
         look (ss_files ss') (snapshot_path digest root (ws_id ws)) = None
         \<or> (\<exists>b m v. look (ss_files ss) (snapshot_path digest root (ws_id ws)) = Some (NFile b m)
              \<and> judge json_parse ws b = Valid v))"
proof -
  let ?P = "snapshot_path digest root (ws_id ws)" and ?G = "later_version_guard_path digest root (ws_id ws)"
  obtain r1 s1 where 1: "ensure_no_later_version_guard digest root (ws_id ws) ss = (r1, s1)"
    by (cases "ensure_no_later_version_guard digest root (ws_id ws) ss")
  have t1: "st_tree (ss_files s1) = st_tree (ss_files ss)" "r1 = Inr () \<longrightarrow> look (ss_files ss) ?G = None"
    using 1 fs_mode_effect [of ?G "ss_files ss"]
    by (auto simp: ensure_no_later_version_guard_def split: prod.splits sum.splits if_splits)
  show ?thesis
  proof (cases r1)
    case (Inl e)
    then show ?thesis using assms 1 t1 keeps_bytes_refl [OF t1(1)] by (auto simp: prepare_normal_path_write_def)
  next
    case ok: (Inr u)
    obtain r2 s2 where 2: "read_snapshot ?P s1 = (r2, s2)" by (cases "read_snapshot ?P s1")
    note e2 = read_snapshot_result [OF 2]
    have t2: "st_tree (ss_files s2) = st_tree (ss_files ss)" using e2 t1 by simp
    show ?thesis
    proof (cases r2)
      case (Inl e)
      then show ?thesis using assms 1 2 ok t1 t2 e2 keeps_bytes_refl [OF t2]
        by (auto simp: prepare_normal_path_write_def split: if_splits)
    next
      case (Inr bytes)
      obtain m where m: "look (ss_files ss) ?P = Some (NFile bytes m)" using e2 Inr t1 by auto
      have refuse: ?thesis if "(case quarantine_and_default digest root (ws_id ws) reason True s2 of
          (Inl e, ss) \<Rightarrow> (Inl e, ss) | (Inr _, ss) \<Rightarrow> (Inl normal_path_refusal, ss)) = (r, ss')" for reason
        by (rule quarantine_and_default_result [of digest root "ws_id ws" reason True s2])
           (use that t1 t2 ok in \<open>auto simp: keeps_defs split: sum.splits\<close>)
      have invalid: ?thesis if "quarantine digest root (ws_id ws) ''invalid'' s2 = (r, ss')"
        by (rule quarantine_result [of digest root "ws_id ws" "''invalid''" s2])
           (use that t1 t2 ok in \<open>auto simp: keeps_defs\<close>)
      have valid: ?thesis if "judge json_parse ws bytes = Valid v" "r = Inr ()" "ss' = s2" for v
        using that t1 t2 ok m keeps_bytes_refl [OF t2] by auto
      have "prepare_normal_path_write json_parse digest root ws ss =
          (let refused = (\<lambda>reason. (case quarantine_and_default digest root (ws_id ws) reason True s2 of
                  (Inl e, ss) \<Rightarrow> (Inl e, ss) | (Inr _, ss) \<Rightarrow> (Inl normal_path_refusal, ss)))
           in case judge json_parse ws bytes of
                Corrupt \<Rightarrow> refused ''corrupt'' | Later_Version \<Rightarrow> refused ''later'' | Unknown_Version \<Rightarrow> refused ''unknown''
              | Invalid \<Rightarrow> quarantine digest root (ws_id ws) ''invalid'' s2
              | Valid _ \<Rightarrow> (Inr (), s2))"
        using 1 2 ok Inr by (simp add: prepare_normal_path_write_def)
      then show ?thesis
        using assms refuse invalid valid by (cases "judge json_parse ws bytes") (auto simp: Let_def)
    qed
  qed
qed

lemma save_result:
  assumes "save json_parse json_print digest root ws s ss = (r, ss')" and wf: "wf_tree (st_tree (ss_files ss))"
  shows "keeps_others digest root (ws_id ws) (ss_files ss) (ss_files ss')
    \<and> (keeps_snapshot digest root (ws_id ws) (ss_files ss) (ss_files ss')
        \<or> (\<exists>b m v. look (ss_files ss) (snapshot_path digest root (ws_id ws)) = Some (NFile b m)
             \<and> judge json_parse ws b = Valid v))
    \<and> (r = Inr () \<longrightarrow> validate_semantics ws (from_snapshot ws s) = Inr ()
        \<and> (\<exists>m. look (ss_files ss') (snapshot_path digest root (ws_id ws))
              = Some (NFile (json_print (persisted_json (from_snapshot ws s))) m)))
    \<and> (look (ss_files ss) (later_version_guard_path digest root (ws_id ws)) \<noteq> None \<longrightarrow>
        r \<noteq> Inr () \<and> st_tree (ss_files ss') = st_tree (ss_files ss))"
proof -
  let ?P = "snapshot_path digest root (ws_id ws)" and ?G = "later_version_guard_path digest root (ws_id ws)"
  obtain r1 s1 where 1: "prepare_normal_path_write json_parse digest root ws ss = (r1, s1)"
    by (cases "prepare_normal_path_write json_parse digest root ws ss")
  note e1 = prepare_result [OF 1]
  show ?thesis
  proof (cases r1)
    case (Inl e)
    then show ?thesis using assms(1) 1 e1 by (auto simp: save_def keeps_bytes_def)
  next
    case ok: (Inr u)
    then have g: "look (ss_files ss) ?G = None" using e1 by auto
    obtain r2 st2 where 2: "fs_create_dir_all root (ss_files s1) = (r2, st2)"
      by (cases "fs_create_dir_all root (ss_files s1)")
    have a2: "look st2 q = look (ss_files s1) q" if "look (ss_files s1) q \<noteq> None" for q
      using create_dir_all_adds [OF 2 that] .
    have k2: "keeps_bytes digest root (ws_id ws) (ss_files ss) st2"
      using e1 a2 unfolding keeps_defs by (metis (no_types, lifting))
    obtain r3 st3 where 3: "atomic_write ?P (json_print (persisted_json (from_snapshot ws s))) st2 = (r3, st3)"
      by (cases "atomic_write ?P (json_print (persisted_json (from_snapshot ws s))) st2")
    note e3 = atomic_write_effect [OF 3 session_file_paths(1)]
    have f3: "look st3 q = look st2 q" if "q \<noteq> ?P" "\<not> scratch_path q" for q
      using e3 temp_path_other [OF session_file_paths(1) that(2)] that(1) by metis
    have ng: "\<not> scratch_path ?G" using session_file_paths(2) by (simp add: file_path_def)
    have o3: "keeps_others digest root (ws_id ws) (ss_files ss) st3"
      using k2 f3 ng guard_not_snapshot g unfolding keeps_defs by (metis (no_types, lifting))
    have s3: "keeps_snapshot digest root (ws_id ws) (ss_files ss) st3
        \<or> (\<exists>b m v. look (ss_files ss) ?P = Some (NFile b m) \<and> judge json_parse ws b = Valid v)"
    proof (cases "\<exists>b m v. look (ss_files ss) ?P = Some (NFile b m) \<and> judge json_parse ws b = Valid v")
      case False
      then have "look (ss_files s1) ?P = None" using e1 ok wf by auto
      then have "look (ss_files ss) ?P \<noteq> None \<longrightarrow>
          (\<exists>reason pid k. look (ss_files s1) (quarantine_path digest root (ws_id ws) reason pid k) = look (ss_files ss) ?P)"
        using e1 unfolding keeps_defs by metis
      moreover have "look st3 (quarantine_path digest root (ws_id ws) reason pid k)
          = look (ss_files s1) (quarantine_path digest root (ws_id ws) reason pid k)"
        if "look (ss_files s1) (quarantine_path digest root (ws_id ws) reason pid k) \<noteq> None" for reason pid k
        using a2 [OF that] f3 [OF quarantine_path_facts(2,1)] by simp
      ultimately show ?thesis unfolding keeps_snapshot_def Let_def by metis
    qed auto
    have "save json_parse json_print digest root ws s ss = (case r2 of Inl _ \<Rightarrow> (Inl (IoError ''create session snapshot directory''), s1\<lparr>ss_files := st2\<rparr>)
        | Inr _ \<Rightarrow> (case validate_semantics ws (from_snapshot ws s) of Inl e \<Rightarrow> (Inl e, s1\<lparr>ss_files := st2\<rparr>)
            | Inr _ \<Rightarrow> (r3, s1\<lparr>ss_files := st3\<rparr>)))"
      using 1 2 3 ok
      by (cases r2; cases "validate_semantics ws (from_snapshot ws s)") (simp_all add: save_def Let_def)
    then consider e where "r = Inl e" "ss_files ss' = st2"
      | "validate_semantics ws (from_snapshot ws s) = Inr ()" "r = r3" "ss_files ss' = st3"
      using assms(1) by (auto split: sum.splits)
    then show ?thesis
    proof cases
      case 1
      then show ?thesis using k2 g by (simp add: keeps_bytes_def)
    next
      case 2
      then show ?thesis using o3 s3 e3 g by auto
    qed
  qed
qed

lemma save_refused:
  assumes "save json_parse json_print digest root ws s ss = (r, ss')"
    and "look (ss_files ss) (later_version_guard_path digest root (ws_id ws)) \<noteq> None"
  shows "r \<noteq> Inr () \<and> st_tree (ss_files ss') = st_tree (ss_files ss)"
proof -
  obtain r1 s1 where 1: "prepare_normal_path_write json_parse digest root ws ss = (r1, s1)"
    by (cases "prepare_normal_path_write json_parse digest root ws ss")
  show ?thesis using prepare_result [OF 1] assms 1 by (cases r1) (auto simp: save_def)
qed

subsection \<open>Reading back what was saved\<close>

lemma those_strings: "those (map as_str (map JStr xs)) = Some xs"
  by (induction xs) auto

definition json_fields :: "json \<Rightarrow> (string \<times> json) list" where
  "json_fields v = (case v of JObj kvs \<Rightarrow> kvs | _ \<Rightarrow> [])"

lemma read_presentation_name: "read_presentation (JStr (presentation_name sp)) = Some sp"
  by (cases sp) (simp_all add: read_presentation_def presentation_name_def)

lemma parse_persisted:
  assumes "set kvs = set (json_fields (persisted_json p))" and "length kvs = 7" and "distinct (map fst kvs)"
    and "ps_schema_version p = 1"
  shows "snapshot_version (JObj kvs) = VCurrent \<and> parse_current_schema (JObj kvs) = Some p"
proof -
  let ?s = "ps_snapshot p"
  have m: "map_of kvs k = Some v" if "(k, v) \<in> set (json_fields (persisted_json p))" for k v
    using that assms(1,3) by (intro map_of_is_SomeI) simp_all
  have "map_of kvs ''schema_version'' = Some (JInt 1)"
    "map_of kvs ''workspace_id'' = Some (JStr (ps_workspace_id p))"
    "map_of kvs ''open_note_ids'' = Some (JArr (map JStr (sn_open_note_ids ?s)))"
    "map_of kvs ''active_note_id'' = Some (case sn_active_note_id ?s of None \<Rightarrow> JNull | Some i \<Rightarrow> JStr i)"
    "map_of kvs ''expanded_directory_ids'' = Some (JArr (map JStr (sn_expanded_directory_ids ?s)))"
    "map_of kvs ''search_query'' = Some (JStr (sn_search_query ?s))"
    "map_of kvs ''sync_presentation'' = Some (JStr (presentation_name (sn_sync_presentation ?s)))"
    by (intro m; simp add: persisted_json_def Let_def json_fields_def assms(4))+
  moreover have "read_nullable (case sn_active_note_id ?s of None \<Rightarrow> JNull | Some i \<Rightarrow> JStr i)
      = Some (sn_active_note_id ?s)"
    by (simp add: read_nullable_def split: option.splits)
  ultimately show ?thesis
    using assms(2,4)
    by (simp add: snapshot_version_def parse_current_schema_def is_current_schema_version_def schema_keys_def
        those_strings read_presentation_name current_schema_version_def del: map_map)
qed

lemma judge_persisted:
  assumes "json_parse b = Some (JObj kvs)" and "set kvs = set (json_fields (persisted_json (from_snapshot ws s)))"
    and "length kvs = 7" and "distinct (map fst kvs)" and "validate_semantics ws (from_snapshot ws s) = Inr ()"
  shows "judge json_parse ws b = Valid s"
  using parse_persisted [OF assms(2-4)] assms(1,5)
  by (simp add: judge_def from_snapshot_def current_schema_version_def)

section \<open>Properties of session snapshots\<close>

text \<open>The quarantine loop always ends, whatever the store holds and whatever fails: among the numbered names
  only finitely many are taken.\<close>

theorem quarantine_ends:
  "\<exists>r n' st'. quarantine_loop (snapshot_path digest root i) (quarantine_path digest root i reason pid) n st
     = Some (r, n', st')"
proof -
  have "inj (quarantine_path digest root i reason pid)"
    "snapshot_path digest root i \<notin> range (quarantine_path digest root i reason pid)"
    using quarantine_path_facts(4) by (auto simp: inj_def quarantine_path_facts(2) [symmetric])
  from quarantine_loop_result [OF this quarantine_path_facts(5)] show ?thesis by blast
qed

text \<open>C24: No operation on session snapshots loses bytes, whatever fails: what the snapshot file held is, after a
  load, a clear or a save, still there or under a quarantine name, and every other file, the quarantined
  ones included, is untouched; the only bytes a save replaces are those it has read as a valid snapshot of
  this very workspace.\<close>

theorem session_bytes_kept:
  fixes ss :: session_store
  assumes "wf_tree (st_tree (ss_files ss))"
  shows "let kept = (\<lambda>ss'. keeps_snapshot digest root (ws_id ws) (ss_files ss) (ss_files ss'));
             others = (\<lambda>ss'. keeps_others digest root (ws_id ws) (ss_files ss) (ss_files ss'));
             loaded = snd (load json_parse digest root ws ss);
             cleared = snd (clear_corrupt json_parse digest root ws ss);
             saved = snd (save json_parse json_print digest root ws s ss)
    in kept loaded \<and> others loaded \<and> kept cleared \<and> others cleared \<and> others saved
       \<and> (kept saved \<or> (\<exists>b m v. map_of (st_tree (ss_files ss)) (snapshot_path digest root (ws_id ws)) = Some (NFile b m)
              \<and> judge json_parse ws b = Valid v))"
proof -
  obtain r ss' where 1: "save json_parse json_print digest root ws s ss = (r, ss')"
    by (cases "save json_parse json_print digest root ws s ss")
  show ?thesis
    using save_result [OF 1 assms] load_keeps [of digest root ws ss json_parse]
      clear_keeps [of digest root ws ss json_parse] 1
    by (simp add: keeps_bytes_def)
qed

definition sample_workspace :: workspace where
  "sample_workspace = \<lparr>ws_id = ''w'', ws_entries = (\<lambda>_. None)\<rparr>"

definition sample_session :: "string \<Rightarrow> session_store" where
  "sample_session bytes = \<lparr>ss_files = \<lparr>st_tree = [([], NDir), ([''s''], NDir), ([''s'', ''4d.json''], NFile bytes 384)],
     st_faults = [], st_pid = 7, st_next_temp = 0, st_next_create = 0, st_next_trash = 0\<rparr>, ss_next = 0\<rparr>"

lemma sample_session_wf: "wf_tree (st_tree (ss_files (sample_session bytes)))"
  by (auto simp: wf_tree_def sample_session_def split: if_splits)

lemma session_bytes_kept_witness:
  "keeps_snapshot (\<lambda>_. [77]) [''s''] ''w'' (ss_files (sample_session ''junk''))
     (ss_files (snd (save (\<lambda>_. None) (\<lambda>_. []) (\<lambda>_. [77]) [''s''] sample_workspace default_snapshot (sample_session ''junk''))))"
proof -
  have "judge (\<lambda>_. None) sample_workspace b \<noteq> Valid v" for b v by (simp add: judge_def)
  then show ?thesis
    using session_bytes_kept [OF sample_session_wf, of "\<lambda>_. [77]" "[''s'']" sample_workspace "''junk''" "\<lambda>_. None" "\<lambda>_. []"
        default_snapshot]
    by (simp add: Let_def sample_workspace_def)
qed

text \<open>A refusal is durable: once a load has met bytes that are no JSON, of a later version or of none, and has
  answered, every save of that workspace is refused and leaves the disk alone, whatever else fails.\<close>

theorem refusal_is_durable:
  assumes "load json_parse digest root ws ss = (Inr s, ss1)"
    and "map_of (st_tree (ss_files ss)) (snapshot_path digest root (ws_id ws)) = Some (NFile b m)"
    and "judge json_parse ws b \<in> {Corrupt, Later_Version, Unknown_Version}"
    and "st_tree (ss_files ss2) = st_tree (ss_files ss1)"
  shows "s = default_snapshot
    \<and> fst (save json_parse json_print digest root ws s' ss2) \<noteq> Inr ()
    \<and> st_tree (ss_files (snd (save json_parse json_print digest root ws s' ss2))) = st_tree (ss_files ss1)"
proof -
  let ?P = "snapshot_path digest root (ws_id ws)" and ?G = "later_version_guard_path digest root (ws_id ws)"
  obtain r s1 where 1: "read_snapshot ?P ss = (r, s1)" by (cases "read_snapshot ?P ss")
  have r: "r = Inr b \<and> (\<exists>reason. quarantine_and_default digest root (ws_id ws) reason True s1 = (Inr s, ss1))"
    using assms(1,2,3) 1 read_snapshot_result [OF 1]
    by (cases r) (auto simp: load_def Let_def split: if_splits)
  then obtain reason where q: "quarantine_and_default digest root (ws_id ws) reason True s1 = (Inr s, ss1)" by blast
  have g: "s = default_snapshot \<and> look (ss_files ss1) ?G \<noteq> None"
    by (rule quarantine_and_default_result [of digest root "ws_id ws" reason True s1]) (use q in auto)
  obtain r2 s2 where 2: "save json_parse json_print digest root ws s' ss2 = (r2, s2)"
    by (cases "save json_parse json_print digest root ws s' ss2")
  show ?thesis using save_refused [OF 2] assms(4) g 2 by simp
qed

lemma refusal_is_durable_witness:
  "fst (save (\<lambda>_. None) (\<lambda>_. []) (\<lambda>_. [77]) [''s''] sample_workspace default_snapshot
     (snd (load (\<lambda>_. None) (\<lambda>_. [77]) [''s''] sample_workspace (sample_session ''junk'')))) \<noteq> Inr ()"
proof -
  obtain r ss1 where 1: "load (\<lambda>_. None) (\<lambda>_. [77]) [''s''] sample_workspace (sample_session ''junk'') = (r, ss1)"
    by (metis surj_pair)
  have "fst (load (\<lambda>_. None) (\<lambda>_. [77]) [''s''] sample_workspace (sample_session ''junk'')) = Inr default_snapshot"
    by code_simp
  then have r: "r = Inr default_snapshot" using 1 by simp
  have m: "map_of (st_tree (ss_files (sample_session ''junk''))) (snapshot_path (\<lambda>_. [77]) [''s''] (ws_id sample_workspace))
      = Some (NFile ''junk'' 384)"
    by code_simp
  have j: "judge (\<lambda>_. None) sample_workspace ''junk'' \<in> {Corrupt, Later_Version, Unknown_Version}"
    by (simp add: judge_def)
  show ?thesis
    using refusal_is_durable [OF 1 [unfolded r] m j refl] 1 by simp
qed

text \<open>What was saved loads again: after a save that reported success, a load with no fault answers the very
  snapshot and leaves the disk alone. The JSON library is only asked to read back, in whatever order, the
  seven fields it was given to print.\<close>

theorem save_load_round_trip:
  assumes "save json_parse json_print digest root ws s ss = (Inr (), ss')" and "wf_tree (st_tree (ss_files ss))"
    and "json_parse (json_print (persisted_json (from_snapshot ws s))) = Some (JObj kvs)"
    and "set kvs = set (json_fields (persisted_json (from_snapshot ws s)))"
    and "length kvs = 7" and "distinct (map fst kvs)" and "st_faults (ss_files ss') = []"
  shows "fst (load json_parse digest root ws ss') = Inr s
    \<and> st_tree (ss_files (snd (load json_parse digest root ws ss'))) = st_tree (ss_files ss')"
proof -
  let ?P = "snapshot_path digest root (ws_id ws)" and ?b = "json_print (persisted_json (from_snapshot ws s))"
  have v: "validate_semantics ws (from_snapshot ws s) = Inr ()" and "\<exists>m. look (ss_files ss') ?P = Some (NFile ?b m)"
    using save_result [OF assms(1,2)] by auto
  then obtain s1 where "read_snapshot ?P ss' = (Inr ?b, s1)" "st_tree (ss_files s1) = st_tree (ss_files ss')"
    using assms(7) by (auto simp: read_snapshot_def fs_read_def sys_quiet)
  then show ?thesis
    using judge_persisted [of json_parse ?b kvs ws s] assms(3-6) v by (simp add: load_def)
qed

definition sample_snapshot :: snapshot where
  "sample_snapshot = \<lparr>sn_open_note_ids = [''a''], sn_active_note_id = Some ''a'', sn_expanded_directory_ids = [''d''],
     sn_search_query = ''q'', sn_sync_presentation = Paused\<rparr>"

lemma save_load_round_trip_witness:
  "let kvs = json_fields (persisted_json (from_snapshot sample_workspace sample_snapshot));
       parse = (\<lambda>b. if b = ''doc'' then Some (JObj kvs) else None)
   in fst (load parse (\<lambda>_. [77]) [''s''] sample_workspace
        (snd (save parse (\<lambda>_. ''doc'') (\<lambda>_. [77]) [''s''] sample_workspace sample_snapshot (sample_session ''doc''))))
      = Inr sample_snapshot"
proof -
  let ?kvs = "json_fields (persisted_json (from_snapshot sample_workspace sample_snapshot))"
  let ?parse = "\<lambda>b. if b = ''doc'' then Some (JObj ?kvs) else None"
  let ?save = "save ?parse (\<lambda>_. ''doc'') (\<lambda>_. [77]) [''s''] sample_workspace sample_snapshot (sample_session ''doc'')"
  have "fst ?save = Inr ()" "st_faults (ss_files (snd ?save)) = []" by code_simp+
  then have s: "?save = (Inr (), snd ?save)" "st_faults (ss_files (snd ?save)) = []" by (metis prod.collapse)+
  have "length ?kvs = 7" "distinct (map fst ?kvs)" by code_simp+
  then show ?thesis
    using save_load_round_trip [OF s(1) sample_session_wf _ refl _ _ s(2)] by (simp add: Let_def)
qed

end
