(* ===== verification/Edit_Seams.thy ===== *)
theory Edit_Seams
  imports Identity Md_Splice "HOL-Library.Product_Lexorder"
begin

section \<open>Seams and focus\<close>

text \<open>
  The helpers below the structural edits of \<^verbatim>\<open>workspace/persist.rs\<close>: the newline runs on either side of a
  splice (how a block stays separated from its neighbours, and how a separator is spelled), the
  resolution of an address against the freshly parsed source, and the place the focus goes to after the
  splice. Everything is measured in bytes of the working source; only the offsets handed back to the
  editor count UTF-16 units.
\<close>

subsection \<open>Addresses\<close>

definition lift_splice :: "splice_error + 'a \<Rightarrow> 'a result" where
  "lift_splice r = (case r of Inl e \<Rightarrow> Inl (ParseError ''splice'') | Inr x \<Rightarrow> Inr x)"

definition check_span :: "string \<Rightarrow> range \<Rightarrow> unit result" where
  "check_span src span =
     (if snd span < fst span \<or> length src < snd span
         \<or> \<not> is_char_boundary src (fst span) \<or> \<not> is_char_boundary src (snd span)
      then Inl (ParseError ''source range is not addressable in this Note'')
      else Inr ())"

definition block_range :: "span_map \<Rightarrow> block_path \<Rightarrow> range result" where
  "block_range spans path = ok_or (ParseError ''no Block at block_path'') (map_option bs_source (block spans path))"

definition leaves :: "span_map \<Rightarrow> block_span list" where
  "leaves spans = filter is_leaf (sm_blocks spans)"

text \<open>The unique live leaf inside the region the retained span names.\<close>

definition live_leaves_within :: "span_map \<Rightarrow> range \<Rightarrow> block_span list" where
  "live_leaves_within live_spans region =
     filter (\<lambda>b. is_leaf b \<and> fst region \<le> fst (bs_source b) \<and> snd (bs_source b) \<le> snd region)
       (sm_blocks live_spans)"

definition retained_live_path :: "span_map \<Rightarrow> span_map \<Rightarrow> block_path \<Rightarrow> block_path result" where
  "retained_live_path live_spans retained_spans requested_path =
     (case block retained_spans requested_path of
        None \<Rightarrow> Inl (ParseError ''no Block at block_path'')
      | Some retained \<Rightarrow>
          if \<not> is_leaf retained then Inl (ParseError ''no live Block at block_path'')
          else (case live_leaves_within live_spans (bs_source retained) of
                  [b] \<Rightarrow> Inr (bs_path b)
                | [] \<Rightarrow> Inl (ParseError ''no longer names an editable leaf'')
                | _ \<Rightarrow> Inl (ParseError ''became multiple editable leaves'')))"

definition editable_live_path :: "span_map \<Rightarrow> span_map \<Rightarrow> block_path \<Rightarrow> block_path result" where
  "editable_live_path live_spans retained_spans requested_path =
     (case block live_spans requested_path of
        Some b \<Rightarrow>
          if is_leaf b then Inr (bs_path b) else retained_live_path live_spans retained_spans requested_path
      | None \<Rightarrow> retained_live_path live_spans retained_spans requested_path)"

definition live_path :: "span_map \<Rightarrow> span_map \<Rightarrow> block_path \<Rightarrow> block_path result" where
  "live_path live_spans retained_spans requested_path =
     (case block live_spans requested_path of
        Some b \<Rightarrow> Inr (bs_path b)
      | None \<Rightarrow> editable_live_path live_spans retained_spans requested_path)"

text \<open>The closest list on the way down, with the index of the item the path takes in it.\<close>

fun list_item_walk ::
    "ast_node list \<Rightarrow> block_path \<Rightarrow> block_path \<Rightarrow> (block_path \<times> nat) option
     \<Rightarrow> (block_path \<times> nat) option option" where
  "list_item_walk nodes [] pre closest = None"
| "list_item_walk nodes (head # rest) pre closest =
     (if head < length nodes
      then (let is_list = (case nodes ! head of MList _ _ \<Rightarrow> True | _ \<Rightarrow> False)
            in if is_list \<and> rest = [] then None
               else (let closest' = (if is_list then Some (pre @ [head], hd rest) else closest)
                     in if rest = [] then Some closest'
                        else (case nodes ! head of
                                MList _ items \<Rightarrow> list_item_walk items rest (pre @ [head]) closest'
                              | ListItem content _ \<Rightarrow> list_item_walk content rest (pre @ [head]) closest'
                              | Blockquote ns \<Rightarrow> list_item_walk ns rest (pre @ [head]) closest'
                              | Suggestion _ local_c _ \<Rightarrow> list_item_walk local_c rest (pre @ [head]) closest'
                              | _ \<Rightarrow> None)))
      else None)"

definition nearest_list_item :: "ast_node list \<Rightarrow> block_path \<Rightarrow> (block_path \<times> nat) option" where
  "nearest_list_item nodes path = Option.bind (list_item_walk nodes path [] None) (\<lambda>closest. closest)"

fun removable_walk :: "ast_node list \<Rightarrow> block_path \<Rightarrow> bool option" where
  "removable_walk nodes [] = None"
| "removable_walk nodes (head # rest) =
     (if head < length nodes
      then (if rest = [] then Some True
            else (case nodes ! head of
                    MList _ items \<Rightarrow> removable_walk items rest
                  | ListItem content _ \<Rightarrow> if length content = 1 then removable_walk content rest else None
                  | Blockquote ns \<Rightarrow> if length ns = 1 then removable_walk ns rest else None
                  | Suggestion _ local_c _ \<Rightarrow>
                      if length local_c = 1 then removable_walk local_c rest else None
                  | _ \<Rightarrow> Some False))
      else None)"

definition removable_structural_line :: "ast_node list \<Rightarrow> block_path \<Rightarrow> bool" where
  "removable_structural_line nodes path = (case removable_walk nodes path of None \<Rightarrow> False | Some b \<Rightarrow> b)"

definition line_prefix_before :: "string \<Rightarrow> nat \<Rightarrow> string result" where
  "line_prefix_before src content_start =
     and_then (ok_or (ParseError ''source offset is not addressable'') (str_upto src content_start))
       (\<lambda>bef. let line_start = (case rsplit_once LF bef of None \<Rightarrow> 0 | Some (head, _) \<Rightarrow> length head + 1)
                 in ok_or (ParseError ''source line prefix is not addressable'')
                      (str_get src (line_start, content_start)))"

subsection \<open>Newline runs\<close>

definition BLOCK_SEPARATOR_NEWLINES :: nat where
  "BLOCK_SEPARATOR_NEWLINES = 2"

definition trailing_newlines :: "string \<Rightarrow> nat" where
  "trailing_newlines t = length (takeWhile (\<lambda>c. c = LF) (filter (\<lambda>c. c \<noteq> CR) (rev t)))"

definition leading_newlines :: "string \<Rightarrow> nat" where
  "leading_newlines t = length (filter (\<lambda>c. c \<noteq> CR) (takeWhile (\<lambda>c. c = LF \<or> c = CR) t))"

definition newline_run_len :: "string \<Rightarrow> nat" where
  "newline_run_len t = length (takeWhile (\<lambda>c. c = LF \<or> c = CR) t)"

definition repeat_str :: "string \<Rightarrow> nat \<Rightarrow> string" where
  "repeat_str t n = concat (replicate n t)"

definition separator_before :: "string \<Rightarrow> nat \<Rightarrow> string" where
  "separator_before bef required =
     (if bef = [] then []
      else repeat_str (newline_style bef) (required - trailing_newlines bef))"

fun cut_loop :: "string \<Rightarrow> nat \<Rightarrow> nat \<Rightarrow> nat" where
  "cut_loop bytes 0 e = e"
| "cut_loop bytes (Suc n) e =
     (let e1 = e - 1;
          e2 = (if 0 < e1 \<and> bytes ! (e1 - 1) = CR then e1 - 1 else e1)
      in cut_loop bytes n e2)"

definition cut_to_one_trailing_newline :: "string \<Rightarrow> nat" where
  "cut_to_one_trailing_newline t = cut_loop t (trailing_newlines t - 1) (length t)"

definition separator_across :: "string \<Rightarrow> nat \<Rightarrow> nat \<Rightarrow> string" where
  "separator_across src b e =
     (case (str_upto src b, str_get src (b, e), str_from src e) of
        (Some bef, Some removed, Some aft) \<Rightarrow>
          if bef = [] \<or> aft = [] then [] else separator_before bef (trailing_newlines removed)
      | _ \<Rightarrow> [])"

text \<open>The line ending a seam is written with: the text before it decides when it holds one.\<close>

definition seam_newline :: "string \<Rightarrow> string \<Rightarrow> string" where
  "seam_newline bef working = (if LF \<in> set bef then newline_style bef else newline_style working)"

definition source_caret_before_trailing_newline :: "string \<Rightarrow> nat" where
  "source_caret_before_trailing_newline src = utf16_count (trim_end_matches [CR, LF] src)"

subsection \<open>Neighbours\<close>

definition max_of :: "nat list \<Rightarrow> nat option" where
  "max_of xs = max_by_key (\<lambda>x. x) xs"

definition previous_block_end :: "span_map \<Rightarrow> range \<Rightarrow> nat option" where
  "previous_block_end spans span =
     max_of (map (\<lambda>b. snd (bs_source b)) (filter (\<lambda>b. snd (bs_source b) \<le> fst span) (sm_blocks spans)))"

definition first_editable_leaf :: "span_map \<Rightarrow> block_path \<Rightarrow> block_span option" where
  "first_editable_leaf spans parent_path =
     min_by_key (\<lambda>b. fst (bs_source b)) (filter (\<lambda>b. is_leaf b \<and> prefix parent_path (bs_path b)) (sm_blocks spans))"

definition last_editable_leaf :: "span_map \<Rightarrow> block_path \<Rightarrow> block_span option" where
  "last_editable_leaf spans parent_path =
     max_by_key (\<lambda>b. snd (bs_source b)) (filter (\<lambda>b. is_leaf b \<and> prefix parent_path (bs_path b)) (sm_blocks spans))"

definition previous_editable_leaf :: "span_map \<Rightarrow> range \<Rightarrow> block_span option" where
  "previous_editable_leaf spans span =
     max_by_key (\<lambda>b. snd (bs_source b)) (filter (\<lambda>b. is_leaf b \<and> snd (bs_source b) \<le> fst span) (sm_blocks spans))"

subsection \<open>Focus after a splice\<close>

text \<open>\<^verbatim>\<open>usize::clamp\<close>, which panics on an inverted interval; a block's source never is one.\<close>

definition clamp :: "nat \<Rightarrow> nat \<Rightarrow> nat \<Rightarrow> nat" where
  "clamp x lo hi = (if x < lo then lo else if hi < x then hi else x)"

definition inserted_editable_focus :: "string \<Rightarrow> block_span \<Rightarrow> range \<Rightarrow> (block_path \<times> nat) result" where
  "inserted_editable_focus src b inserted =
     and_then (ok_or (ParseError ''unaddressable focus offset'')
                (str_get src (fst (bs_source b), clamp (snd inserted) (fst (bs_source b)) (snd (bs_source b)))))
       (\<lambda>field_prefix. Inr (bs_path b, utf16_count field_prefix))"

definition empty_list_item :: "ast_node list \<Rightarrow> block_path \<Rightarrow> bool" where
  "empty_list_item ast path = (case node_at_path ast path of Some (ListItem content _) \<Rightarrow> content = [] | _ \<Rightarrow> False)"

definition overlaps :: "range \<Rightarrow> range \<Rightarrow> bool" where
  "overlaps a inserted \<longleftrightarrow> fst a < snd inserted \<and> fst inserted < snd a"

definition final_editable_leaf_inserted_under ::
    "string \<Rightarrow> span_map \<Rightarrow> ast_node list \<Rightarrow> block_path \<Rightarrow> range \<Rightarrow> (block_path \<times> nat) result" where
  "final_editable_leaf_inserted_under src spans ast parent_path inserted =
     and_then (ok_or (ParseError ''continued Block created no editable leaf'')
                (max_by_key (\<lambda>b. (fst (bs_source b), snd (bs_source b)))
                   (filter (\<lambda>b. is_leaf b \<and> overlaps (bs_source b) inserted \<and> \<not> empty_list_item ast (bs_path b))
                      (sm_blocks spans))))
       (\<lambda>b. inserted_editable_focus src b inserted)"

definition final_editable_leaf_overlapping :: "string \<Rightarrow> span_map \<Rightarrow> range \<Rightarrow> (block_path \<times> nat) result" where
  "final_editable_leaf_overlapping src spans inserted =
     and_then (ok_or (ParseError ''insertion slot created no editable leaf'')
                (max_by_key (\<lambda>b. (fst (bs_source b), snd (bs_source b)))
                   (filter (\<lambda>b. is_leaf b \<and> overlaps (bs_source b) inserted) (sm_blocks spans))))
       (\<lambda>b. inserted_editable_focus src b inserted)"

datatype range_edit_location =
    RangeBlock block_path nat
  | RangePhantom nat

text \<open>The leaf a join falls into, else the next one, else the last one before it.\<close>

definition leaf_for_join :: "block_span list \<Rightarrow> nat \<Rightarrow> block_span option" where
  "leaf_for_join ls join =
     (case max_by_key (\<lambda>b. fst (bs_source b)) (filter (\<lambda>b. fst (bs_source b) \<le> join \<and> join \<le> snd (bs_source b)) ls) of
        Some b \<Rightarrow> Some b
      | None \<Rightarrow>
          (case min_by_key (\<lambda>b. fst (bs_source b)) (filter (\<lambda>b. join \<le> fst (bs_source b)) ls) of
             Some b \<Rightarrow> Some b
           | None \<Rightarrow> max_by_key (\<lambda>b. snd (bs_source b)) (filter (\<lambda>b. snd (bs_source b) \<le> join) ls)))"

definition range_edit_caret :: "string \<Rightarrow> span_map \<Rightarrow> nat \<Rightarrow> range_edit_location result" where
  "range_edit_caret src spans join =
     (if length src < join \<or> \<not> is_char_boundary src join
      then Inl (ParseError ''range replacement join is not a source character boundary'')
      else (case leaf_for_join (leaves spans) join of
              None \<Rightarrow>
                Inr (RangePhantom (length (filter (\<lambda>b. length (bs_path b) = 1 \<and> snd (bs_source b) \<le> join)
                                             (sm_blocks spans))))
            | Some leaf \<Rightarrow>
                and_then (ok_or (ParseError ''join is not addressable in resulting leaf'')
                           (str_get src (fst (bs_source leaf), clamp join (fst (bs_source leaf)) (snd (bs_source leaf)))))
                  (\<lambda>pre. Inr (RangeBlock (bs_path leaf) (utf16_count pre)))))"

definition editable_leaf_at_or_after_source_offset ::
    "string \<Rightarrow> span_map \<Rightarrow> nat \<Rightarrow> (block_path \<times> nat) result" where
  "editable_leaf_at_or_after_source_offset src spans source_offset =
     and_then (ok_or (ParseError ''no editable leaf follows source offset'')
                (min_by_key (\<lambda>b. fst (bs_source b))
                   (filter (\<lambda>b. (fst (bs_source b) \<le> source_offset \<and> source_offset < snd (bs_source b))
                                \<or> source_offset \<le> fst (bs_source b)) (leaves spans))))
       (\<lambda>leaf. and_then (ok_or (ParseError ''source offset is not addressable in the resulting leaf'')
                          (str_get src (fst (bs_source leaf), max source_offset (fst (bs_source leaf)))))
          (\<lambda>pre. Inr (bs_path leaf, utf16_count pre)))"

subsection \<open>The body of a note and its metadata\<close>

type_synonym reader = "string \<Rightarrow> frontmatter"

definition line_ending_len :: "string \<Rightarrow> nat" where
  "line_ending_len t = (if prefix [CR, LF] t then 2 else if prefix [LF] t then 1 else 0)"

definition whole_note_source_range :: "reader \<Rightarrow> string \<Rightarrow> span_map \<Rightarrow> range result" where
  "whole_note_source_range reader src spans =
     (case sm_frontmatter spans of
        None \<Rightarrow> Inr (0, length src)
      | Some fm \<Rightarrow>
          and_then (ok_or (ParseError ''frontmatter span is not addressable'') (str_get src fm)) (\<lambda>raw.
            if \<not> is_conformant (reader raw) then Inr (0, length src)
            else and_then (ok_or (ParseError ''frontmatter end is not addressable'') (str_from src (snd fm)))
                   (\<lambda>rest. let body_start = snd fm + line_ending_len rest
                           in if is_char_boundary src body_start then Inr (body_start, length src)
                              else Inl (ParseError ''frontmatter boundary is not a character boundary''))))"

record note_metadata =
  md_id :: string
  md_path :: string
  md_title :: string
  md_last_modified :: int
  md_snippet :: "string option"
  md_okf_conformant :: bool

definition derive_metadata :: "reader \<Rightarrow> string \<Rightarrow> string \<Rightarrow> span_map \<Rightarrow> int \<Rightarrow> note_metadata" where
  "derive_metadata reader note_id src spans last_modified =
     (let fm = (case Option.bind (sm_frontmatter spans) (str_get src) of
                  None \<Rightarrow> frontmatter_default
                | Some raw \<Rightarrow> reader raw);
          title = (case fm_title fm of
                     None \<Rightarrow> file_stem note_id
                   | Some t \<Rightarrow> if str_trim t \<noteq> [] then str_trim t else file_stem note_id)
      in \<lparr>md_id = note_id, md_path = concept_id_to_path note_id, md_title = title,
         md_last_modified = last_modified, md_snippet = None, md_okf_conformant = is_conformant fm\<rparr>)"

end
