(* ===== verification/Edit_Ops.thy ===== *)
theory Edit_Ops
  imports Edit_Seams
begin

section \<open>The structural edits\<close>

text \<open>
  What each structural mutator of \<^verbatim>\<open>NoteSession\<close> (\<^verbatim>\<open>workspace/persist.rs\<close>) does to the working source: the
  closure it hands to \<^verbatim>\<open>structural_edit\<close>. A plan reads the working source, the span map and tree of its
  fresh parse and the retained span map, and answers the new source with what the second closure needs,
  or the refusal. Installing the new source, and undoing it, is the session's part (\<open>Note_Session\<close>).
\<close>

type_synonym 'a plan = "string \<Rightarrow> span_map \<Rightarrow> ast_node list \<Rightarrow> span_map \<Rightarrow> (string \<times> 'a) result"

definition with_source :: "splice_error + string \<Rightarrow> 'a \<Rightarrow> (string \<times> 'a) result" where
  "with_source spliced x = and_then (lift_splice spliced) (\<lambda>src. Inr (src, x))"

definition addressable :: "'a option \<Rightarrow> 'a result" where
  "addressable x = ok_or (ParseError ''offset is not addressable'') x"

subsection \<open>Insertion\<close>

definition insert_block :: "block_path \<Rightarrow> string \<Rightarrow> unit plan" where
  "insert_block path src working spans ast retained =
     (let target = block spans path;
          required_after = (if target \<noteq> None then BLOCK_SEPARATOR_NEWLINES else 1);
          at = (case target of None \<Rightarrow> length working | Some b \<Rightarrow> fst (bs_source b))
      in and_then (addressable (str_upto working at)) (\<lambda>bef.
           let newline = seam_newline bef working;
               text = separator_before bef BLOCK_SEPARATOR_NEWLINES @ src
                      @ repeat_str newline (required_after - trailing_newlines src)
           in with_source (splice_source working (at, at) text) ()))"

datatype continuation =
    ContinueList string block_path block_path nat
  | ContinueIndependent nat
  | ContinueEmpty

definition continuation_at ::
    "block_path \<Rightarrow> string \<Rightarrow> span_map \<Rightarrow> ast_node list \<Rightarrow> span_map \<Rightarrow> continuation result" where
  "continuation_at path working spans ast retained =
     (if sm_blocks spans = [] \<and> path = [0] then Inr ContinueEmpty
      else and_then (editable_live_path spans retained path) (\<lambda>live.
           and_then (ok_or (ParseError ''no Block at block_path'') (block spans live)) (\<lambda>leaf.
             if \<not> is_leaf leaf then Inl (ParseError ''does not name an editable leaf'')
             else (case nearest_list_item ast live of
                     Some (list_path, item_index) \<Rightarrow>
                       and_then (line_prefix_before working (fst (bs_source leaf))) (\<lambda>pre.
                         Inr (ContinueList pre live list_path item_index))
                   | None \<Rightarrow> Inr (ContinueIndependent (hd live))))))"

text \<open>The result: the parent the focus is looked for under, and the range of the inserted content.\<close>

definition continue_block_after :: "block_path \<Rightarrow> string \<Rightarrow> (block_path \<times> range) plan" where
  "continue_block_after path src working spans ast retained =
     and_then (continuation_at path working spans ast retained) (\<lambda>continuation.
       case continuation of
         ContinueList marker leaf_path list_path item_index \<Rightarrow>
           and_then (block_range spans leaf_path) (\<lambda>leaf.
             let at = snd leaf; newline = newline_style working;
                 content_start = at + (length newline + length marker)
             in with_source (splice_source working (at, at) (newline @ marker @ src))
                  (list_path @ [item_index + 1], (content_start, content_start + length src)))
       | ContinueIndependent top_index \<Rightarrow>
           and_then (block_range spans [top_index]) (\<lambda>top_level.
             let at = snd top_level
             in and_then (addressable (str_upto working at)) (\<lambda>bef.
                and_then (addressable (str_from working at)) (\<lambda>aft.
                  let newline = seam_newline bef working;
                      required_after = (if aft = [] then 1 else BLOCK_SEPARATOR_NEWLINES);
                      text = separator_before bef BLOCK_SEPARATOR_NEWLINES @ src
                             @ repeat_str newline (required_after - (trailing_newlines src + leading_newlines aft));
                      content_start = at + (length text - length src)
                  in with_source (splice_source working (at, at) text)
                       ([top_index + 1], (content_start, content_start + length src)))))
       | ContinueEmpty \<Rightarrow>
           (let text = separator_before working BLOCK_SEPARATOR_NEWLINES @ src
                       @ repeat_str (newline_style working) (1 - trailing_newlines src);
                content_start = length working + (length text - length src)
            in with_source (splice_source working (length working, length working) text)
                 ([0], (content_start, content_start + length src))))"

record insertion_slot =
  is_source_offset :: nat
  is_line_prefix :: string
  is_required_after :: nat
  is_note_id :: string
  is_fingerprint :: string

definition continue_block_at_insertion_slot ::
    "(string \<Rightarrow> string) \<Rightarrow> string \<Rightarrow> insertion_slot \<Rightarrow> string \<Rightarrow> range plan" where
  "continue_block_at_insertion_slot content_hash note_id slot src working spans ast retained =
     (if is_note_id slot \<noteq> note_id then Inl (ParseError ''phantom insertion slot belongs to another Note'')
      else if is_fingerprint slot \<noteq> content_hash working
      then Inl (ParseError ''phantom insertion slot is stale'')
      else
        (let at = is_source_offset slot
         in if length working < at \<or> \<not> is_char_boundary working at
            then Inl (ParseError ''phantom source offset is not addressable'')
            else and_then (addressable (str_upto working at)) (\<lambda>bef.
                 and_then (addressable (str_from working at)) (\<lambda>aft.
                   let content_start = at + length (is_line_prefix slot);
                       text = is_line_prefix slot @ src
                              @ repeat_str (seam_newline bef working)
                                  (is_required_after slot - (trailing_newlines src + leading_newlines aft))
                   in with_source (splice_source working (at, at) text)
                        (content_start, content_start + length src)))))"

subsection \<open>Deletion\<close>

text \<open>\<^verbatim>\<open>str::get(..).unwrap_or_default()\<close>.\<close>

definition or_empty :: "string option \<Rightarrow> string" where
  "or_empty x = (case x of None \<Rightarrow> [] | Some t \<Rightarrow> t)"

definition delete_extent :: "string \<Rightarrow> range \<Rightarrow> range" where
  "delete_extent working span =
     (let run_end = snd span + newline_run_len (or_empty (str_from working (snd span)))
      in if or_empty (str_from working run_end) = []
         then (cut_to_one_trailing_newline (or_empty (str_upto working (fst span))), snd span)
         else (fst span, run_end))"

definition delete_block :: "block_path \<Rightarrow> unit plan" where
  "delete_block path working spans ast retained =
     and_then (live_path spans retained path) (\<lambda>live.
     and_then (block_range spans live) (\<lambda>span.
       let region = delete_extent working span
       in and_then (check_span working region) (\<lambda>_.
            with_source (splice_source working region (separator_across working (fst region) (snd region))) ())))"

subsection \<open>Splitting\<close>

definition split_block :: "block_path \<Rightarrow> nat \<Rightarrow> unit plan" where
  "split_block path offset working spans ast retained =
     and_then (editable_live_path spans retained path) (\<lambda>live.
     and_then (block_range spans live) (\<lambda>span.
     and_then (ok_or (ParseError ''source range is not addressable'') (str_get working span)) (\<lambda>block_source.
     and_then (ok_or (ParseError ''split offset is not a character boundary'')
                (utf16_to_byte_offset block_source offset)) (\<lambda>byte_offset.
       let at = fst span + byte_offset
       in and_then (addressable (str_upto working at)) (\<lambda>bef.
            with_source (splice_source working (at, at) (repeat_str (seam_newline bef working) 2)) ())))))"

text \<open>
  The tail both editor splits share: the byte offset inside the field is moved into the live leaf, the
  separator is spliced in there, and the focus is read off the parse of the result.
\<close>

definition split_in_field ::
    "(string \<Rightarrow> parsed_note) \<Rightarrow> string \<Rightarrow> nat \<Rightarrow> range \<Rightarrow> nat \<Rightarrow> (string \<times> (block_path \<times> nat)) result" where
  "split_in_field parse working field_start span editor_offset =
     (if fst span < field_start \<or> snd span < field_start
      then Inl (ParseError ''live leaf lies outside the editor source'')
      else if editor_offset < fst span - field_start \<or> snd span - field_start < editor_offset
      then Inl (ParseError ''offset is outside the current editable leaf'')
      else
        (let at = fst span + (editor_offset - (fst span - field_start))
         in and_then (addressable (str_upto working at)) (\<lambda>bef.
              let separator = repeat_str (seam_newline bef working) 2
              in and_then (lift_splice (splice_source working (at, at) separator)) (\<lambda>new_source.
                   and_then (editable_leaf_at_or_after_source_offset new_source
                               (pn_spans (parse new_source)) (at + length separator))
                     (\<lambda>focus. Inr (new_source, focus))))))"

definition retained_leaf :: "span_map \<Rightarrow> block_path \<Rightarrow> block_span result" where
  "retained_leaf retained path =
     and_then (ok_or (ParseError ''no Block at block_path'') (block retained path)) (\<lambda>b.
       if is_leaf b then Inr b else Inl (ParseError ''does not name an editable leaf''))"

definition split_block_from_editor_source ::
    "(string \<Rightarrow> parsed_note) \<Rightarrow> block_path \<Rightarrow> string \<Rightarrow> nat \<Rightarrow> (block_path \<times> nat) plan" where
  "split_block_from_editor_source parse path editor_source offset working spans ast retained =
     and_then (retained_leaf retained path) (\<lambda>field.
     and_then (ok_or (ParseError ''source range is not addressable'') (str_get working (bs_source field)))
       (\<lambda>retained_source.
       if retained_source \<noteq> editor_source then Inl (ParseError ''refusing stale split'')
       else and_then (ok_or (ParseError ''split offset is not a character boundary'')
                       (utf16_to_byte_offset editor_source offset)) (\<lambda>editor_byte_offset.
            and_then (editable_live_path spans retained path) (\<lambda>live.
            and_then (block_range spans live) (\<lambda>span.
              split_in_field parse working (fst (bs_source field)) span editor_byte_offset)))))"

datatype structural_edit_location =
    StructuralBlock block_path nat
  | StructuralPhantom insertion_slot

text \<open>The whole field is selected: the leaf goes, and an insertion slot stays where it was.\<close>

definition clear_field :: "block_path \<Rightarrow> block_span \<Rightarrow> structural_edit_location plan" where
  "clear_field path field working spans ast retained =
     and_then (editable_live_path spans retained path) (\<lambda>live.
     and_then (line_prefix_before working (fst (bs_source field))) (\<lambda>line_prefix.
       let removes_line = (line_prefix \<noteq> [] \<and> removable_structural_line ast live)
       in if removes_line \<and> fst (bs_source field) < length line_prefix
          then Inl (ParseError ''line prefix lies outside the Note'')
          else
            (let delete_start = (if removes_line then fst (bs_source field) - length line_prefix
                                 else fst (bs_source field))
             in and_then (ok_or (ParseError ''source range is not addressable'')
                           (str_from working (snd (bs_source field)))) (\<lambda>aft.
                  let e = snd (bs_source field) + newline_run_len aft
                  in and_then (ok_or (ParseError ''selected field range is not addressable'')
                                (str_get working (delete_start, e))) (\<lambda>removed.
                       if removes_line \<or> line_prefix = []
                       then with_source (splice_source working (delete_start, e) [])
                              (StructuralPhantom
                                 \<lparr>is_source_offset = delete_start,
                                  is_line_prefix = (if removes_line then line_prefix else []),
                                  is_required_after = max (trailing_newlines removed) 1,
                                  is_note_id = [], is_fingerprint = []\<rparr>)
                       else and_then (addressable (str_upto working delete_start)) (\<lambda>bef.
                              with_source (splice_source working (delete_start, e) (seam_newline bef working))
                                (StructuralPhantom
                                   \<lparr>is_source_offset = delete_start, is_line_prefix = [],
                                    is_required_after = 0, is_note_id = [], is_fingerprint = []\<rparr>)))))))"

definition replace_selection_and_split ::
    "(string \<Rightarrow> parsed_note) \<Rightarrow> block_path \<Rightarrow> string \<Rightarrow> nat \<Rightarrow> nat \<Rightarrow> structural_edit_location plan" where
  "replace_selection_and_split parse path editor_source selection_base selection_extent working spans ast retained =
     and_then (retained_leaf retained path) (\<lambda>field.
     and_then (ok_or (ParseError ''selection offset is not a character boundary'')
                (utf16_to_byte_offset editor_source selection_base)) (\<lambda>base.
     and_then (ok_or (ParseError ''selection offset is not a character boundary'')
                (utf16_to_byte_offset editor_source selection_extent)) (\<lambda>extent.
       let selection_start = min base extent; selection_end = max base extent
       in if selection_start = selection_end
          then Inl (ParseError ''replace-selection split requires a non-collapsed selection'')
          else if selection_start = 0 \<and> selection_end = length editor_source
          then clear_field path field working spans ast retained
          else and_then (ok_or (ParseError ''selection is not addressable in editor source'')
                 (case (str_upto editor_source selection_start, str_from editor_source selection_end) of
                    (Some a, Some b) \<Rightarrow> Some (a @ b)
                  | _ \<Rightarrow> None)) (\<lambda>replaced_editor_source.
            case apply_buffered_edit retained path (length replaced_editor_source) of
              (replaced_spans, None) \<Rightarrow> Inl (ParseError ''addresses a container Block'')
            | (replaced_spans, Some _) \<Rightarrow>
                and_then (ok_or (ParseError ''no Block at block_path'') (block replaced_spans path)) (\<lambda>replaced.
                and_then (lift_splice (splice_source working (bs_source field) replaced_editor_source))
                  (\<lambda>replaced_source.
                let live_spans = pn_spans (parse replaced_source)
                in and_then (editable_live_path live_spans replaced_spans path) (\<lambda>live.
                   and_then (block_range live_spans live) (\<lambda>span.
                   and_then (split_in_field parse replaced_source (fst (bs_source replaced)) span selection_start)
                     (\<lambda>(new_source, focus). Inr (new_source, StructuralBlock (fst focus) (snd focus))))))))))) "

text \<open>The second closure: the slot is bound to the note and to the bytes it was cut from.\<close>

definition bind_slot ::
    "(string \<Rightarrow> string) \<Rightarrow> string \<Rightarrow> string \<Rightarrow> structural_edit_location \<Rightarrow> structural_edit_location" where
  "bind_slot content_hash note_id src location =
     (case location of
        StructuralBlock path caret \<Rightarrow> StructuralBlock path caret
      | StructuralPhantom slot \<Rightarrow>
          StructuralPhantom (slot\<lparr>is_note_id := note_id, is_fingerprint := content_hash src\<rparr>))"

subsection \<open>Merging\<close>

text \<open>
  The seam of a list item or of a container: exactly one line ending and the line's own markers. \<open>None\<close>
  when the gap is anything else, and the merge goes on to the next case.
\<close>

definition merge_through_markers ::
    "string \<Rightarrow> block_span \<Rightarrow> range \<Rightarrow> (string \<times> (block_path \<times> nat)) option result" where
  "merge_through_markers working previous_leaf span =
     and_then (line_prefix_before working (fst span)) (\<lambda>pre.
     and_then (ok_or (ParseError ''source range is not addressable'')
                (str_get working (snd (bs_source previous_leaf), fst span))) (\<lambda>gap.
       if gap = newline_style working @ pre
       then and_then (ok_or (ParseError ''source range is not addressable'')
                       (str_get working (bs_source previous_leaf))) (\<lambda>previous_source.
            and_then (lift_splice (splice_source working (snd (bs_source previous_leaf), fst span) []))
              (\<lambda>new_source.
                 Inr (Some (new_source, bs_path previous_leaf,
                            source_caret_before_trailing_newline previous_source))))
       else Inr None))"

definition merge_list_item ::
    "block_path \<Rightarrow> range \<Rightarrow> string \<Rightarrow> span_map \<Rightarrow> ast_node list
     \<Rightarrow> (string \<times> (block_path \<times> nat)) option result" where
  "merge_list_item live span working spans ast =
     (case nearest_list_item ast live of
        None \<Rightarrow> Inr None
      | Some (list_path, item_index) \<Rightarrow>
          and_then (ok_or (ParseError ''ListItem has no editable leaf'')
                     (first_editable_leaf spans (list_path @ [item_index]))) (\<lambda>first_item_leaf.
            if 0 < item_index \<and> bs_path first_item_leaf = live
            then and_then (ok_or (ParseError ''ListItem has no editable leaf'')
                            (last_editable_leaf spans (list_path @ [item_index - 1])))
                   (\<lambda>previous_leaf. merge_through_markers working previous_leaf span)
            else Inr None))"

definition opens_container :: "ast_node list \<Rightarrow> nat \<Rightarrow> bool" where
  "opens_container ast i \<longleftrightarrow>
     i < length ast \<and> (case ast ! i of MList _ _ \<Rightarrow> True | Blockquote _ \<Rightarrow> True | _ \<Rightarrow> False)"

definition merge_container ::
    "block_path \<Rightarrow> range \<Rightarrow> string \<Rightarrow> span_map \<Rightarrow> ast_node list
     \<Rightarrow> (string \<times> (block_path \<times> nat)) option result" where
  "merge_container live span working spans ast =
     (case live of
        [] \<Rightarrow> Inr None
      | top_level_index # _ \<Rightarrow>
          if 0 < top_level_index \<and> opens_container ast top_level_index
             \<and> map_option bs_path (first_editable_leaf spans [top_level_index]) = Some live
          then and_then (ok_or (ParseError ''top-level Block has no editable predecessor'')
                          (last_editable_leaf spans [top_level_index - 1]))
                 (\<lambda>previous_leaf. merge_through_markers working previous_leaf span)
          else Inr None)"

definition merge_adjacent ::
    "block_path \<Rightarrow> range \<Rightarrow> string \<Rightarrow> span_map \<Rightarrow> (string \<times> (block_path \<times> nat)) result" where
  "merge_adjacent live span working spans =
     (case previous_block_end spans span of
        None \<Rightarrow> Inr (working, (live, 0))
      | Some previous_end \<Rightarrow>
          and_then (ok_or (ParseError ''no editable predecessor'') (previous_editable_leaf spans span))
            (\<lambda>previous_leaf.
          and_then (ok_or (ParseError ''source range is not addressable'')
                     (str_get working (previous_end, fst span))) (\<lambda>gap.
            if str_trim gap \<noteq> []
            then Inl (ParseError ''separated by content this editor does not render'')
            else and_then (ok_or (ParseError ''source range is not addressable'')
                            (str_get working (bs_source previous_leaf))) (\<lambda>previous_source.
                   with_source (splice_source working (previous_end, fst span) [])
                     (bs_path previous_leaf, source_caret_before_trailing_newline previous_source)))))"

definition merge_block_with_previous :: "block_path \<Rightarrow> (block_path \<times> nat) plan" where
  "merge_block_with_previous path working spans ast retained =
     and_then (editable_live_path spans retained path) (\<lambda>live.
     and_then (block_range spans live) (\<lambda>span.
     and_then (merge_list_item live span working spans ast) (\<lambda>in_list.
       case in_list of
         Some merged \<Rightarrow> Inr merged
       | None \<Rightarrow>
           and_then (merge_container live span working spans ast) (\<lambda>in_container.
             case in_container of
               Some merged \<Rightarrow> Inr merged
             | None \<Rightarrow> merge_adjacent live span working spans))))"

subsection \<open>Ranges\<close>

definition replace_range :: "rendered_range \<Rightarrow> string \<Rightarrow> nat plan" where
  "replace_range r replacement working spans ast retained =
     and_then (lift_splice (splice_resolve_range working spans r)) (\<lambda>resolved.
       with_source (splice_source working resolved replacement) (fst resolved + length replacement))"

definition delete_range :: "rendered_range \<Rightarrow> nat plan" where
  "delete_range r = replace_range r []"

definition replace_whole_note :: "reader \<Rightarrow> string \<Rightarrow> nat plan" where
  "replace_whole_note reader replacement working spans ast retained =
     and_then (whole_note_source_range reader working spans) (\<lambda>resolved.
       with_source (splice_source working resolved replacement) (fst resolved + length replacement))"

definition delete_whole_note :: "reader \<Rightarrow> nat plan" where
  "delete_whole_note reader = replace_whole_note reader []"

definition copy_range_as_markdown :: "rendered_range \<Rightarrow> string \<Rightarrow> span_map \<Rightarrow> string result" where
  "copy_range_as_markdown r working spans = lift_splice (extract_range working spans r)"

definition copy_whole_note_as_markdown :: "reader \<Rightarrow> string \<Rightarrow> span_map \<Rightarrow> string result" where
  "copy_whole_note_as_markdown reader working spans =
     and_then (whole_note_source_range reader working spans) (\<lambda>r.
       ok_or (ParseError ''whole-Note source range is not addressable'') (str_get working r))"

end
