(* ===== verification/Seam_Laws.thy ===== *)
theory Seam_Laws
  imports Edit_Ops
begin

section \<open>Facts on newline runs and seams\<close>

text \<open>
  How the counts of \<open>Edit_Seams\<close> behave under concatenation, what a separator adds, where the cut to one
  line ending stops, and the decomposition of the working source behind every successful plan.
\<close>

subsection \<open>Counting\<close>

definition line_ending :: "string \<Rightarrow> bool" where
  "line_ending nl \<longleftrightarrow> nl = [LF] \<or> nl = [CR, LF]"

lemma line_ending_simps [simp]: "line_ending [LF]" "line_ending [CR, LF]"
  by (simp_all add: line_ending_def)

lemma newline_style_ending [simp]: "line_ending (newline_style t)"
  by (simp add: newline_style_def split: option.split)

lemma seam_newline_ending [simp]: "line_ending (seam_newline a b)"
  by (simp add: seam_newline_def)

lemma repeat_str_simps [simp]:
  "repeat_str t 0 = []"
  "repeat_str t (Suc n) = t @ repeat_str t n"
  by (simp_all add: repeat_str_def)

lemma repeat_str_snoc: "repeat_str t (Suc n) = repeat_str t n @ t"
  by (induction n) simp_all

lemma trailing_newlines_Nil [simp]: "trailing_newlines [] = 0"
  by (simp add: trailing_newlines_def)

lemma trailing_newlines_ending:
  "line_ending nl \<Longrightarrow> trailing_newlines (t @ nl) = Suc (trailing_newlines t)"
  by (auto simp: line_ending_def trailing_newlines_def)

lemma trailing_newlines_repeat:
  assumes "line_ending nl"
  shows "trailing_newlines (t @ repeat_str nl k) = trailing_newlines t + k"
proof (induction k)
  case (Suc k)
  have "t @ repeat_str nl (Suc k) = (t @ repeat_str nl k) @ nl"
    by (simp only: repeat_str_snoc append.assoc)
  then have "trailing_newlines (t @ repeat_str nl (Suc k)) = Suc (trailing_newlines (t @ repeat_str nl k))"
    using trailing_newlines_ending [OF assms, of "t @ repeat_str nl k"] by (simp only:)
  with Suc show ?case by simp
qed simp

lemma set_repeat_newline:
  "line_ending nl \<Longrightarrow> set (repeat_str nl k) \<subseteq> {CR, LF}"
  by (induction k) (auto simp: line_ending_def)

lemma set_separator_before: "set (separator_before t n) \<subseteq> {CR, LF}"
  unfolding separator_before_def using set_repeat_newline [OF newline_style_ending] by auto

lemma separator_before_newlines:
  "t \<noteq> [] \<Longrightarrow> trailing_newlines (t @ separator_before t n) = max n (trailing_newlines t)"
  by (simp add: separator_before_def trailing_newlines_repeat)

lemma trailing_newlines_other:
  "c \<noteq> CR \<Longrightarrow> c \<noteq> LF \<Longrightarrow> trailing_newlines (t @ [c]) = 0"
  by (simp add: trailing_newlines_def)

lemma newline_run_split:
  "set (take (newline_run_len t) t) \<subseteq> {CR, LF}"
  "newline_run_len t \<le> length t"
  unfolding newline_run_len_def
  by (auto simp: takeWhile_eq_take [symmetric] length_takeWhile_le dest: set_takeWhileD)

lemma newline_run_rest: "leading_newlines (drop (newline_run_len t) t) = 0"
proof -
  have "drop (newline_run_len t) t = dropWhile (\<lambda>c. c = LF \<or> c = CR) t"
    by (simp add: newline_run_len_def dropWhile_eq_drop)
  moreover have "takeWhile (\<lambda>c. c = LF \<or> c = CR) (dropWhile (\<lambda>c. c = LF \<or> c = CR) t) = []"
    by (induction t) auto
  ultimately show ?thesis
    by (simp add: leading_newlines_def)
qed

lemma valid_char_ascii: "valid_char (c # w) \<Longrightarrow> is_ascii c \<Longrightarrow> w = []"
  by (induction "c # w" rule: valid_char.induct) (auto simp: is_ascii_byte)

lemma valid_utf8_after_ascii:
  "valid_utf8 (a @ t) \<Longrightarrow> list_all is_ascii a \<Longrightarrow> valid_utf8 t"
proof (induction a)
  case (Cons c a)
  have "takeWhile is_cont (a @ t) = []"
    using Cons.prems valid_char_ascii [of c "takeWhile is_cont (a @ t)"] by (simp add: valid_utf8_def)
  then have "dropWhile is_cont (a @ t) = a @ t"
    by (metis append_Nil takeWhile_dropWhile_id)
  then have "valid_utf8 (a @ t)"
    using Cons.prems(1) by (simp add: valid_utf8_def)
  with Cons show ?case by simp
qed simp

lemma boundary_after_run:
  assumes "valid_utf8 w" and "is_char_boundary w i"
  shows "is_char_boundary w (i + newline_run_len (drop i w))"
proof -
  let ?t = "drop i w" and ?n = "newline_run_len (drop i w)"
  have "valid_utf8 (take ?n ?t @ drop ?n ?t)"
    unfolding append_take_drop_id using valid_utf8_take_drop [OF assms] by simp
  moreover have "list_all is_ascii (take ?n ?t)"
    using newline_run_split(1) [of ?t] by (fastforce simp: list_all_iff is_ascii_byte byte_def)
  ultimately have "starts_char (drop ?n ?t)"
    by (rule valid_utf8_starts_char [OF valid_utf8_after_ascii])
  then have "starts_char (drop (i + ?n) w)"
    by (simp add: add.commute)
  moreover have "i + ?n \<le> length w"
    using newline_run_split(2) [of ?t] is_char_boundary_le [OF assms(2)] by simp
  ultimately show ?thesis
    by (rule starts_char_boundary [rotated])
qed

subsection \<open>The cut to one line ending\<close>

text \<open>A carriage return only occurs in front of a line feed.\<close>

definition no_lone_cr :: "string \<Rightarrow> bool" where
  "no_lone_cr t \<longleftrightarrow> (\<forall>a b. t = a @ CR # b \<longrightarrow> (\<exists>c. b = LF # c))"

lemma no_lone_cr_last: "no_lone_cr (t @ [CR]) \<Longrightarrow> False"
  by (auto simp: no_lone_cr_def)

lemma no_lone_cr_front:
  assumes "no_lone_cr (t @ s)" and "t = [] \<or> last t \<noteq> CR"
  shows "no_lone_cr t"
  unfolding no_lone_cr_def
proof (intro allI impI)
  fix a b
  assume t: "t = a @ CR # b"
  with assms(2) have "b \<noteq> []" by auto
  moreover obtain c where "b @ s = LF # c"
    using assms(1) t unfolding no_lone_cr_def by (metis append.assoc append_Cons)
  ultimately show "\<exists>c. b = LF # c"
    by (cases b) auto
qed

lemma newline_run_cases:
  assumes "no_lone_cr t"
  obtains body ends where "t = body @ concat ends" and "\<forall>nl\<in>set ends. line_ending nl"
    and "body = [] \<or> last body \<noteq> LF \<and> last body \<noteq> CR"
  using assms
proof (induction "length t" arbitrary: t thesis rule: less_induct)
  case less
  show ?case
  proof (cases t rule: rev_cases)
    case Nil
    then show ?thesis using less.prems(1) [of "[]" "[]"] by simp
  next
    case (snoc s c)
    show ?thesis
    proof (cases "c = LF")
      case False
      have "c \<noteq> CR"
        using snoc less.prems(2) no_lone_cr_last by auto
      then show ?thesis
        using less.prems(1) [of t "[]"] snoc False by simp
    next
      case lf: True
      obtain r nl where r: "t = r @ nl" "line_ending nl" "r = [] \<or> last r \<noteq> CR"
      proof (cases "s \<noteq> [] \<and> last s = CR")
        case True
        then have t: "t = butlast s @ [CR, LF]"
          using snoc lf append_butlast_last_id [of s] by simp
        have "butlast s = [] \<or> last (butlast s) \<noteq> CR"
        proof (rule ccontr)
          assume n: "\<not> ?thesis"
          then have "butlast s = butlast (butlast s) @ [CR]"
            using append_butlast_last_id [of "butlast s"] by simp
          then have "t = butlast (butlast s) @ CR # [CR, LF]"
            using t by simp
          then show False
            using less.prems(2) unfolding no_lone_cr_def by fastforce
        qed
        with t that show ?thesis by simp
      next
        case False
        with that [of s "[LF]"] snoc lf show ?thesis by auto
      qed
      have "nl \<noteq> []" using r(2) by (auto simp: line_ending_def)
      then have "length r < length t" using r(1) by simp
      moreover have "no_lone_cr r"
        using no_lone_cr_front [of r nl] r less.prems(2) by simp
      ultimately obtain body ends where b: "r = body @ concat ends" "\<forall>nl\<in>set ends. line_ending nl"
          "body = [] \<or> last body \<noteq> LF \<and> last body \<noteq> CR"
        using less.hyps by metis
      then show ?thesis
        using less.prems(1) [of body "ends @ [nl]"] r by simp
    qed
  qed
qed

lemma trailing_newlines_run:
  assumes "\<forall>nl\<in>set ends. line_ending nl" and "body = [] \<or> last body \<noteq> LF \<and> last body \<noteq> CR"
  shows "trailing_newlines (body @ concat ends) = length ends"
  using assms(1)
proof (induction ends rule: rev_induct)
  case Nil
  show ?case
    using assms(2) trailing_newlines_other by (cases body rule: rev_cases) auto
next
  case (snoc nl ends)
  then have "trailing_newlines ((body @ concat ends) @ nl) = Suc (trailing_newlines (body @ concat ends))"
    by (intro trailing_newlines_ending) simp
  with snoc show ?case by simp
qed

lemma cut_loop_run:
  assumes "\<forall>nl\<in>set ends. line_ending nl" and "body = [] \<or> last body \<noteq> CR" and "n \<le> length ends"
  shows "cut_loop (body @ concat ends @ rest) n (length (body @ concat ends)) =
    length (body @ concat (take (length ends - n) ends))"
  using assms(1,3)
proof (induction n arbitrary: ends rest)
  case (Suc n)
  then obtain es nl where e: "ends = es @ [nl]"
    by (cases ends rule: rev_cases) auto
  let ?bytes = "body @ concat ends @ rest" and ?r = "body @ concat es"
  have nl: "line_ending nl" using Suc.prems e by simp
  have no_cr: "?r \<noteq> [] \<longrightarrow> last ?r \<noteq> CR"
  proof (cases es rule: rev_cases)
    case Nil
    then show ?thesis using assms(2) by auto
  next
    case (snoc es' nl')
    then have "line_ending nl'" using Suc.prems e by simp
    then show ?thesis using snoc by (auto simp: line_ending_def)
  qed
  have end_cr: "(let e1 = length (body @ concat ends) - 1;
      e2 = (if 0 < e1 \<and> ?bytes ! (e1 - 1) = CR then e1 - 1 else e1) in e2) = length ?r"
  proof (cases "nl = [LF]")
    case True
    have none: "\<not> (0 < length ?r \<and> ?bytes ! (length ?r - 1) = CR)"
    proof
      assume a: "0 < length ?r \<and> ?bytes ! (length ?r - 1) = CR"
      have "?bytes ! (length ?r - 1) = (?r @ nl @ rest) ! (length ?r - 1)"
        using e by simp
      also have "\<dots> = ?r ! (length ?r - 1)"
        using a by (intro nth_append_left) simp
      also have "\<dots> = last ?r"
        using a by (intro last_conv_nth [symmetric]) (metis length_0_conv less_irrefl)
      finally show False using a no_cr by auto
    qed
    have len: "length (body @ concat ends) - 1 = length ?r"
      using e True by simp
    show ?thesis
      unfolding len Let_def by (rule if_not_P) (rule none)
  next
    case False
    then have "nl = [CR, LF]" using nl by (simp add: line_ending_def)
    moreover have "?bytes = ?r @ CR # LF # rest"
      using e \<open>nl = [CR, LF]\<close> by simp
    ultimately show ?thesis
      using e by (simp add: Let_def nth_append)
  qed
  have "cut_loop ?bytes (Suc n) (length (body @ concat ends)) = cut_loop ?bytes n (length ?r)"
    using end_cr by (simp add: Let_def)
  also have "?bytes = body @ concat es @ (nl @ rest)"
    using e by simp
  also have "cut_loop (body @ concat es @ (nl @ rest)) n (length ?r) =
      length (body @ concat (take (length es - n) es))"
    using Suc.prems e by (intro Suc.IH) auto
  finally show ?case using e by simp
qed simp

lemma cut_to_one_run:
  assumes "no_lone_cr t"
  shows "trailing_newlines (take (cut_to_one_trailing_newline t) t) = min 1 (trailing_newlines t)"
    and "set (drop (cut_to_one_trailing_newline t) t) \<subseteq> {CR, LF}"
    and "cut_to_one_trailing_newline t \<le> length t"
proof -
  obtain body ends where t: "t = body @ concat ends" and e: "\<forall>nl\<in>set ends. line_ending nl"
    and b: "body = [] \<or> last body \<noteq> LF \<and> last body \<noteq> CR"
    using newline_run_cases [OF assms] by blast
  have k: "trailing_newlines t = length ends"
    using trailing_newlines_run [OF e b] t by simp
  let ?one = "body @ concat (take 1 ends)"
  have "cut_to_one_trailing_newline t = length (body @ concat (take (length ends - (length ends - 1)) ends))"
    unfolding cut_to_one_trailing_newline_def k
    using cut_loop_run [OF e, of body "length ends - 1" "[]"] b t by auto
  also have "take (length ends - (length ends - 1)) ends = take 1 ends"
    by (cases ends) auto
  finally have cut: "cut_to_one_trailing_newline t = length ?one" .
  have split: "t = ?one @ concat (drop 1 ends)"
    using t by (metis append.assoc append_take_drop_id concat_append)
  then show "cut_to_one_trailing_newline t \<le> length t"
    using cut by (metis le_add1 length_append)
  have "take (cut_to_one_trailing_newline t) t = ?one"
    using split cut by (metis append_eq_conv_conj)
  moreover have "trailing_newlines ?one = length (take 1 ends)"
    using e b by (intro trailing_newlines_run) (auto dest: in_set_takeD)
  ultimately show "trailing_newlines (take (cut_to_one_trailing_newline t) t) = min 1 (trailing_newlines t)"
    using k by simp
  have "drop (cut_to_one_trailing_newline t) t = concat (drop 1 ends)"
    using split cut by (metis append_eq_conv_conj)
  then show "set (drop (cut_to_one_trailing_newline t) t) \<subseteq> {CR, LF}"
    using e by (fastforce simp: line_ending_def dest: in_set_dropD)
qed

end
