(* ===== verification/Edit_Laws.thy ===== *)
theory Edit_Laws
  imports Seam_Laws
begin

section \<open>What the structural edits keep\<close>

text \<open>
  The edit fidelity of the structural mutators: which bytes a successful plan removes, which it adds, and
  that everything else stays. Each property writes the working source as a concatenation and the new
  source as the same pieces with the seam between them.
\<close>

subsection \<open>The shape of a successful plan\<close>

lemma lift_splice_Inr_iff [simp]: "lift_splice r = Inr x \<longleftrightarrow> r = Inr x"
  by (cases r) (auto simp: lift_splice_def)

lemma with_source_Inr_iff:
  "with_source (splice_source w r t) x = Inr (out, y) \<longleftrightarrow>
     y = x \<and> fst r \<le> snd r \<and> is_char_boundary w (fst r) \<and> is_char_boundary w (snd r)
     \<and> out = take (fst r) w @ t @ drop (snd r) w"
  by (auto simp: with_source_def and_then_Inr_iff splice_source_Inr_iff overwrite_def)

lemma addressable_Inr_iff [simp]: "addressable x = Inr y \<longleftrightarrow> x = Some y"
  by (simp add: addressable_def)

lemma block_range_Inr_iff [simp]: "block_range spans path = Inr r \<longleftrightarrow> (\<exists>b. block spans path = Some b \<and> r = bs_source b)"
  by (auto simp: block_range_def)

lemma and_thenE:
  assumes "and_then r f = Inr y"
  obtains x where "r = Inr x" and "f x = Inr y"
  using assms by (cases r) auto

lemmas plan_iff = and_then_Inr_iff with_source_Inr_iff str_upto_Some_iff str_from_Some_iff

text \<open>
  A span map that fits its source: every block the map finds is addressable, and the bytes in front of it
  hold no carriage return outside a line ending.
\<close>

definition spans_fit :: "string \<Rightarrow> span_map \<Rightarrow> bool" where
  "spans_fit working spans \<longleftrightarrow>
     valid_utf8 working
     \<and> (\<forall>p b. block spans p = Some b \<longrightarrow>
           str_get working (bs_source b) \<noteq> None \<and> no_lone_cr (take (fst (bs_source b)) working))"

lemma spans_fitD:
  assumes "spans_fit working spans" and "block spans p = Some b"
  shows "fst (bs_source b) \<le> snd (bs_source b)" "snd (bs_source b) \<le> length working"
    "is_char_boundary working (fst (bs_source b))" "is_char_boundary working (snd (bs_source b))"
    "no_lone_cr (take (fst (bs_source b)) working)"
proof -
  obtain t where "str_get working (bs_source b) = Some t"
    using assms unfolding spans_fit_def by blast
  then have "str_get working (fst (bs_source b), snd (bs_source b)) = Some t" by simp
  from this [unfolded str_get_Some_iff] show "fst (bs_source b) \<le> snd (bs_source b)" "snd (bs_source b) \<le> length working"
    "is_char_boundary working (fst (bs_source b))" "is_char_boundary working (snd (bs_source b))"
    by simp_all
  show "no_lone_cr (take (fst (bs_source b)) working)"
    using assms unfolding spans_fit_def by blast
qed

subsection \<open>A note of two paragraphs\<close>

text \<open>The concrete note the witnesses below are evaluated on.\<close>

definition two_note :: string where
  "two_note = ''Alpha'' @ [LF, LF] @ ''Beta'' @ [LF]"

definition leaf_at :: "block_path \<Rightarrow> range \<Rightarrow> block_span" where
  "leaf_at path r = \<lparr>bs_path = path, bs_source = r, bs_runs = [], bs_rendered_len = 0, bs_children = []\<rparr>"

definition two_blocks :: span_map where
  "two_blocks =
     \<lparr>sm_blocks = [leaf_at [0] (0, 6), leaf_at [1] (7, 12)],
      sm_by_path = [[0] \<mapsto> 0, [1] \<mapsto> 1], sm_frontmatter = None\<rparr>"

lemma two_blocks_block:
  "block two_blocks p = (if p = [0] then Some (leaf_at [0] (0, 6)) else if p = [1] then Some (leaf_at [1] (7, 12)) else None)"
  by (simp add: two_blocks_def block_def)

lemma two_blocks_fit: "spans_fit two_note two_blocks"
proof -
  have "valid_utf8 two_note" "str_get two_note (0, 6) \<noteq> None" "str_get two_note (7, 12) \<noteq> None"
    by code_simp+
  moreover have "CR \<notin> set (take n two_note)" for n
    using set_take_subset [of n two_note] by (auto simp: two_note_def)
  then have "no_lone_cr (take n two_note)" for n
    unfolding no_lone_cr_def by (metis in_set_conv_decomp)
  ultimately show ?thesis
    unfolding spans_fit_def two_blocks_block by (auto simp: leaf_at_def split: if_splits)
qed

lemma two_blocks_wf: "wf_map two_blocks"
  by (auto simp: wf_map_def two_blocks_def leaf_at_def children_deeper_def container_done_def
      less_Suc_eq numeral_2_eq_2 nth_Cons' split: if_splits)

subsection \<open>Insertion\<close>



subsection \<open>Deletion\<close>

lemma delete_extent_cases:
  assumes "valid_utf8 working" and "is_char_boundary working (snd span)" and "is_char_boundary working (fst span)"
  shows "delete_extent working span =
    (if drop (newline_run_len (drop (snd span) working)) (drop (snd span) working) = []
     then (cut_to_one_trailing_newline (take (fst span) working), snd span)
     else (fst span, snd span + newline_run_len (drop (snd span) working)))"
proof -
  have "str_from working (snd span) = Some (drop (snd span) working)"
    using assms(2) by (simp add: str_from_Some_iff)
  moreover have "str_from working (snd span + newline_run_len (drop (snd span) working)) =
      Some (drop (newline_run_len (drop (snd span) working)) (drop (snd span) working))"
    using boundary_after_run [OF assms(1,2)] by (simp add: str_from_Some_iff add.commute)
  moreover have "str_upto working (fst span) = Some (take (fst span) working)"
    using assms(3) by (simp add: str_upto_Some_iff)
  ultimately show ?thesis
    by (simp add: delete_extent_def or_empty_def Let_def)
qed

lemma separator_across_eq:
  assumes "is_char_boundary src b" and "is_char_boundary src e" and "b \<le> e"
  shows "separator_across src b e =
    (if take b src = [] \<or> drop e src = [] then []
     else separator_before (take b src) (trailing_newlines (take (e - b) (drop b src))))"
proof -
  have "str_upto src b = Some (take b src)" "str_from src e = Some (drop e src)"
      "str_get src (b, e) = Some (take (e - b) (drop b src))"
    using assms is_char_boundary_le by (auto simp: str_upto_Some_iff str_from_Some_iff str_get_Some_iff)
  then show ?thesis
    by (simp add: separator_across_def)
qed

text \<open>C17: Deleting a block removes the block's own bytes and newline characters next to it, and nothing
  else. What follows keeps at least the separation the block had from it, and deleting the last block of a
  note with no newline run after it leaves the note with at most one line ending at its end.\<close>

theorem delete_block_local:
  assumes "delete_block path working spans ast retained = Inr (out, ())" and "spans_fit working spans"
  shows "\<exists>live b bef lead src run aft sep.
    live_path spans retained path = Inr live \<and> block spans live = Some b
    \<and> str_get working (bs_source b) = Some src \<and> working = bef @ lead @ src @ run @ aft
    \<and> set lead \<union> set run \<union> set sep \<subseteq> {CR, LF} \<and> leading_newlines aft = 0
    \<and> (if aft = [] then out = bef @ sep @ run \<and> (run = [] \<longrightarrow> sep = [] \<and> trailing_newlines out \<le> 1)
       else lead = [] \<and> out = bef @ sep @ aft
         \<and> (bef \<noteq> [] \<longrightarrow> trailing_newlines (bef @ sep) = max (trailing_newlines (src @ run)) (trailing_newlines bef)))"
proof -
  obtain live b where live: "live_path spans retained path = Inr live" "block spans live = Some b"
    and r: "with_source (splice_source working (delete_extent working (bs_source b))
          (separator_across working (fst (delete_extent working (bs_source b))) (snd (delete_extent working (bs_source b)))))
        () = Inr (out, ())"
    using assms(1) unfolding delete_block_def Let_def by (auto simp: and_then_Inr_iff)
  note fit = spans_fitD [OF assms(2) live(2)]
  have valid: "valid_utf8 working" using assms(2) by (simp add: spans_fit_def)
  obtain s e where se: "bs_source b = (s, e)" by (cases "bs_source b")
  note fit = fit [unfolded se fst_conv snd_conv]
  define bef src rest where parts: "bef = take s working" "src = take (e - s) (drop s working)" "rest = drop e working"
  define n cut where nums: "n = newline_run_len rest" "cut = cut_to_one_trailing_newline bef"
  define run aft where tails: "run = take n rest" "aft = drop n rest"
  have extent: "delete_extent working (bs_source b) = (if aft = [] then (cut, e) else (s, e + n))"
    using delete_extent_cases [OF valid, of "(s, e)"] fit(3,4) by (simp add: se parts nums tails)
  have src: "str_get working (bs_source b) = Some src"
    using fit by (simp add: se str_get_Some_iff parts)
  have rest: "rest = run @ aft" by (simp add: tails)
  have back_part: "drop s working = src @ rest"
    unfolding parts by (rule drop_append_take [OF fit(1)])
  then have whole: "working = bef @ src @ run @ aft"
    unfolding rest parts(1) by (metis append_take_drop_id)
  have run: "set run \<subseteq> {CR, LF}" "leading_newlines aft = 0"
    unfolding tails nums(1) by (rule newline_run_split(1), rule newline_run_rest)
  show ?thesis
  proof (cases "aft = []")
    case True
    note cut = cut_to_one_run [OF fit(5), folded parts(1), folded nums(2)]
    define b0 lead sep where "b0 = take cut bef" "lead = drop cut bef" "sep = separator_across working cut e"
    note d = this
    have le: "cut \<le> s" using cut(3) by (simp add: parts)
    have tb: "take cut working = b0" using le by (simp add: d parts min_absorb1)
    have out: "out = b0 @ sep @ run" and bounds: "cut \<le> e" "is_char_boundary working cut"
      using r extent True rest tb by (auto simp: with_source_Inr_iff d parts(3))
    have sep: "sep = (if b0 = [] \<or> run = [] then [] else separator_before b0 (trailing_newlines (lead @ src)))"
    proof -
      have "take (e - cut) (drop cut working) = lead @ src"
      proof -
        have "working = b0 @ lead @ src @ rest" using whole rest by (simp add: d)
        moreover have "length b0 = cut" using cut(3) by (simp add: d)
        moreover have "e - cut = length (lead @ src)"
          using fit(1,2) le by (simp add: d parts)
        ultimately show ?thesis by (metis append.assoc append_eq_conv_conj)
      qed
      then show ?thesis
        using separator_across_eq [OF bounds(2) fit(4) bounds(1)] rest True tb by (simp add: d(3) parts(3) del: drop_eq_Nil drop_eq_Nil2)
    qed
    have "set sep \<subseteq> {CR, LF}" using sep set_separator_before by simp
    moreover have "run = [] \<longrightarrow> sep = [] \<and> trailing_newlines out \<le> 1"
      using sep out cut(1) by (simp add: d(1))
    moreover have "b0 @ lead @ src @ run = working" using whole True by (simp add: d)
    moreover have "set lead \<subseteq> {CR, LF}" using cut(2) by (simp add: d)
    ultimately show ?thesis
      by - (rule exI [of _ live], rule exI [of _ b], rule exI [of _ b0], rule exI [of _ lead], rule exI [of _ src],
          rule exI [of _ run], rule exI [of _ aft], rule exI [of _ sep],
          auto simp: live src run out True leading_newlines_def)
  next
    case False
    define sep where "sep = separator_across working s (e + n)"
    have aft: "drop (e + n) working = aft" by (simp add: tails parts add.commute)
    have out: "out = bef @ sep @ aft" and bounds: "is_char_boundary working (e + n)" "s \<le> e + n"
      using r extent False aft by (auto simp: with_source_Inr_iff sep_def parts(1))
    have "take (e + n - s) (drop s working) = src @ run"
    proof -
      have "e + n - s = length (src @ run)"
        using fit(1,2) newline_run_split(2) [of rest] by (simp add: parts tails nums)
      then show ?thesis
        unfolding back_part rest by (metis append.assoc append_eq_conv_conj)
    qed
    then have sep: "sep = (if bef = [] then [] else separator_before bef (trailing_newlines (src @ run)))"
      using separator_across_eq [OF fit(3) bounds] False aft by (simp add: sep_def parts(1))
    then have "set sep \<subseteq> {CR, LF}"
      using set_separator_before by simp
    moreover have "bef \<noteq> [] \<longrightarrow>
        trailing_newlines (bef @ sep) = max (trailing_newlines (src @ run)) (trailing_newlines bef)"
      using sep separator_before_newlines by simp
    ultimately show ?thesis
      using whole [symmetric]
      by - (rule exI [of _ live], rule exI [of _ b], rule exI [of _ bef], rule exI [of _ "[]"], rule exI [of _ src],
          rule exI [of _ run], rule exI [of _ aft], rule exI [of _ sep], simp add: live src run out False)
  qed
qed

lemma delete_block_local_witness:
  "\<exists>live b bef lead src run aft sep.
    live_path two_blocks two_blocks [1] = Inr live \<and> block two_blocks live = Some b
    \<and> str_get two_note (bs_source b) = Some src \<and> two_note = bef @ lead @ src @ run @ aft
    \<and> set lead \<union> set run \<union> set sep \<subseteq> {CR, LF} \<and> leading_newlines aft = 0
    \<and> (if aft = [] then ''Alpha'' @ [LF] = bef @ sep @ run
           \<and> (run = [] \<longrightarrow> sep = [] \<and> trailing_newlines (''Alpha'' @ [LF]) \<le> 1)
       else lead = [] \<and> ''Alpha'' @ [LF] = bef @ sep @ aft
         \<and> (bef \<noteq> [] \<longrightarrow> trailing_newlines (bef @ sep) = max (trailing_newlines (src @ run)) (trailing_newlines bef)))"
proof (rule delete_block_local [OF _ two_blocks_fit])
  show "delete_block [1] two_note two_blocks [] two_blocks = Inr (''Alpha'' @ [LF], ())"
    by code_simp
qed

text \<open>A newline run behind the last block is left where it is, so the note then ends in a blank line.\<close>

lemma delete_last_keeps_run:
  "delete_block [1] (two_note @ [LF]) two_blocks [] two_blocks = Inr (''Alpha'' @ [LF, LF], ())"
  by code_simp

subsection \<open>Splitting\<close>

lemma str_get_parts:
  assumes "str_get w (a, b) = Some t"
  shows "w = take a w @ t @ drop b w" "length t = b - a" "a \<le> b" "b \<le> length w"
  using assms by (auto simp: str_get_Some_iff drop_append_take [symmetric])

lemma insert_inside:
  assumes "w = bef @ left @ right @ aft" and "at = length (bef @ left)"
  shows "take at w @ t @ drop at w = bef @ left @ t @ right @ aft"
  using assms by simp



lemma split_in_field_start:
  "split_in_field parse w start span off = Inr r \<Longrightarrow> start \<le> fst span \<and> fst span - start \<le> off"
  by (auto simp: split_in_field_def split: if_splits)

lemma split_in_field_Inr:
  assumes "split_in_field parse w start span off = Inr (out, focus)"
  shows "\<exists>nl. line_ending nl \<and> out = take (start + off) w @ nl @ nl @ drop (start + off) w
    \<and> start + off \<le> length w
    \<and> editable_leaf_at_or_after_source_offset out (pn_spans (parse out)) (start + off + length (nl @ nl)) = Inr focus"
proof -
  define at nl where d: "at = start + off" "nl = seam_newline (take at w) w"
  have le: "start \<le> fst span" "fst span - start \<le> off"
    using split_in_field_start [OF assms] by auto
  have "\<not> (snd span < start \<or> snd span - start < off)"
    using assms by (auto simp: split_in_field_def split: if_splits)
  then have eq: "split_in_field parse w start span off =
      and_then (addressable (str_upto w at)) (\<lambda>bef.
         and_then (lift_splice (splice_source w (at, at) (repeat_str (seam_newline bef w) 2))) (\<lambda>new_source.
           and_then (editable_leaf_at_or_after_source_offset new_source (pn_spans (parse new_source))
                       (at + length (repeat_str (seam_newline bef w) 2)))
             (\<lambda>focus. Inr (new_source, focus))))"
    using le by (simp add: split_in_field_def Let_def d(1) not_less ac_simps)
  from assms have "is_char_boundary w at \<and> out = take at w @ (nl @ nl) @ drop at w
      \<and> editable_leaf_at_or_after_source_offset out (pn_spans (parse out)) (at + length (nl @ nl)) = Inr focus"
    unfolding eq
    by (auto simp: and_then_Inr_iff str_upto_Some_iff splice_source_Inr_iff overwrite_def d numeral_2_eq_2)
  then have "is_char_boundary w at" and r: "out = take at w @ (nl @ nl) @ drop at w"
      "editable_leaf_at_or_after_source_offset out (pn_spans (parse out)) (at + length (nl @ nl)) = Inr focus"
    by blast+
  moreover have "line_ending nl" by (simp add: d)
  ultimately show ?thesis
    unfolding d(1) [symmetric] append.assoc [symmetric] using is_char_boundary_le by blast
qed

lemma edit_block_start: "fst (bs_source (edit_block path i old d i b)) = fst (bs_source b)"
  by (simp add: edit_block_def)

lemma edited_leaf:
  assumes "wf_map m" and "block m path = Some b" and "apply_buffered_edit m path n = (m', Some old)"
  shows "\<exists>b'. block m' path = Some b' \<and> fst (bs_source b') = fst (bs_source b)"
proof -
  obtain i where i: "sm_by_path m path = Some i" "b = sm_blocks m ! i"
    using assms(2) by (auto simp: block_def)
  have l: "i < length (sm_blocks m)"
    using assms(1) i(1) unfolding wf_map_def by blast
  show ?thesis
    using assms(3) i l
    by (auto simp: edit_block_start apply_buffered_edit_def block_def Let_def nth_enumerate_eq split: if_splits)
qed


text \<open>A parser that answers one leaf behind the offset it is asked about is enough for the witness.\<close>

definition three_leaves :: "string \<Rightarrow> parsed_note" where
  "three_leaves src =
     \<lparr>pn_ast = [],
      pn_spans = \<lparr>sm_blocks = [leaf_at [0] (0, 3), leaf_at [1] (3, 7)], sm_by_path = [[0] \<mapsto> 0, [1] \<mapsto> 1],
                   sm_frontmatter = None\<rparr>\<rparr>"


end
