(* ===== verification/Focus_Laws.thy ===== *)
theory Focus_Laws
  imports Edit_Laws
begin

section \<open>Merging, continuing, and where the focus goes\<close>

text \<open>
  A merge removes the seam between two blocks and nothing else; a continuation inserts the caller's text
  next to a seam; the focus after an edit is a leaf of the new parse; and a cleared field's insertion slot
  takes the text back to the byte.
\<close>

subsection \<open>Lines\<close>

lemma line_prefix_before_Inr:
  assumes "line_prefix_before w i = Inr pre"
  shows "i \<le> length w \<and> LF \<notin> set pre \<and> suffix pre (take i w) \<and> is_char_boundary w i
    \<and> (\<forall>c. take i w = c @ pre \<longrightarrow> c = [] \<or> last c = LF)"
proof -
  define bef where "bef = take i w"
  define k where "k = (case rsplit_once LF bef of None \<Rightarrow> 0 | Some (head, _) \<Rightarrow> length head + 1)"
  have g: "str_get w (k, i) = Some pre" and b: "is_char_boundary w i"
    using assms unfolding line_prefix_before_def
    by (auto simp: and_then_Inr_iff str_upto_Some_iff Let_def k_def bef_def)
  have le: "i \<le> length w" using b by (rule is_char_boundary_le)
  have pre: "pre = drop k bef" "k \<le> i"
    using g by (auto simp: str_get_Some_iff bef_def drop_take)
  have "LF \<notin> set pre \<and> (k = 0 \<or> last (take k bef) = LF)"
  proof (cases "rsplit_once LF bef")
    case None
    then have "k = 0" by (simp add: k_def)
    moreover from None have "LF \<notin> set bef" by (simp add: rsplit_once_None_iff)
    ultimately show ?thesis using pre by simp
  next
    case (Some ht)
    then obtain h t where ht: "rsplit_once LF bef = Some (h, t)" by (cases ht) simp
    then have "k = length h + 1" by (simp add: k_def)
    moreover from ht have "bef = h @ LF # t" "LF \<notin> set t" by (simp_all add: rsplit_once_Some_iff)
    ultimately show ?thesis using pre by simp
  qed
  moreover have "bef = take k bef @ pre" using pre(1) by simp
  moreover have "length bef = i" using le by (simp add: bef_def)
  ultimately show ?thesis
    using b le unfolding bef_def [symmetric]
    by (metis append_same_eq suffixI take_0)
qed

subsection \<open>Merging\<close>

text \<open>What the three ways to merge have in common is \<open>merged_at\<close>.\<close>

lemma merge_through_markers_Inr:
  assumes "merge_through_markers w prev span = Inr (Some (out, focus, caret))"
  shows "\<exists>marker. LF \<notin> set marker \<and> focus = bs_path prev \<and> fst span \<le> length w
    \<and> w = take (snd (bs_source prev)) w @ newline_style w @ marker @ drop (fst span) w
    \<and> out = take (snd (bs_source prev)) w @ drop (fst span) w
    \<and> (\<exists>text. str_get w (bs_source prev) = Some text \<and> caret = source_caret_before_trailing_newline text)"
proof -
  obtain pre gap where h: "line_prefix_before w (fst span) = Inr pre"
      "str_get w (snd (bs_source prev), fst span) = Some gap" "gap = newline_style w @ pre"
      "out = take (snd (bs_source prev)) w @ drop (fst span) w" "focus = bs_path prev"
      "\<exists>text. str_get w (bs_source prev) = Some text \<and> caret = source_caret_before_trailing_newline text"
    using assms unfolding merge_through_markers_def
    by (auto simp: and_then_Inr_iff splice_source_Inr_iff overwrite_def split: if_splits)
  have "w = take (snd (bs_source prev)) w @ gap @ drop (fst span) w"
    using str_get_parts(1) [OF h(2)] .
  moreover have "LF \<notin> set pre" "fst span \<le> length w"
    using line_prefix_before_Inr [OF h(1)] by simp_all
  ultimately show ?thesis
    using h by (intro exI [of _ pre]) simp
qed

definition merge_seam :: "string \<Rightarrow> string \<Rightarrow> bool" where
  "merge_seam w gap \<longleftrightarrow> str_trim gap = [] \<or> (\<exists>marker. gap = newline_style w @ marker \<and> LF \<notin> set marker)"

definition merged_at :: "string \<Rightarrow> span_map \<Rightarrow> nat \<Rightarrow> string \<Rightarrow> block_path \<Rightarrow> nat \<Rightarrow> bool" where
  "merged_at w spans start out focus caret \<longleftrightarrow>
     (\<exists>bef gap aft b text. w = bef @ gap @ aft \<and> aft = drop start w \<and> start \<le> length w \<and> out = bef @ aft \<and> merge_seam w gap
        \<and> b \<in> set (sm_blocks spans) \<and> is_leaf b \<and> focus = bs_path b
        \<and> str_get w (bs_source b) = Some text \<and> caret = source_caret_before_trailing_newline text)"

lemma merged_through_markers:
  assumes "merge_through_markers w prev span = Inr (Some (out, focus, caret))"
    and "prev \<in> set (sm_blocks spans)" and "is_leaf prev"
  shows "merged_at w spans (fst span) out focus caret"
proof -
  obtain marker t where "fst span \<le> length w" "LF \<notin> set marker" "focus = bs_path prev"
      "w = take (snd (bs_source prev)) w @ (newline_style w @ marker) @ drop (fst span) w"
      "out = take (snd (bs_source prev)) w @ drop (fst span) w"
      "str_get w (bs_source prev) = Some t" "caret = source_caret_before_trailing_newline t"
    using merge_through_markers_Inr [OF assms(1)] by auto
  with assms(2,3) show ?thesis
    unfolding merged_at_def merge_seam_def by blast
qed

lemma leaf_choice:
  "last_editable_leaf spans p = Some b \<Longrightarrow> b \<in> set (sm_blocks spans) \<and> is_leaf b"
  "previous_editable_leaf spans span = Some b \<Longrightarrow> b \<in> set (sm_blocks spans) \<and> is_leaf b"
  "first_editable_leaf spans p = Some b \<Longrightarrow> b \<in> set (sm_blocks spans) \<and> is_leaf b"
  unfolding last_editable_leaf_def previous_editable_leaf_def first_editable_leaf_def
  by (auto dest: max_by_key_Some min_by_key_Some)

text \<open>C16: Merging a block into the one before it either leaves the note alone (a first block) or removes one
  seam that ends where the block starts: white space, or one line ending with the markers of the block's own
  line. Every other byte stays, and the caret lands at the end of the text of an existing leaf.\<close>

theorem merge_removes_only_a_seam:
  assumes "merge_block_with_previous path working spans ast retained = Inr (out, (focus, caret))"
  shows "\<exists>live b. editable_live_path spans retained path = Inr live \<and> block spans live = Some b
    \<and> (out = working \<and> caret = 0 \<and> focus = live
       \<or> merged_at working spans (fst (bs_source b)) out focus caret)"
proof -
  obtain live span in_list where h: "editable_live_path spans retained path = Inr live"
      "block_range spans live = Inr span" "merge_list_item live span working spans ast = Inr in_list"
    using assms unfolding merge_block_with_previous_def by (elim and_thenE) blast
  then obtain b where b: "block spans live = Some b" "span = bs_source b" by auto
  have "out = working \<and> caret = 0 \<and> focus = live \<or> merged_at working spans (fst span) out focus caret"
  proof (cases in_list)
    case (Some merged)
    then have "merge_list_item live span working spans ast = Inr (Some (out, focus, caret))"
      using assms h unfolding merge_block_with_previous_def by simp
    then obtain prev where "merge_through_markers working prev span = Inr (Some (out, focus, caret))"
        "\<exists>p. last_editable_leaf spans p = Some prev"
      unfolding merge_list_item_def by (auto simp: and_then_Inr_iff split: option.splits if_splits) blast
    then show ?thesis using leaf_choice(1) merged_through_markers by blast
  next
    case None
    then obtain in_container where c: "merge_container live span working spans ast = Inr in_container"
      using assms h unfolding merge_block_with_previous_def by (auto elim!: and_thenE)
    show ?thesis
    proof (cases in_container)
      case (Some merged)
      then have "merge_container live span working spans ast = Inr (Some (out, focus, caret))"
        using assms h c None unfolding merge_block_with_previous_def by simp
      then obtain prev where "merge_through_markers working prev span = Inr (Some (out, focus, caret))"
          "\<exists>p. last_editable_leaf spans p = Some prev"
        unfolding merge_container_def by (auto simp: and_then_Inr_iff split: list.splits if_splits)
      then show ?thesis using leaf_choice(1) merged_through_markers by blast
    next
      case n: None
      then have m: "merge_adjacent live span working spans = Inr (out, focus, caret)"
        using assms h c None unfolding merge_block_with_previous_def by simp
      show ?thesis
      proof (cases "previous_block_end spans span")
        case None
        then show ?thesis using m h by (auto simp: merge_adjacent_def)
      next
        case (Some e)
        then obtain prev gap t where g: "previous_editable_leaf spans span = Some prev"
            "str_get working (e, fst span) = Some gap" "str_trim gap = []"
            "str_get working (bs_source prev) = Some t" "out = take e working @ drop (fst span) working"
            "focus = bs_path prev" "caret = source_caret_before_trailing_newline t"
          using m unfolding merge_adjacent_def
          by (auto simp: and_then_Inr_iff with_source_Inr_iff split: if_splits)
        have "fst span \<le> length working" using g(2) by (auto simp: str_get_Some_iff)
        moreover have "working = take e working @ gap @ drop (fst span) working"
          using str_get_parts(1) [OF g(2)] .
        ultimately show ?thesis
          using g leaf_choice(2) [OF g(1)] unfolding merged_at_def merge_seam_def by blast
      qed
    qed
  qed
  with h(1) b show ?thesis by blast
qed

lemma merge_removes_only_a_seam_witness:
  "\<exists>live b. editable_live_path two_blocks two_blocks [1] = Inr live \<and> block two_blocks live = Some b
    \<and> (''Alpha'' @ [LF] @ ''Beta'' @ [LF] = two_note \<and> (5::nat) = 0 \<and> [0] = live
       \<or> merged_at two_note two_blocks (fst (bs_source b)) (''Alpha'' @ [LF] @ ''Beta'' @ [LF]) [0] 5)"
proof (rule merge_removes_only_a_seam)
  show "merge_block_with_previous [1] two_note two_blocks [] two_blocks =
      Inr (''Alpha'' @ [LF] @ ''Beta'' @ [LF], ([0], 5))"
    by code_simp
qed

subsection \<open>Continuing\<close>

text \<open>The inserted text, and where the code says it is: past the separators written after it.\<close>



subsection \<open>The caret after a range edit\<close>

lemma leaf_for_join_total:
  assumes "\<forall>b\<in>set ls. fst (bs_source b) \<le> snd (bs_source b)"
  shows "leaf_for_join ls join = None \<longleftrightarrow> ls = []"
proof -
  have "\<exists>b\<in>set ls. fst (bs_source b) \<le> join \<and> join \<le> snd (bs_source b)
      \<or> join \<le> fst (bs_source b) \<or> snd (bs_source b) \<le> join" if "ls \<noteq> []"
    using that by (metis last_in_set linear)
  then show ?thesis
    unfolding leaf_for_join_def
    by (auto split: option.splits simp: filter_empty_conv)
qed

lemma leaf_for_join_in:
  "leaf_for_join ls join = Some b \<Longrightarrow> b \<in> set ls
   \<and> ((\<exists>l\<in>set ls. fst (bs_source l) \<le> join \<and> join \<le> snd (bs_source l))
       \<longrightarrow> fst (bs_source b) \<le> join \<and> join \<le> snd (bs_source b))"
  unfolding leaf_for_join_def
  by (auto split: option.splits simp: filter_empty_conv dest!: max_by_key_Some min_by_key_Some)

lemma clamp_bounds: "lo \<le> hi \<Longrightarrow> lo \<le> clamp x lo hi \<and> clamp x lo hi \<le> hi"
  by (simp add: clamp_def)

lemma clamp_id: "lo \<le> x \<Longrightarrow> x \<le> hi \<Longrightarrow> clamp x lo hi = x"
  by (simp add: clamp_def)

text \<open>After a range edit the caret is found for every join on a character boundary: in the phantom slot
  when no leaf is left, else in a leaf of the new parse, at an offset inside that leaf, and at the join itself
  when some leaf holds it.\<close>

theorem range_edit_caret_total:
  assumes "is_char_boundary src join"
    and "\<forall>b\<in>set (leaves spans). str_get src (bs_source b) \<noteq> None"
  shows "(if leaves spans = [] then \<exists>n. range_edit_caret src spans join = Inr (RangePhantom n)
    else \<exists>b\<in>set (leaves spans). \<exists>at. fst (bs_source b) \<le> at \<and> at \<le> snd (bs_source b)
       \<and> range_edit_caret src spans join =
           Inr (RangeBlock (bs_path b) (utf16_count (take (at - fst (bs_source b)) (drop (fst (bs_source b)) src))))
       \<and> ((\<exists>l\<in>set (leaves spans). fst (bs_source l) \<le> join \<and> join \<le> snd (bs_source l)) \<longrightarrow> at = join))"
proof -
  have ok: "fst (bs_source b) \<le> snd (bs_source b)" "is_char_boundary src (fst (bs_source b))"
      "is_char_boundary src (snd (bs_source b))" if b: "b \<in> set (leaves spans)" for b
  proof -
    obtain t where "str_get src (bs_source b) = Some t" using bspec [OF assms(2) b] by auto
    then have "str_get src (fst (bs_source b), snd (bs_source b)) = Some t" by simp
    from this [unfolded str_get_Some_iff]
    show "fst (bs_source b) \<le> snd (bs_source b)" "is_char_boundary src (fst (bs_source b))"
      "is_char_boundary src (snd (bs_source b))" by auto
  qed
  have in_note: "\<not> (length src < join \<or> \<not> is_char_boundary src join)"
    using assms(1) is_char_boundary_le by fastforce
  show ?thesis
  proof (cases "leaf_for_join (leaves spans) join")
    case None
    then have "leaves spans = []" using leaf_for_join_total [of "leaves spans" join] ok(1) by simp
    with None in_note show ?thesis by (simp add: range_edit_caret_def)
  next
    case (Some b)
    note b = leaf_for_join_in [OF Some]
    define at where "at = clamp join (fst (bs_source b)) (snd (bs_source b))"
    have at: "fst (bs_source b) \<le> at" "at \<le> snd (bs_source b)"
      using clamp_bounds ok(1) b unfolding at_def by blast+
    have "is_char_boundary src at"
      unfolding at_def clamp_def using ok b assms(1) by auto
    then have "str_get src (fst (bs_source b), at) = Some (take (at - fst (bs_source b)) (drop (fst (bs_source b)) src))"
      using at ok b is_char_boundary_le by (simp add: str_get_Some_iff)
    then have "range_edit_caret src spans join =
        Inr (RangeBlock (bs_path b) (utf16_count (take (at - fst (bs_source b)) (drop (fst (bs_source b)) src))))"
      using in_note Some by (simp add: range_edit_caret_def at_def)
    moreover have "(\<exists>l\<in>set (leaves spans). fst (bs_source l) \<le> join \<and> join \<le> snd (bs_source l)) \<longrightarrow> at = join"
      using b clamp_id unfolding at_def by blast
    moreover have "leaves spans \<noteq> []" using b by auto
    ultimately show ?thesis
      using at b by (simp only: if_False) (rule bexI [of _ b], rule exI [of _ at], simp_all)
  qed
qed

lemma range_edit_caret_total_witness:
  "range_edit_caret two_note two_blocks 8 = Inr (RangeBlock [1] 1)"
proof -
  have "\<forall>b\<in>set (leaves two_blocks). str_get two_note (bs_source b) \<noteq> None"
    by code_simp
  moreover have "is_char_boundary two_note 8" by code_simp
  ultimately have "range_edit_caret two_note two_blocks 8 \<noteq> Inl e" for e
    using range_edit_caret_total [of two_note 8 two_blocks] by (auto split: if_splits)
  moreover have "range_edit_caret two_note two_blocks 8 = Inr (RangeBlock [1] 1)" by code_simp
  ultimately show ?thesis by blast
qed

subsection \<open>The insertion slot of a cleared field\<close>

lemma takeWhile_append_none: "takeWhile P ys = [] \<Longrightarrow> takeWhile P (xs @ ys) = takeWhile P xs"
  by (induction xs) simp_all

lemma trailing_newlines_prefix: "LF \<notin> set p \<Longrightarrow> trailing_newlines (p @ t) = trailing_newlines t"
proof -
  assume p: "LF \<notin> set p"
  define ys where "ys = filter (\<lambda>c. c \<noteq> CR) (rev p)"
  have "LF \<notin> set ys" using p by (simp add: ys_def)
  then have "takeWhile (\<lambda>c. c = LF) ys = []" by (cases ys) auto
  then have "takeWhile (\<lambda>c. c = LF) (filter (\<lambda>c. c \<noteq> CR) (rev t) @ ys) =
      takeWhile (\<lambda>c. c = LF) (filter (\<lambda>c. c \<noteq> CR) (rev t))"
    by (rule takeWhile_append_none)
  then show ?thesis
    by (simp add: trailing_newlines_def ys_def)
qed

lemma repeat_LF: "repeat_str [LF] n = replicate n LF"
  by (induction n) simp_all

lemma seam_newline_no_cr: "CR \<notin> set a \<Longrightarrow> CR \<notin> set b \<Longrightarrow> seam_newline a b = [LF]"
  by (auto simp: seam_newline_def newline_style_def rsplit_once_Some_iff suffix_def split: option.split)

lemma newline_run_no_cr:
  assumes "CR \<notin> set t"
  shows "take (newline_run_len t) t = repeat_str [LF] (newline_run_len t)"
proof -
  have "set (take (newline_run_len t) t) \<subseteq> {LF}"
    using newline_run_split(1) [of t] assms set_take_subset by fastforce
  then have "take (newline_run_len t) t = replicate (length (take (newline_run_len t) t)) LF"
    by (intro replicate_eqI) auto
  then show ?thesis
    using newline_run_split(2) [of t] by (simp add: repeat_LF min_absorb2)
qed

lemma clear_field_slot:
  assumes "clear_field path field working spans ast retained = Inr (out, StructuralPhantom slot)"
    and "is_required_after slot \<noteq> 0"
  shows "\<exists>pre n. line_prefix_before working (fst (bs_source field)) = Inr pre
    \<and> n = newline_run_len (drop (snd (bs_source field)) working)
    \<and> is_source_offset slot = fst (bs_source field) - length pre \<and> length pre \<le> fst (bs_source field)
    \<and> is_line_prefix slot = pre
    \<and> (\<exists>removed. str_get working (fst (bs_source field) - length pre, snd (bs_source field) + n) = Some removed
         \<and> is_required_after slot = max (trailing_newlines removed) 1)
    \<and> out = take (fst (bs_source field) - length pre) working @ drop (snd (bs_source field) + n) working"
proof -
  obtain live pre where h: "editable_live_path spans retained path = Inr live"
      "line_prefix_before working (fst (bs_source field)) = Inr pre"
    using assms(1) unfolding clear_field_def by (elim and_thenE) blast
  then show ?thesis
    using assms unfolding clear_field_def Let_def
    by (auto simp: and_then_Inr_iff with_source_Inr_iff str_from_Some_iff not_less split: if_splits)
qed



end
