(* ===== verification/Index_Rows.thy ===== *)
theory Index_Rows
  imports Edit_Seams
begin

section \<open>The index tables\<close>

text \<open>
  \<^verbatim>\<open>index/mod.rs\<close>, \<^verbatim>\<open>index/incremental.rs\<close> and \<^verbatim>\<open>index/scan.rs\<close> over the tables of \<^verbatim>\<open>db/schema.sql\<close>: what a note
  contributes, the statements that write and remove it, and the transaction around them. A database is its
  tables and a schedule of faults: every statement takes the next entry, and an entry makes it fail with no
  effect. Deleting a \<^verbatim>\<open>notes\<close> row takes its \<^verbatim>\<open>fts_mapping\<close> and its outbound \<^verbatim>\<open>links\<close> rows with it (the cascades of
  the schema); the full text has no foreign key, so its row has to be deleted first, through the mapping.
  Inserting a second row under a primary key fails, \<^verbatim>\<open>INSERT OR IGNORE\<close> keeps the first row. The Unicode
  normalisation of a title and the hash of a file are arguments.
\<close>

subsection \<open>Sorting\<close>

text \<open>Rust's order on \<^verbatim>\<open>str\<close>: the bytes, lexicographically.\<close>

datatype str_key = StrKey (key_bytes: string)

lemma byte_inj: "byte a = byte b \<Longrightarrow> a = b"
  by (simp add: byte_def)

instantiation str_key :: linorder
begin

definition less_eq_str_key :: "str_key \<Rightarrow> str_key \<Rightarrow> bool" where
  "less_eq_str_key a b \<longleftrightarrow> lexordp_eq (map byte (key_bytes a)) (map byte (key_bytes b))"

definition less_str_key :: "str_key \<Rightarrow> str_key \<Rightarrow> bool" where
  "less_str_key a b \<longleftrightarrow> a \<le> b \<and> \<not> b \<le> (a :: str_key)"

instance
proof
  fix x y z :: str_key
  show "x < y \<longleftrightarrow> x \<le> y \<and> \<not> y \<le> x" by (simp add: less_str_key_def)
  show "x \<le> x" by (simp add: less_eq_str_key_def lexordp_eq_refl)
  show "x \<le> y \<Longrightarrow> y \<le> z \<Longrightarrow> x \<le> z"
    unfolding less_eq_str_key_def by (rule lexordp_eq_trans)
  show "x \<le> y \<or> y \<le> x"
    unfolding less_eq_str_key_def by (rule lexordp_eq_linear)
  show "x = y" if "x \<le> y" "y \<le> x"
  proof -
    have "map byte (key_bytes x) = map byte (key_bytes y)"
      using that unfolding less_eq_str_key_def by (rule lexordp_eq_antisym)
    moreover have "inj byte" using byte_inj by (rule injI)
    ultimately show ?thesis
      using inj_map_eq_map [of byte "key_bytes x" "key_bytes y"] by (simp add: str_key.expand)
  qed
qed

end

subsection \<open>What a note contributes\<close>

record link_edge =
  le_target :: string
  le_title :: string

record indexed_note =
  in_id :: string
  in_path :: string
  in_title :: string
  in_modified :: int
  in_hash :: string
  in_conformant :: bool
  in_text :: string
  in_links :: "link_edge list"

fun collect_inline_links :: "inline_element list \<Rightarrow> link_edge list \<Rightarrow> link_edge list" where
  "collect_inline_links [] out = out"
| "collect_inline_links (Text _ # es) out = collect_inline_links es out"
| "collect_inline_links (Link t e content # es) out =
     collect_inline_links es
       (collect_inline_links content (out @ [\<lparr>le_target = t, le_title = rendered_text (Paragraph content)\<rparr>]))"
| "collect_inline_links (ExternalLink u content # es) out =
     collect_inline_links es (collect_inline_links content out)"

fun collect_links :: "ast_node list \<Rightarrow> link_edge list \<Rightarrow> link_edge list" where
  "collect_links [] out = out"
| "collect_links (Heading _ content # ns) out = collect_links ns (collect_inline_links content out)"
| "collect_links (Paragraph content # ns) out = collect_links ns (collect_inline_links content out)"
| "collect_links (MList _ items # ns) out = collect_links ns (collect_links items out)"
| "collect_links (ListItem content _ # ns) out = collect_links ns (collect_links content out)"
| "collect_links (Blockquote nodes # ns) out = collect_links ns (collect_links nodes out)"
| "collect_links (Suggestion base local_c incoming # ns) out =
     collect_links ns
       (collect_links incoming (collect_links local_c
         (case base of None \<Rightarrow> out | Some b \<Rightarrow> collect_links b out)))"
| "collect_links (CodeBlock _ _ # ns) out = collect_links ns out"
| "collect_links (ThematicBreak # ns) out = collect_links ns out"
| "collect_links (Image _ _ # ns) out = collect_links ns out"

definition derive_note :: "pulldown \<Rightarrow> reader \<Rightarrow> string \<Rightarrow> string \<Rightarrow> string \<Rightarrow> int \<Rightarrow> indexed_note" where
  "derive_note pulldown reader concept_id src content_hash last_modified =
     (let pn = parse_note pulldown src (containing_dir concept_id);
          fm = (case Option.bind (sm_frontmatter (pn_spans pn)) (str_get src) of
                  None \<Rightarrow> frontmatter_default
                | Some raw \<Rightarrow> reader raw);
          title = (case fm_title fm of
                     None \<Rightarrow> file_stem concept_id
                   | Some t \<Rightarrow> if str_trim t \<noteq> [] then str_trim t else file_stem concept_id)
      in \<lparr>in_id = concept_id, in_path = concept_id_to_path concept_id, in_title = title,
         in_modified = last_modified, in_hash = content_hash, in_conformant = is_conformant fm,
         in_text = join_with [LF] (map rendered_text (pn_ast pn)), in_links = collect_links (pn_ast pn) []\<rparr>)"

subsection \<open>Tables and statements\<close>

record note_row =
  nr_ws :: string
  nr_id :: string
  nr_path :: string
  nr_title :: string
  nr_key :: string
  nr_modified :: int
  nr_hash :: string
  nr_conformant :: bool

record link_row =
  lr_ws :: string
  lr_source :: string
  lr_target :: string
  lr_title :: string

record fts_row =
  fr_rowid :: nat
  fr_title :: string
  fr_content :: string

record mapping_row =
  mr_ws :: string
  mr_note :: string
  mr_rowid :: nat

record directory_row =
  dr_id :: string
  dr_ws :: string

record db =
  db_workspaces :: "string list"
  db_notes :: "note_row list"
  db_links :: "link_row list"
  db_fts :: "fts_row list"
  db_mapping :: "mapping_row list"
  db_dirs :: "directory_row list"
  db_faults :: "app_error option list"
  db_in_tx :: bool

type_synonym 'a sql = "db \<Rightarrow> 'a result \<times> db"

text \<open>One statement.\<close>

definition statement :: "(db \<Rightarrow> 'a result \<times> db) \<Rightarrow> 'a sql" where
  "statement f d =
     (let d' = d\<lparr>db_faults := tl (db_faults d)\<rparr>
      in (case db_faults d of
            Some e # _ \<Rightarrow> (Inl e, d')
          | _ \<Rightarrow> f d'))"

definition sql_ret :: "'a \<Rightarrow> 'a sql" where
  "sql_ret x d = (Inr x, d)"

definition sql_then :: "'a sql \<Rightarrow> ('a \<Rightarrow> 'b sql) \<Rightarrow> 'b sql" where
  "sql_then m f d = (case m d of (Inl e, d') \<Rightarrow> (Inl e, d') | (Inr x, d') \<Rightarrow> f x d')"

fun sql_each :: "('a \<Rightarrow> unit sql) \<Rightarrow> 'a list \<Rightarrow> unit sql" where
  "sql_each f [] = sql_ret ()"
| "sql_each f (x # xs) = sql_then (f x) (\<lambda>_. sql_each f xs)"

definition constraint_error :: app_error where
  "constraint_error = DatabaseError ''constraint failed''"

text \<open>
  \<^verbatim>\<open>in_transaction\<close>: an open transaction is joined; an owned one is rolled back when the body or the commit
  fails. The schedule of faults is not part of what a rollback restores.
\<close>

definition tx_rollback :: "db \<Rightarrow> db \<Rightarrow> db" where
  "tx_rollback d d' = d\<lparr>db_faults := db_faults d'\<rparr>"

definition commit_tx :: "unit sql" where
  "commit_tx = statement (\<lambda>d. (Inr (), d))"

definition in_transaction :: "'a sql \<Rightarrow> 'a sql" where
  "in_transaction f d =
     (if db_in_tx d then f d
      else (case f (d\<lparr>db_in_tx := True\<rparr>) of
              (Inl e, d') \<Rightarrow> (Inl e, tx_rollback d d')
            | (Inr x, d') \<Rightarrow>
                (case commit_tx d' of
                   (Inl e, d'') \<Rightarrow> (Inl e, tx_rollback d d'')
                 | (Inr _, d'') \<Rightarrow> (Inr x, d''\<lparr>db_in_tx := False\<rparr>))))"

subsection \<open>Writing a note's rows\<close>

definition insert_note :: "(string \<Rightarrow> string) \<Rightarrow> string \<Rightarrow> indexed_note \<Rightarrow> unit sql" where
  "insert_note lookup_key ws n = statement (\<lambda>d.
     if ws \<notin> set (db_workspaces d)
        \<or> list_ex (\<lambda>r. nr_ws r = ws \<and> (nr_id r = in_id n \<or> nr_path r = in_path n)) (db_notes d)
     then (Inl constraint_error, d)
     else (Inr (), d\<lparr>db_notes := db_notes d @
       [\<lparr>nr_ws = ws, nr_id = in_id n, nr_path = in_path n, nr_title = in_title n, nr_key = lookup_key (in_title n),
         nr_modified = in_modified n, nr_hash = in_hash n, nr_conformant = in_conformant n\<rparr>]\<rparr>))"

definition next_rowid :: "fts_row list \<Rightarrow> nat" where
  "next_rowid rows = Suc (foldr max (map fr_rowid rows) 0)"

text \<open>The full-text row, and \<^verbatim>\<open>last_insert_rowid\<close>.\<close>

definition insert_fts :: "string \<Rightarrow> string \<Rightarrow> nat sql" where
  "insert_fts title content = statement (\<lambda>d.
     let rowid = next_rowid (db_fts d)
     in (Inr rowid, d\<lparr>db_fts := db_fts d @ [\<lparr>fr_rowid = rowid, fr_title = title, fr_content = content\<rparr>]\<rparr>))"

definition insert_mapping :: "string \<Rightarrow> string \<Rightarrow> nat \<Rightarrow> unit sql" where
  "insert_mapping ws note_id rowid = statement (\<lambda>d.
     if list_ex (\<lambda>r. mr_ws r = ws \<and> mr_note r = note_id) (db_mapping d)
        \<or> \<not> list_ex (\<lambda>r. nr_ws r = ws \<and> nr_id r = note_id) (db_notes d)
     then (Inl constraint_error, d)
     else (Inr (), d\<lparr>db_mapping := db_mapping d @ [\<lparr>mr_ws = ws, mr_note = note_id, mr_rowid = rowid\<rparr>]\<rparr>))"

definition insert_link :: "string \<Rightarrow> string \<Rightarrow> link_edge \<Rightarrow> unit sql" where
  "insert_link ws source edge = statement (\<lambda>d.
     if list_ex (\<lambda>r. lr_ws r = ws \<and> lr_source r = source \<and> lr_target r = le_target edge) (db_links d)
     then (Inr (), d)
     else if \<not> list_ex (\<lambda>r. nr_ws r = ws \<and> nr_id r = source) (db_notes d) then (Inl constraint_error, d)
     else (Inr (), d\<lparr>db_links := db_links d @
       [\<lparr>lr_ws = ws, lr_source = source, lr_target = le_target edge, lr_title = le_title edge\<rparr>]\<rparr>))"

definition insert_note_rows :: "(string \<Rightarrow> string) \<Rightarrow> string \<Rightarrow> indexed_note \<Rightarrow> unit sql" where
  "insert_note_rows lookup_key ws n =
     sql_then (insert_note lookup_key ws n) (\<lambda>_.
     sql_then (insert_fts (in_title n) (in_text n)) (\<lambda>rowid.
     sql_then (insert_mapping ws (in_id n) rowid) (\<lambda>_.
       sql_each (insert_link ws (in_id n)) (in_links n))))"

definition insert_directory :: "string \<Rightarrow> string \<Rightarrow> unit sql" where
  "insert_directory ws dir = statement (\<lambda>d.
     if list_ex (\<lambda>r. dr_ws r = ws \<and> dr_id r = dir) (db_dirs d) then (Inr (), d)
     else if ws \<notin> set (db_workspaces d) then (Inl constraint_error, d)
     else (Inr (), d\<lparr>db_dirs := db_dirs d @ [\<lparr>dr_id = dir, dr_ws = ws\<rparr>]\<rparr>))"

text \<open>The ancestors \<^verbatim>\<open>record_directories\<close> walks, nearest to the root first.\<close>

fun ancestors_from :: "string \<Rightarrow> string list \<Rightarrow> string list" where
  "ancestors_from ancestor [] = []"
| "ancestors_from ancestor (segment # segments) =
     (let a = (if ancestor = [] then segment else ancestor @ [SLASH] @ segment)
      in a # ancestors_from a segments)"

definition record_directories :: "string \<Rightarrow> string \<Rightarrow> unit sql" where
  "record_directories ws directory =
     (if directory = [] then sql_ret ()
      else sql_each (insert_directory ws)
             (ancestors_from [] (filter (\<lambda>s. s \<noteq> []) (split_on SLASH directory))))"

subsection \<open>Removing rows\<close>

definition purge_note_text :: "string \<Rightarrow> string \<Rightarrow> unit sql" where
  "purge_note_text ws note_id = statement (\<lambda>d.
     (Inr (), d\<lparr>db_fts := filter (\<lambda>f. \<not> list_ex (\<lambda>m. mr_ws m = ws \<and> mr_note m = note_id \<and> mr_rowid m = fr_rowid f)
                                     (db_mapping d)) (db_fts d)\<rparr>))"

definition purge_workspace_text :: "string \<Rightarrow> unit sql" where
  "purge_workspace_text ws = statement (\<lambda>d.
     (Inr (), d\<lparr>db_fts := filter (\<lambda>f. \<not> list_ex (\<lambda>m. mr_ws m = ws \<and> mr_rowid m = fr_rowid f)
                                     (db_mapping d)) (db_fts d)\<rparr>))"

text \<open>\<^verbatim>\<open>DELETE FROM notes WHERE ...\<close> with its cascades.\<close>

definition delete_notes :: "(string \<Rightarrow> string \<Rightarrow> bool) \<Rightarrow> unit sql" where
  "delete_notes which = statement (\<lambda>d.
     (Inr (), d\<lparr>db_notes := filter (\<lambda>r. \<not> which (nr_ws r) (nr_id r)) (db_notes d),
                db_mapping := filter (\<lambda>m. \<not> which (mr_ws m) (mr_note m)) (db_mapping d),
                db_links := filter (\<lambda>l. \<not> which (lr_ws l) (lr_source l)) (db_links d)\<rparr>))"

definition remove_note_rows :: "string \<Rightarrow> string \<Rightarrow> unit sql" where
  "remove_note_rows ws note_id =
     sql_then (purge_note_text ws note_id) (\<lambda>_. delete_notes (\<lambda>w i. w = ws \<and> i = note_id))"

definition analyze :: "unit sql" where
  "analyze = statement (\<lambda>d. (Inr (), d))"

datatype index_outcome = Unchanged | Updated

definition write_note_rows_deferring_analyze ::
    "(string \<Rightarrow> string) \<Rightarrow> string \<Rightarrow> indexed_note \<Rightarrow> index_outcome sql" where
  "write_note_rows_deferring_analyze lookup_key ws n =
     sql_then
       (in_transaction
         (sql_then (remove_note_rows ws (in_id n)) (\<lambda>_.
          sql_then (record_directories ws (containing_dir (in_id n))) (\<lambda>_.
            insert_note_rows lookup_key ws n))))
       (\<lambda>_. sql_ret Updated)"

definition write_note_rows :: "(string \<Rightarrow> string) \<Rightarrow> string \<Rightarrow> indexed_note \<Rightarrow> index_outcome sql" where
  "write_note_rows lookup_key ws n =
     sql_then (write_note_rows_deferring_analyze lookup_key ws n) (\<lambda>outcome.
     sql_then analyze (\<lambda>_. sql_ret outcome))"

definition stored_content_hash :: "string \<Rightarrow> string \<Rightarrow> string option sql" where
  "stored_content_hash ws concept_id = statement (\<lambda>d.
     (Inr (map_option nr_hash (List.find (\<lambda>r. nr_ws r = ws \<and> nr_id r = concept_id) (db_notes d))), d))"

definition note_exists :: "string \<Rightarrow> string \<Rightarrow> bool sql" where
  "note_exists ws note_id = statement (\<lambda>d.
     (Inr (list_ex (\<lambda>r. nr_ws r = ws \<and> nr_id r = note_id) (db_notes d)), d))"

text \<open>
  \<^verbatim>\<open>NoteSession::index_written_source\<close>: the recorded hash is compared first, and only a changed note is derived
  and written.
\<close>

definition index_written_source ::
    "pulldown \<Rightarrow> reader \<Rightarrow> (string \<Rightarrow> string) \<Rightarrow> string \<Rightarrow> string \<Rightarrow> string \<Rightarrow> string \<Rightarrow> int \<Rightarrow> unit sql" where
  "index_written_source pulldown reader lookup_key ws note_id src revision mtime =
     sql_then (stored_content_hash ws note_id) (\<lambda>stored.
       if stored = Some revision then sql_ret ()
       else sql_then (write_note_rows lookup_key ws (derive_note pulldown reader note_id src revision mtime))
              (\<lambda>_. sql_ret ()))"

subsection \<open>The rebuild\<close>

record scanned_bundle =
  sc_directories :: "string list"
  sc_notes :: "indexed_note list"

definition delete_directories :: "string \<Rightarrow> unit sql" where
  "delete_directories ws = statement (\<lambda>d.
     (Inr (), d\<lparr>db_dirs := filter (\<lambda>r. dr_ws r \<noteq> ws) (db_dirs d)\<rparr>))"

definition write_scanned_bundle :: "(string \<Rightarrow> string) \<Rightarrow> string \<Rightarrow> scanned_bundle \<Rightarrow> nat sql" where
  "write_scanned_bundle lookup_key ws scanned =
     sql_then
       (in_transaction
         (sql_then (purge_workspace_text ws) (\<lambda>_.
          sql_then (delete_notes (\<lambda>w i. w = ws)) (\<lambda>_.
          sql_then (delete_directories ws) (\<lambda>_.
          sql_then (sql_each (insert_directory ws) (sc_directories scanned)) (\<lambda>_.
          sql_then (sql_each (insert_note_rows lookup_key ws) (sc_notes scanned)) (\<lambda>_.
            sql_ret (length (sc_notes scanned)))))))))
       (\<lambda>indexed. sql_then analyze (\<lambda>_. sql_ret indexed))"

subsection \<open>Link existence\<close>

fun apply_inline_existence :: "string set \<Rightarrow> inline_element \<Rightarrow> inline_element" where
  "apply_inline_existence known (Text run) = Text run"
| "apply_inline_existence known (Link t e content) = Link t (t \<in> known) (map (apply_inline_existence known) content)"
| "apply_inline_existence known (ExternalLink u content) = ExternalLink u (map (apply_inline_existence known) content)"

fun apply_link_existence :: "string set \<Rightarrow> ast_node \<Rightarrow> ast_node" where
  "apply_link_existence known (Heading l content) = Heading l (map (apply_inline_existence known) content)"
| "apply_link_existence known (Paragraph content) = Paragraph (map (apply_inline_existence known) content)"
| "apply_link_existence known (MList o_flag items) = MList o_flag (map (apply_link_existence known) items)"
| "apply_link_existence known (ListItem content c) = ListItem (map (apply_link_existence known) content) c"
| "apply_link_existence known (Blockquote nodes) = Blockquote (map (apply_link_existence known) nodes)"
| "apply_link_existence known (Suggestion base local_c incoming) =
     Suggestion (map_option (map (apply_link_existence known)) base)
       (map (apply_link_existence known) local_c) (map (apply_link_existence known) incoming)"
| "apply_link_existence known n = n"

text \<open>The lookup of every distinct target; the order of the set is not the program's to fix.\<close>

fun existing_targets :: "string \<Rightarrow> string list \<Rightarrow> string set \<Rightarrow> string set sql" where
  "existing_targets ws [] found = sql_ret found"
| "existing_targets ws (t # ts) found =
     sql_then (note_exists ws t) (\<lambda>e. existing_targets ws ts (if e then insert t found else found))"

definition resolve_link_existence :: "string \<Rightarrow> ast_node list \<Rightarrow> ast_node list sql" where
  "resolve_link_existence ws nodes =
     (let targets = remdups (map le_target (collect_links nodes []))
      in if targets = [] then sql_ret nodes
         else sql_then (existing_targets ws targets {}) (\<lambda>found.
                sql_ret (map (apply_link_existence found) nodes)))"

end
