(* ===== verification/Index_Laws.thy ===== *)
theory Index_Laws
  imports Index_Rows
begin

section \<open>What the index statements keep\<close>

text \<open>
  The invariant of the tables (\<open>index_ok\<close>: every full-text row is reachable from its note, and the other
  way round), what a successful write of a note's rows leaves, and that a failed one leaves the tables as
  they were. The contract the callers use is the locale \<open>note_index\<close>.
\<close>

subsection \<open>Running statements\<close>

lemma sql_then_Inr:
  "sql_then m f d = (Inr y, d'') \<longleftrightarrow> (\<exists>x d'. m d = (Inr x, d') \<and> f x d' = (Inr y, d''))"
  by (auto simp: sql_then_def split: prod.splits sum.splits)

lemma sql_ret_Inr [simp]: "sql_ret x d = (Inr y, d') \<longleftrightarrow> y = x \<and> d' = d"
  by (auto simp: sql_ret_def)

text \<open>The tables, without the schedule and the transaction flag.\<close>

definition same_tables :: "db \<Rightarrow> db \<Rightarrow> bool" where
  "same_tables d d' \<longleftrightarrow> db_workspaces d' = db_workspaces d \<and> db_notes d' = db_notes d \<and> db_links d' = db_links d
     \<and> db_fts d' = db_fts d \<and> db_mapping d' = db_mapping d \<and> db_dirs d' = db_dirs d"

lemma same_tables_refl [simp]: "same_tables d d"
  by (simp add: same_tables_def)

lemma statement_Inr:
  "statement f d = (Inr x, d') \<longleftrightarrow> (db_faults d = [] \<or> hd (db_faults d) = None)
     \<and> f (d\<lparr>db_faults := tl (db_faults d)\<rparr>) = (Inr x, d')"
  by (auto simp: statement_def Let_def split: list.splits option.splits)

text \<open>A transaction that is not joined: all of the body, or nothing.\<close>

lemma in_transaction_cases:
  assumes "in_transaction f d = (r, d')" and "\<not> db_in_tx d"
  obtains (failed) e where "r = Inl e" "same_tables d d'" "\<not> db_in_tx d'"
  | (complete) x d1 where "r = Inr x" "f (d\<lparr>db_in_tx := True\<rparr>) = (Inr x, d1)" "same_tables d1 d'" "\<not> db_in_tx d'"
proof (cases "f (d\<lparr>db_in_tx := True\<rparr>)")
  case (Pair r1 d1)
  show ?thesis
  proof (cases r1)
    case (Inl e)
    then show ?thesis
      using assms Pair failed by (auto simp: in_transaction_def tx_rollback_def same_tables_def)
  next
    case (Inr x)
    obtain r2 d2 where c: "commit_tx d1 = (r2, d2)" by (cases "commit_tx d1")
    then have "same_tables d1 d2"
      by (auto simp: commit_tx_def statement_def same_tables_def Let_def split: list.splits option.splits)
    then show ?thesis
      using assms Pair Inr c failed complete
      by (cases r2) (auto simp: in_transaction_def tx_rollback_def same_tables_def)
  qed
qed

subsection \<open>The effect of one statement\<close>

abbreviation note_key :: "note_row \<Rightarrow> string \<times> string" where
  "note_key r \<equiv> (nr_ws r, nr_id r)"

abbreviation mapping_key :: "mapping_row \<Rightarrow> string \<times> string" where
  "mapping_key m \<equiv> (mr_ws m, mr_note m)"

definition index_ok :: "db \<Rightarrow> bool" where
  "index_ok d \<longleftrightarrow> distinct (map note_key (db_notes d)) \<and> distinct (map mapping_key (db_mapping d))
     \<and> distinct (map mr_rowid (db_mapping d)) \<and> distinct (map fr_rowid (db_fts d))
     \<and> mapping_key ` set (db_mapping d) = note_key ` set (db_notes d)
     \<and> mr_rowid ` set (db_mapping d) = fr_rowid ` set (db_fts d)
     \<and> (\<forall>l\<in>set (db_links d). (lr_ws l, lr_source l) \<in> note_key ` set (db_notes d))
     \<and> distinct (map (\<lambda>l. (lr_ws l, lr_source l, lr_target l)) (db_links d))"

lemma index_ok_same: "same_tables d d' \<Longrightarrow> index_ok d' = index_ok d"
  by (simp add: same_tables_def index_ok_def)

definition without_notes :: "(string \<Rightarrow> string \<Rightarrow> bool) \<Rightarrow> db \<Rightarrow> db" where
  "without_notes which d =
     d\<lparr>db_fts := filter (\<lambda>f. \<not> list_ex (\<lambda>m. which (mr_ws m) (mr_note m) \<and> mr_rowid m = fr_rowid f) (db_mapping d)) (db_fts d),
       db_notes := filter (\<lambda>r. \<not> which (nr_ws r) (nr_id r)) (db_notes d),
       db_mapping := filter (\<lambda>m. \<not> which (mr_ws m) (mr_note m)) (db_mapping d),
       db_links := filter (\<lambda>l. \<not> which (lr_ws l) (lr_source l)) (db_links d)\<rparr>"

lemma distinct_map_filter': "distinct (map f xs) \<Longrightarrow> distinct (map f (filter P xs))"
  by (simp add: distinct_map inj_on_def)

lemma without_notes_ok:
  assumes "index_ok d"
  shows "index_ok (without_notes which d)"
proof -
  let ?d = "without_notes which d"
  have inj: "inj_on mr_rowid (set (db_mapping d))"
    using assms by (simp add: index_ok_def distinct_map)
  have keys: "mapping_key ` set (db_mapping d) = note_key ` set (db_notes d)"
    and rows: "mr_rowid ` set (db_mapping d) = fr_rowid ` set (db_fts d)"
    and links: "\<forall>l\<in>set (db_links d). (lr_ws l, lr_source l) \<in> note_key ` set (db_notes d)"
    using assms by (simp_all add: index_ok_def)
  have "mapping_key ` set (db_mapping ?d) = {k \<in> mapping_key ` set (db_mapping d). \<not> which (fst k) (snd k)}"
    by (auto simp: without_notes_def)
  also have "\<dots> = note_key ` set (db_notes ?d)"
    unfolding keys by (auto simp: without_notes_def)
  finally have k: "mapping_key ` set (db_mapping ?d) = note_key ` set (db_notes ?d)" .
  have r: "mr_rowid ` set (db_mapping ?d) = fr_rowid ` set (db_fts ?d)"
  proof -
    have "fr_rowid ` set (db_fts ?d) = fr_rowid ` set (db_fts d) - mr_rowid ` {m \<in> set (db_mapping d). which (mr_ws m) (mr_note m)}"
      by (auto simp: without_notes_def list_ex_iff image_iff) metis
    also have "\<dots> = mr_rowid ` (set (db_mapping d) - {m \<in> set (db_mapping d). which (mr_ws m) (mr_note m)})"
      unfolding rows [symmetric] using inj by (subst inj_on_image_set_diff [of mr_rowid "set (db_mapping d)"]) auto
    finally show ?thesis by (auto simp: without_notes_def)
  qed
  have l: "\<forall>l\<in>set (db_links ?d). (lr_ws l, lr_source l) \<in> note_key ` set (db_notes ?d)"
    using links by (force simp: without_notes_def)
  show ?thesis
    using assms k r l unfolding index_ok_def
    by (simp add: without_notes_def distinct_map_filter')
qed

lemma remove_note_rows_Inr:
  assumes "remove_note_rows ws i d = (Inr (), d')"
  shows "same_tables (without_notes (\<lambda>w j. w = ws \<and> j = i) d) d'"
  using assms unfolding remove_note_rows_def sql_then_Inr
  by (auto simp: purge_note_text_def delete_notes_def statement_Inr same_tables_def without_notes_def conj_assoc)

definition new_row :: "(string \<Rightarrow> string) \<Rightarrow> string \<Rightarrow> indexed_note \<Rightarrow> note_row" where
  "new_row lookup_key ws n =
     \<lparr>nr_ws = ws, nr_id = in_id n, nr_path = in_path n, nr_title = in_title n, nr_key = lookup_key (in_title n),
      nr_modified = in_modified n, nr_hash = in_hash n, nr_conformant = in_conformant n\<rparr>"

text \<open>The edges kept: the first one of each target.\<close>

fun first_edges :: "link_edge list \<Rightarrow> string set \<Rightarrow> link_edge list" where
  "first_edges [] seen = []"
| "first_edges (e # es) seen =
     (if le_target e \<in> seen then first_edges es seen else e # first_edges es (insert (le_target e) seen))"

definition edge_row :: "string \<Rightarrow> string \<Rightarrow> link_edge \<Rightarrow> link_row" where
  "edge_row ws source e = \<lparr>lr_ws = ws, lr_source = source, lr_target = le_target e, lr_title = le_title e\<rparr>"

lemma edge_row_simps [simp]:
  "lr_ws (edge_row ws source e) = ws" "lr_source (edge_row ws source e) = source"
  "lr_target (edge_row ws source e) = le_target e" "lr_title (edge_row ws source e) = le_title e"
  by (simp_all add: edge_row_def)

definition link_targets :: "string \<Rightarrow> string \<Rightarrow> db \<Rightarrow> string set" where
  "link_targets ws source d = lr_target ` {l \<in> set (db_links d). lr_ws l = ws \<and> lr_source l = source}"

lemma link_targets_snoc:
  "db_links d' = db_links d @ [r] \<Longrightarrow> lr_ws r = ws \<Longrightarrow> lr_source r = source \<Longrightarrow>
   link_targets ws source d' = insert (lr_target r) (link_targets ws source d)"
  by (auto simp: link_targets_def image_iff)

lemma insert_links_Inr:
  assumes "sql_each (insert_link ws source) es d = (Inr (), d')"
  shows "same_tables (d\<lparr>db_links := db_links d @ map (edge_row ws source) (first_edges es (link_targets ws source d))\<rparr>) d'"
  using assms
proof (induction es arbitrary: d)
  case Nil
  then show ?case by (simp add: same_tables_def)
next
  case (Cons e es)
  then obtain d1 where d1: "insert_link ws source e d = (Inr (), d1)" "sql_each (insert_link ws source) es d1 = (Inr (), d')"
    by (auto simp: sql_then_Inr)
  show ?case
  proof (cases "le_target e \<in> link_targets ws source d")
    case True
    then have "list_ex (\<lambda>r. lr_ws r = ws \<and> lr_source r = source \<and> lr_target r = le_target e) (db_links d)"
      by (auto simp: link_targets_def list_ex_iff)
    then have "d1 = d\<lparr>db_faults := tl (db_faults d)\<rparr>"
      using d1(1) by (auto simp: insert_link_def statement_Inr)
    with Cons.IH [OF d1(2)] True show ?thesis
      by (simp add: same_tables_def link_targets_def)
  next
    case False
    then have "\<not> list_ex (\<lambda>r. lr_ws r = ws \<and> lr_source r = source \<and> lr_target r = le_target e) (db_links d)"
      unfolding link_targets_def list_ex_iff by (metis (mono_tags, lifting) image_eqI mem_Collect_eq)
    then have s: "d1 = d\<lparr>db_faults := tl (db_faults d), db_links := db_links d @ [edge_row ws source e]\<rparr>"
      using d1(1) by (auto simp: insert_link_def statement_Inr edge_row_def split: if_splits)
    then have "link_targets ws source d1 = insert (le_target e) (link_targets ws source d)"
      using link_targets_snoc [of d1 d "edge_row ws source e"] by simp
    with Cons.IH [OF d1(2)] False s show ?thesis
      by (simp add: same_tables_def)
  qed
qed

lemma record_directories_step:
  assumes "sql_each (insert_directory ws) as d = (Inr (), d')"
  shows "\<exists>more. same_tables (d\<lparr>db_dirs := db_dirs d @ more\<rparr>) d'
    \<and> (\<forall>r\<in>set more. dr_ws r = ws \<and> dr_id r \<in> set as)
    \<and> (\<forall>a\<in>set as. \<lparr>dr_id = a, dr_ws = ws\<rparr> \<in> set (db_dirs d'))"
  using assms
proof (induction as arbitrary: d)
  case Nil
  then show ?case by (simp add: same_tables_def)
next
  case (Cons a as)
  then obtain d1 where d1: "insert_directory ws a d = (Inr (), d1)" "sql_each (insert_directory ws) as d1 = (Inr (), d')"
    by (auto simp: sql_then_Inr)
  obtain more where m: "same_tables (d1\<lparr>db_dirs := db_dirs d1 @ more\<rparr>) d'"
      "\<forall>r\<in>set more. dr_ws r = ws \<and> dr_id r \<in> set as"
      "\<forall>a\<in>set as. \<lparr>dr_id = a, dr_ws = ws\<rparr> \<in> set (db_dirs d')"
    using Cons.IH [OF d1(2)] by blast
  show ?case
  proof (cases "\<exists>r\<in>set (db_dirs d). dr_ws r = ws \<and> dr_id r = a")
    case True
    then have "\<lparr>dr_id = a, dr_ws = ws\<rparr> \<in> set (db_dirs d)" by (metis directory_row.surjective old.unit.exhaust)
    moreover have "d1 = d\<lparr>db_faults := tl (db_faults d)\<rparr>"
      using d1(1) True by (auto simp: insert_directory_def statement_Inr list_ex_iff split: if_splits)
    ultimately show ?thesis
      using m by (intro exI [of _ more]) (auto simp: same_tables_def)
  next
    case False
    then have "d1 = d\<lparr>db_faults := tl (db_faults d), db_dirs := db_dirs d @ [\<lparr>dr_id = a, dr_ws = ws\<rparr>]\<rparr>"
      using d1(1) by (auto simp: insert_directory_def statement_Inr list_ex_iff split: if_splits)
    then show ?thesis
      using m by (intro exI [of _ "\<lparr>dr_id = a, dr_ws = ws\<rparr> # more"]) (auto simp: same_tables_def)
  qed
qed

lemma next_rowid_fresh: "next_rowid rows \<notin> fr_rowid ` set rows"
proof -
  have "r \<in> set rows \<Longrightarrow> fr_rowid r < next_rowid rows" for r
    unfolding next_rowid_def by (induction rows) auto
  then show ?thesis by (metis image_iff less_irrefl)
qed

definition with_note :: "(string \<Rightarrow> string) \<Rightarrow> string \<Rightarrow> indexed_note \<Rightarrow> db \<Rightarrow> db" where
  "with_note lookup_key ws n d =
     d\<lparr>db_notes := db_notes d @ [new_row lookup_key ws n],
       db_fts := db_fts d @ [\<lparr>fr_rowid = next_rowid (db_fts d), fr_title = in_title n, fr_content = in_text n\<rparr>],
       db_mapping := db_mapping d @ [\<lparr>mr_ws = ws, mr_note = in_id n, mr_rowid = next_rowid (db_fts d)\<rparr>],
       db_links := db_links d @ map (edge_row ws (in_id n)) (first_edges (in_links n) (link_targets ws (in_id n) d))\<rparr>"

lemma insert_note_rows_Inr:
  assumes "insert_note_rows lookup_key ws n d = (Inr (), d')"
  shows "same_tables (with_note lookup_key ws n d) d' \<and> (ws, in_id n) \<notin> note_key ` set (db_notes d)
    \<and> (ws, in_id n) \<notin> mapping_key ` set (db_mapping d)"
proof -
  obtain d1 d2 d3 rowid where s: "insert_note lookup_key ws n d = (Inr (), d1)"
      "insert_fts (in_title n) (in_text n) d1 = (Inr rowid, d2)"
      "insert_mapping ws (in_id n) rowid d2 = (Inr (), d3)"
      "sql_each (insert_link ws (in_id n)) (in_links n) d3 = (Inr (), d')"
    using assms unfolding insert_note_rows_def sql_then_Inr by (metis old.unit.exhaust)
  have n: "d1 = d\<lparr>db_faults := tl (db_faults d), db_notes := db_notes d @ [new_row lookup_key ws n]\<rparr>"
      "(ws, in_id n) \<notin> note_key ` set (db_notes d)"
    using s(1) by (auto simp: insert_note_def statement_Inr new_row_def list_ex_iff split: if_splits)
  have f: "rowid = next_rowid (db_fts d1)" "d2 = d1\<lparr>db_faults := tl (db_faults d1),
      db_fts := db_fts d1 @ [\<lparr>fr_rowid = rowid, fr_title = in_title n, fr_content = in_text n\<rparr>]\<rparr>"
    using s(2) by (auto simp: insert_fts_def statement_Inr Let_def)
  have m: "d3 = d2\<lparr>db_faults := tl (db_faults d2),
      db_mapping := db_mapping d2 @ [\<lparr>mr_ws = ws, mr_note = in_id n, mr_rowid = rowid\<rparr>]\<rparr>"
      "(ws, in_id n) \<notin> mapping_key ` set (db_mapping d2)"
    using s(3) by (auto simp: insert_mapping_def statement_Inr list_ex_iff split: if_splits)
  have "link_targets ws (in_id n) d3 = link_targets ws (in_id n) d"
    by (simp add: link_targets_def m(1) f(2) n(1))
  with insert_links_Inr [OF s(4)] show ?thesis
    using n(2) m(2) by (simp add: same_tables_def with_note_def m(1) f n(1))
qed

lemma first_edges_targets:
  "le_target ` set (first_edges es seen) = le_target ` set es - seen"
  "distinct (map le_target (first_edges es seen))"
  by (induction es arbitrary: seen) auto

lemma with_note_ok:
  assumes "index_ok d" and "(ws, in_id n) \<notin> note_key ` set (db_notes d)"
  shows "index_ok (with_note lookup_key ws n d)"
proof -
  have k: "(ws, in_id n) \<notin> mapping_key ` set (db_mapping d)"
    using assms by (simp add: index_ok_def)
  have r: "next_rowid (db_fts d) \<notin> fr_rowid ` set (db_fts d)"
    by (rule next_rowid_fresh)
  then have "next_rowid (db_fts d) \<notin> mr_rowid ` set (db_mapping d)"
    using assms(1) by (simp add: index_ok_def)
  moreover have "distinct (map (\<lambda>l. (lr_ws l, lr_source l, lr_target l))
      (map (edge_row ws (in_id n)) (first_edges (in_links n) seen)))" for seen
    using first_edges_targets(2) [of "in_links n" seen] by (auto simp: distinct_map inj_on_def edge_row_def)
  moreover have "(ws, in_id n, t) \<notin> (\<lambda>l. (lr_ws l, lr_source l, lr_target l)) ` set (db_links d)" for t
    using assms by (force simp: index_ok_def)
  then have "(\<lambda>l. (lr_ws l, lr_source l, lr_target l)) ` set (db_links d)
      \<inter> (\<lambda>l. (lr_ws l, lr_source l, lr_target l)) ` set (map (edge_row ws (in_id n)) es) = {}" for es
    unfolding set_map image_image edge_row_simps disjoint_iff by (metis (no_types, lifting) imageE)
  ultimately have links: "distinct (map (\<lambda>l. (lr_ws l, lr_source l, lr_target l)) (db_links (with_note lookup_key ws n d)))"
    using assms(1) unfolding index_ok_def with_note_def by (simp del: map_map)
  have "\<forall>l\<in>set (db_links (with_note lookup_key ws n d)).
      (lr_ws l, lr_source l) \<in> note_key ` set (db_notes (with_note lookup_key ws n d))"
    using assms(1) by (auto simp: index_ok_def with_note_def new_row_def)
  then show ?thesis
    using assms k r links unfolding index_ok_def
    by (auto simp: with_note_def new_row_def)
qed

subsection \<open>Writing one note\<close>

lemma with_note_same: "same_tables d d' \<Longrightarrow> same_tables (with_note k ws n d) (with_note k ws n d')"
  by (simp add: same_tables_def with_note_def link_targets_def)

lemma without_notes_same: "same_tables d d' \<Longrightarrow> same_tables (without_notes w d) (without_notes w d')"
  by (simp add: same_tables_def without_notes_def)

lemma same_tables_sym: "same_tables d d' \<Longrightarrow> same_tables d' d"
  by (simp add: same_tables_def)

lemma same_tables_trans: "same_tables d d' \<Longrightarrow> same_tables d' d'' \<Longrightarrow> same_tables d d''"
  by (simp add: same_tables_def)

definition note_dirs :: "string \<Rightarrow> string list" where
  "note_dirs concept_id =
     (if containing_dir concept_id = [] then []
      else ancestors_from [] (filter (\<lambda>s. s \<noteq> []) (split_on SLASH (containing_dir concept_id))))"

text \<open>What a successful write leaves: the directories it recorded, and the note's rows in place of the old ones.\<close>

lemma write_body_Inr:
  assumes "sql_then (remove_note_rows ws (in_id n)) (\<lambda>_.
      sql_then (record_directories ws (containing_dir (in_id n))) (\<lambda>_. insert_note_rows lookup_key ws n)) d = (Inr (), d')"
  shows "\<exists>more. same_tables
      (with_note lookup_key ws n (without_notes (\<lambda>w j. w = ws \<and> j = in_id n) (d\<lparr>db_dirs := db_dirs d @ more\<rparr>))) d'
    \<and> (\<forall>r\<in>set more. dr_ws r = ws \<and> dr_id r \<in> set (note_dirs (in_id n)))
    \<and> (\<forall>a\<in>set (note_dirs (in_id n)). \<lparr>dr_id = a, dr_ws = ws\<rparr> \<in> set (db_dirs d'))
    \<and> (ws, in_id n) \<notin> note_key ` set (db_notes (without_notes (\<lambda>w j. w = ws \<and> j = in_id n) d))"
proof -
  let ?w = "\<lambda>w j. w = ws \<and> j = in_id n"
  obtain d1 d2 where s: "remove_note_rows ws (in_id n) d = (Inr (), d1)"
      "record_directories ws (containing_dir (in_id n)) d1 = (Inr (), d2)"
      "insert_note_rows lookup_key ws n d2 = (Inr (), d')"
    using assms unfolding sql_then_Inr by (metis old.unit.exhaust)
  note r = remove_note_rows_Inr [OF s(1)]
  have "sql_each (insert_directory ws) (note_dirs (in_id n)) d1 = (Inr (), d2)"
    using s(2) by (cases "containing_dir (in_id n) = []") (simp_all add: record_directories_def note_dirs_def)
  from record_directories_step [OF this] obtain more where
    more: "same_tables (d1\<lparr>db_dirs := db_dirs d1 @ more\<rparr>) d2"
      "\<forall>r\<in>set more. dr_ws r = ws \<and> dr_id r \<in> set (note_dirs (in_id n))"
      "\<forall>a\<in>set (note_dirs (in_id n)). \<lparr>dr_id = a, dr_ws = ws\<rparr> \<in> set (db_dirs d2)"
    by blast
  note i = insert_note_rows_Inr [OF s(3)]
  have "same_tables (without_notes ?w (d\<lparr>db_dirs := db_dirs d @ more\<rparr>)) d2"
    using r more(1) by (simp add: same_tables_def without_notes_def)
  then have "same_tables (with_note lookup_key ws n (without_notes ?w (d\<lparr>db_dirs := db_dirs d @ more\<rparr>))) d'"
    using with_note_same i same_tables_trans by blast
  moreover have "db_dirs d' = db_dirs d2" "db_notes d2 = db_notes (without_notes ?w d)"
    using i r more(1) by (simp_all add: same_tables_def with_note_def without_notes_def)
  ultimately show ?thesis
    using more i by (intro exI [of _ more]) auto
qed

lemma write_rows_cases:
  assumes "write_note_rows_deferring_analyze lookup_key ws n d = (r, d')" and "\<not> db_in_tx d"
  obtains (failed) e where "r = Inl e" "same_tables d d'" "\<not> db_in_tx d'"
  | (written) more where "r = Inr Updated" "\<not> db_in_tx d'"
      "same_tables (with_note lookup_key ws n
         (without_notes (\<lambda>w j. w = ws \<and> j = in_id n) (d\<lparr>db_dirs := db_dirs d @ more\<rparr>))) d'"
      "\<forall>r\<in>set more. dr_ws r = ws \<and> dr_id r \<in> set (note_dirs (in_id n))"
      "\<forall>a\<in>set (note_dirs (in_id n)). \<lparr>dr_id = a, dr_ws = ws\<rparr> \<in> set (db_dirs d')"
      "(ws, in_id n) \<notin> note_key ` set (db_notes (without_notes (\<lambda>w j. w = ws \<and> j = in_id n) d))"
proof -
  let ?body = "sql_then (remove_note_rows ws (in_id n)) (\<lambda>_.
      sql_then (record_directories ws (containing_dir (in_id n))) (\<lambda>_. insert_note_rows lookup_key ws n))"
  obtain r1 d1 where t: "in_transaction ?body d = (r1, d1)" by (cases "in_transaction ?body d")
  have eq: "d' = d1 \<and> r = (case r1 of Inl e \<Rightarrow> Inl e | Inr _ \<Rightarrow> Inr Updated)"
    using assms(1) t by (auto simp: write_note_rows_deferring_analyze_def sql_then_def sql_ret_def split: sum.splits)
  from t assms(2) show ?thesis
  proof (cases rule: in_transaction_cases)
    case (failed e)
    then show ?thesis using eq that(1) by simp
  next
    case (complete x d2)
    then have "?body (d\<lparr>db_in_tx := True\<rparr>) = (Inr (), d2)" by simp
    from write_body_Inr [OF this] obtain more where m:
      "same_tables (with_note lookup_key ws n (without_notes (\<lambda>w j. w = ws \<and> j = in_id n)
         ((d\<lparr>db_in_tx := True\<rparr>)\<lparr>db_dirs := db_dirs (d\<lparr>db_in_tx := True\<rparr>) @ more\<rparr>))) d2"
      "\<forall>r\<in>set more. dr_ws r = ws \<and> dr_id r \<in> set (note_dirs (in_id n))"
      "\<forall>a\<in>set (note_dirs (in_id n)). \<lparr>dr_id = a, dr_ws = ws\<rparr> \<in> set (db_dirs d2)"
      "(ws, in_id n) \<notin> note_key ` set (db_notes (without_notes (\<lambda>w j. w = ws \<and> j = in_id n) (d\<lparr>db_in_tx := True\<rparr>)))"
      by blast
    show ?thesis
    proof (rule that(2))
      show "r = Inr Updated" "\<not> db_in_tx d'" using eq complete by simp_all
      show "same_tables (with_note lookup_key ws n
         (without_notes (\<lambda>w j. w = ws \<and> j = in_id n) (d\<lparr>db_dirs := db_dirs d @ more\<rparr>))) d'"
        using m(1) complete(3) eq
        by (simp add: same_tables_def with_note_def without_notes_def link_targets_def)
      show "\<forall>r\<in>set more. dr_ws r = ws \<and> dr_id r \<in> set (note_dirs (in_id n))" by (rule m(2))
      show "\<forall>a\<in>set (note_dirs (in_id n)). \<lparr>dr_id = a, dr_ws = ws\<rparr> \<in> set (db_dirs d')"
        using m(3) complete(3) eq by (simp add: same_tables_def)
      show "(ws, in_id n) \<notin> note_key ` set (db_notes (without_notes (\<lambda>w j. w = ws \<and> j = in_id n) d))"
        using m(4) by (simp add: without_notes_def)
    qed
  qed
qed

text \<open>C26: Rewriting one note's index rows keeps the index's invariant whatever statement fails. Every full-text
  row stays reachable through the mapping from a \<^verbatim>\<open>notes\<close> row of its own (no deleted note's text is left behind
  in the index), every note keeps its text, and no link row loses its source note. A failed write leaves every
  table as it was.\<close>

theorem write_note_rows_keeps_index:
  assumes "index_ok d" and "\<not> db_in_tx d"
    and "write_note_rows_deferring_analyze lookup_key ws n d = (r, d')"
  shows "index_ok d' \<and> \<not> db_in_tx d' \<and> (\<forall>e. r = Inl e \<longrightarrow> same_tables d d')"
  using assms(3,2)
proof (cases rule: write_rows_cases)
  case (failed e)
  then show ?thesis using assms(1) index_ok_same by simp
next
  case (written more)
  let ?d = "without_notes (\<lambda>w j. w = ws \<and> j = in_id n) (d\<lparr>db_dirs := db_dirs d @ more\<rparr>)"
  have "index_ok (d\<lparr>db_dirs := db_dirs d @ more\<rparr>)" using assms(1) by (simp add: index_ok_def)
  then have "index_ok ?d" by (rule without_notes_ok)
  moreover have "(ws, in_id n) \<notin> note_key ` set (db_notes ?d)"
    using written(6) by (simp add: without_notes_def)
  ultimately have "index_ok (with_note lookup_key ws n ?d)" by (rule with_note_ok)
  then show ?thesis
    using written(1-3) index_ok_same by simp
qed

definition notes_of :: "string \<Rightarrow> db \<Rightarrow> note_row set" where
  "notes_of ws d = {r \<in> set (db_notes d). nr_ws r = ws}"

definition links_of :: "string \<Rightarrow> string \<Rightarrow> db \<Rightarrow> link_row set" where
  "links_of ws i d = {l \<in> set (db_links d). lr_ws l = ws \<and> lr_source l = i}"

text \<open>The full text of a note, found through the mapping.\<close>

definition text_of :: "string \<Rightarrow> string \<Rightarrow> db \<Rightarrow> (string \<times> string) set" where
  "text_of ws i d = {(fr_title f, fr_content f) |f m. f \<in> set (db_fts d) \<and> m \<in> set (db_mapping d)
     \<and> mr_ws m = ws \<and> mr_note m = i \<and> mr_rowid m = fr_rowid f}"

lemma text_of_insert:
  assumes "set (db_fts d') = insert f0 (set (db_fts d))" and "set (db_mapping d') = insert m0 (set (db_mapping d))"
    and "mr_rowid m0 = fr_rowid f0" and "\<forall>m\<in>set (db_mapping d). mr_rowid m \<noteq> fr_rowid f0"
    and "\<forall>f\<in>set (db_fts d). fr_rowid f \<noteq> fr_rowid f0"
    and "\<forall>m\<in>set (db_mapping d). \<not> (mr_ws m = mr_ws m0 \<and> mr_note m = mr_note m0)"
  shows "text_of w i d' =
    (if w = mr_ws m0 \<and> i = mr_note m0 then {(fr_title f0, fr_content f0)} else text_of w i d)"
proof -
  have "text_of w i d' = {(fr_title f, fr_content f) |f m.
      (f = f0 \<and> m = m0 \<or> f \<in> set (db_fts d) \<and> m \<in> set (db_mapping d))
      \<and> mr_ws m = w \<and> mr_note m = i \<and> mr_rowid m = fr_rowid f}"
    unfolding text_of_def assms(1,2) using assms(3-5) by (metis (no_types, lifting) insert_iff)
  then show ?thesis
    unfolding text_of_def using assms(3,6) by auto
qed

lemma text_of_with_note:
  assumes "index_ok d" and "(ws, in_id n) \<notin> note_key ` set (db_notes d)"
  shows "text_of w i (with_note k ws n d) = (if w = ws \<and> i = in_id n then {(in_title n, in_text n)} else text_of w i d)"
proof -
  have fresh: "next_rowid (db_fts d) \<notin> fr_rowid ` set (db_fts d)" by (rule next_rowid_fresh)
  moreover have "mr_rowid ` set (db_mapping d) = fr_rowid ` set (db_fts d)"
      and keys: "mapping_key ` set (db_mapping d) = note_key ` set (db_notes d)"
    using assms(1) by (simp_all add: index_ok_def)
  ultimately have m: "\<forall>m\<in>set (db_mapping d). mr_rowid m \<noteq> next_rowid (db_fts d)"
    by (metis image_eqI)
  have f: "\<forall>f\<in>set (db_fts d). fr_rowid f \<noteq> next_rowid (db_fts d)"
    using fresh by (metis image_eqI)
  have old: "\<forall>m\<in>set (db_mapping d). \<not> (mr_ws m = ws \<and> mr_note m = in_id n)"
    using keys assms(2) by (metis (mono_tags, lifting) image_eqI)
  show ?thesis
    using text_of_insert [of "with_note k ws n d"
        "\<lparr>fr_rowid = next_rowid (db_fts d), fr_title = in_title n, fr_content = in_text n\<rparr>" d
        "\<lparr>mr_ws = ws, mr_note = in_id n, mr_rowid = next_rowid (db_fts d)\<rparr>" w i] m f old
    by (simp add: with_note_def)
qed

lemma text_of_without:
  assumes "index_ok d" and "\<not> which w i"
  shows "text_of w i (without_notes which d) = text_of w i d"
proof -
  have inj: "m = m'" if "m \<in> set (db_mapping d)" "m' \<in> set (db_mapping d)" "mr_rowid m = mr_rowid m'" for m m'
    using assms(1) that by (auto simp: index_ok_def distinct_map inj_on_def)
  then have "\<not> list_ex (\<lambda>m'. which (mr_ws m') (mr_note m') \<and> mr_rowid m' = mr_rowid m) (db_mapping d)"
    if "m \<in> set (db_mapping d)" "mr_ws m = w" "mr_note m = i" for m
    using that assms(2) by (auto simp: list_ex_iff dest: inj)
  then show ?thesis
    using assms(2) unfolding text_of_def without_notes_def by fastforce
qed

lemma text_of_same: "same_tables d d' \<Longrightarrow> text_of w i d' = text_of w i d"
  by (simp add: same_tables_def text_of_def)

text \<open>C19: A successful write of a note's index rows leaves exactly what the note contributes: one \<^verbatim>\<open>notes\<close> row, one
  full-text entry, one link per distinct target (the first wording wins), and a directory row for every
  ancestor of the note. The rows of every other note, in this workspace or another, are the ones they were.\<close>

theorem write_note_rows_exact:
  assumes "index_ok d" and "\<not> db_in_tx d"
    and "write_note_rows_deferring_analyze lookup_key ws n d = (Inr outcome, d')"
  shows "{r \<in> notes_of ws d'. nr_id r = in_id n} = {new_row lookup_key ws n}
    \<and> text_of ws (in_id n) d' = {(in_title n, in_text n)}
    \<and> links_of ws (in_id n) d' = edge_row ws (in_id n) ` set (first_edges (in_links n) {})
    \<and> (\<forall>a\<in>set (note_dirs (in_id n)). \<lparr>dr_id = a, dr_ws = ws\<rparr> \<in> set (db_dirs d'))
    \<and> (\<forall>w i. (w, i) \<noteq> (ws, in_id n) \<longrightarrow>
          {r \<in> notes_of w d'. nr_id r = i} = {r \<in> notes_of w d. nr_id r = i}
          \<and> text_of w i d' = text_of w i d \<and> links_of w i d' = links_of w i d)"
  using assms(3,2)
proof (cases rule: write_rows_cases)
  case (written more)
  let ?w = "\<lambda>w j. w = ws \<and> j = in_id n"
  let ?base = "d\<lparr>db_dirs := db_dirs d @ more\<rparr>"
  let ?d = "without_notes ?w ?base"
  have ok0: "index_ok ?base" using assms(1) by (simp add: index_ok_def)
  have ok: "index_ok ?d" using ok0 by (rule without_notes_ok)
  have new: "(ws, in_id n) \<notin> note_key ` set (db_notes ?d)"
    using written(6) by (simp add: without_notes_def)
  note same = written(3) [unfolded same_tables_def]
  have "link_targets ws (in_id n) ?d = {}" by (auto simp: link_targets_def without_notes_def)
  then have links: "db_links d' = filter (\<lambda>l. \<not> ?w (lr_ws l) (lr_source l)) (db_links d)
      @ map (edge_row ws (in_id n)) (first_edges (in_links n) {})"
    using same by (simp add: with_note_def) (simp add: without_notes_def)
  have rows: "db_notes d' = filter (\<lambda>r. \<not> ?w (nr_ws r) (nr_id r)) (db_notes d) @ [new_row lookup_key ws n]"
    using same by (simp add: with_note_def without_notes_def)
  have full: "text_of w i d' = (if ?w w i then {(in_title n, in_text n)} else text_of w i d)" for w i
  proof -
    have "text_of w i d' = text_of w i (with_note lookup_key ws n ?d)"
      using written(3) by (rule text_of_same)
    also have "\<dots> = (if ?w w i then {(in_title n, in_text n)} else text_of w i ?d)"
      using text_of_with_note [OF ok new] by simp
    also have "\<dots> = (if ?w w i then {(in_title n, in_text n)} else text_of w i ?base)"
      using text_of_without [OF ok0, of ?w w i] by presburger
    finally show ?thesis by (simp add: text_of_def)
  qed
  have "{r \<in> notes_of ws d'. nr_id r = in_id n} = {new_row lookup_key ws n}"
    by (auto simp: notes_of_def rows new_row_def)
  moreover have "links_of ws (in_id n) d' = edge_row ws (in_id n) ` set (first_edges (in_links n) {})"
    by (auto simp: links_of_def links)
  moreover have "{r \<in> notes_of w d'. nr_id r = i} = {r \<in> notes_of w d. nr_id r = i}
      \<and> text_of w i d' = text_of w i d \<and> links_of w i d' = links_of w i d"
    if "(w, i) \<noteq> (ws, in_id n)" for w i
  proof -
    have other: "\<not> ?w w i" using that by simp
    have "text_of w i d' = text_of w i d" using full [of w i] by (simp only: other if_False)
    moreover have "{r \<in> notes_of w d'. nr_id r = i} = {r \<in> notes_of w d. nr_id r = i}"
      using other by (auto simp: notes_of_def rows new_row_def)
    moreover have "links_of w i d' = links_of w i d"
      using other by (auto simp: links_of_def links edge_row_def)
    ultimately show ?thesis by simp
  qed
  ultimately show ?thesis
    using full [of ws "in_id n"] written(5) by simp
qed simp

text \<open>A database with one workspace, two notes linked to each other and a schedule of faults.\<close>

definition small_note :: "string \<Rightarrow> string \<Rightarrow> string \<Rightarrow> indexed_note" where
  "small_note i content target =
     \<lparr>in_id = i, in_path = concept_id_to_path i, in_title = file_stem i, in_modified = 1, in_hash = ''h'',
      in_conformant = True, in_text = content, in_links = [\<lparr>le_target = target, le_title = target\<rparr>]\<rparr>"

definition small_db :: "app_error option list \<Rightarrow> db" where
  "small_db faults = with_note id ''w'' (small_note ''b'' ''two'' ''d/a'') (with_note id ''w'' (small_note ''d/a'' ''one'' ''b'')
     \<lparr>db_workspaces = [''w''], db_notes = [], db_links = [], db_fts = [], db_mapping = [], db_dirs = [], db_faults = faults,
      db_in_tx = False\<rparr>)"

lemma small_db_ok: "index_ok (small_db faults)" "\<not> db_in_tx (small_db faults)"
  unfolding small_db_def
  by (rule with_note_ok, rule with_note_ok)
    (simp_all add: index_ok_def with_note_def small_note_def new_row_def)

theorem write_note_rows_keeps_index_witness:
  "index_ok (snd (write_note_rows_deferring_analyze id ''w'' (small_note ''d/a'' ''new'' ''b'') (small_db [None, None, None, Some constraint_error])))
   \<and> same_tables (small_db [None, None, None, Some constraint_error])
       (snd (write_note_rows_deferring_analyze id ''w'' (small_note ''d/a'' ''new'' ''b'') (small_db [None, None, None, Some constraint_error])))"
proof -
  let ?call = "write_note_rows_deferring_analyze id ''w'' (small_note ''d/a'' ''new'' ''b'')
    (small_db [None, None, None, Some constraint_error])"
  have "?call = (Inl constraint_error, snd ?call)" by code_simp
  from write_note_rows_keeps_index [OF small_db_ok this] show ?thesis by blast
qed

theorem write_note_rows_exact_witness:
  "text_of ''w'' ''d/a'' (snd (write_note_rows_deferring_analyze id ''w'' (small_note ''d/a'' ''new'' ''b'') (small_db []))) = {(''a'', ''new'')}"
proof -
  let ?call = "write_note_rows_deferring_analyze id ''w'' (small_note ''d/a'' ''new'' ''b'') (small_db [])"
  let ?n = "small_note ''d/a'' ''new'' ''b''"
  have "fst ?call = Inr Updated" by code_simp
  then have "?call = (Inr Updated, snd ?call)" by (metis prod.collapse)
  from write_note_rows_exact [OF small_db_ok this]
  have "text_of ''w'' (in_id ?n) (snd ?call) = {(in_title ?n, in_text ?n)}" by (elim conjE)
  moreover have "in_id ?n = ''d/a''" "in_title ?n = ''a''" "in_text ?n = ''new''" by code_simp+
  ultimately show ?thesis by metis
qed

end
