(* ===== verification/Index_Rebuild.thy ===== *)
theory Index_Rebuild
  imports Index_Laws
begin

section \<open>The rebuild and the index's contract\<close>

text \<open>
  What a rebuild leaves in the tables, and the contract the sessions rely on when a written note is
  indexed: \<open>note_index\<close>, whose operations are the lookup of a recorded revision and the write of a note's
  rows. The contract is proved of the model, and indexing a written source rests on its lemmas.
\<close>

subsection \<open>Adding a list of notes\<close>

lemma links_of_with_note:
  assumes "index_ok d" and "(ws, in_id n) \<notin> note_key ` set (db_notes d)"
  shows "links_of w i (with_note k ws n d) =
    (if w = ws \<and> i = in_id n then edge_row ws (in_id n) ` set (first_edges (in_links n) {}) else links_of w i d)"
proof -
  have none: "\<not> (lr_ws l = ws \<and> lr_source l = in_id n)" if "l \<in> set (db_links d)" for l
  proof
    assume "lr_ws l = ws \<and> lr_source l = in_id n"
    moreover have "(lr_ws l, lr_source l) \<in> note_key ` set (db_notes d)"
      using assms(1) that by (simp add: index_ok_def)
    ultimately show False using assms(2) by simp
  qed
  then have "link_targets ws (in_id n) d = {}" by (auto simp: link_targets_def)
  then show ?thesis
    using none by (auto simp: links_of_def with_note_def)
qed

lemma notes_of_with_note:
  "notes_of w (with_note k ws n d) = notes_of w d \<union> (if w = ws then {new_row k ws n} else {})"
  by (auto simp: notes_of_def with_note_def new_row_def)

lemma links_of_same: "same_tables d d' \<Longrightarrow> links_of w i d' = links_of w i d"
  by (simp add: same_tables_def links_of_def)

lemma notes_of_same: "same_tables d d' \<Longrightarrow> notes_of w d' = notes_of w d"
  by (simp add: same_tables_def notes_of_def)

lemmas observed_same = text_of_same links_of_same notes_of_same

text \<open>What the index says of one note.\<close>

definition indexed_as :: "(string \<Rightarrow> string) \<Rightarrow> string \<Rightarrow> indexed_note \<Rightarrow> db \<Rightarrow> bool" where
  "indexed_as k ws n d \<longleftrightarrow> new_row k ws n \<in> notes_of ws d \<and> text_of ws (in_id n) d = {(in_title n, in_text n)}
     \<and> links_of ws (in_id n) d = edge_row ws (in_id n) ` set (first_edges (in_links n) {})"

lemma insert_notes_Inr:
  assumes "sql_each (insert_note_rows k ws) ns d = (Inr (), d')" and "index_ok d"
  shows "index_ok d' \<and> db_dirs d' = db_dirs d
    \<and> (\<forall>w. notes_of w d' = notes_of w d \<union> (if w = ws then new_row k ws ` set ns else {}))
    \<and> (\<forall>n\<in>set ns. indexed_as k ws n d')
    \<and> (\<forall>w i. w \<noteq> ws \<or> i \<notin> in_id ` set ns \<longrightarrow> text_of w i d' = text_of w i d \<and> links_of w i d' = links_of w i d)
    \<and> distinct (map in_id ns) \<and> (\<forall>n\<in>set ns. (ws, in_id n) \<notin> note_key ` set (db_notes d))"
  using assms
proof (induction ns arbitrary: d)
  case Nil
  then show ?case by simp
next
  case (Cons n ns)
  then obtain d1 where d1: "insert_note_rows k ws n d = (Inr (), d1)" "sql_each (insert_note_rows k ws) ns d1 = (Inr (), d')"
    by (auto simp: sql_then_Inr)
  from insert_note_rows_Inr [OF d1(1)] have same: "same_tables (with_note k ws n d) d1"
    and new: "(ws, in_id n) \<notin> note_key ` set (db_notes d)" by auto
  have "index_ok d1" using with_note_ok [OF Cons.prems(2) new] index_ok_same [OF same] by simp
  note rest = Cons.IH [OF d1(2) this]
  have notes1: "db_notes d1 = db_notes d @ [new_row k ws n]" and dirs1: "db_dirs d1 = db_dirs d"
    using same by (simp_all add: same_tables_def with_note_def)
  have obs: "notes_of w d1 = notes_of w d \<union> (if w = ws then {new_row k ws n} else {})"
      "text_of w i d1 = (if w = ws \<and> i = in_id n then {(in_title n, in_text n)} else text_of w i d)"
      "links_of w i d1 =
        (if w = ws \<and> i = in_id n then edge_row ws (in_id n) ` set (first_edges (in_links n) {}) else links_of w i d)" for w i
    using observed_same [OF same] notes_of_with_note text_of_with_note [OF Cons.prems(2) new]
      links_of_with_note [OF Cons.prems(2) new] by simp_all
  have later: "(ws, in_id m) \<notin> note_key ` set (db_notes d)" "in_id m \<noteq> in_id n" if "m \<in> set ns" for m
    using rest that notes1 by (auto simp: new_row_def)
  have apart: "in_id n \<notin> in_id ` set ns" by (metis imageE later(2))
  have "indexed_as k ws n d'"
  proof -
    have "text_of ws (in_id n) d' = text_of ws (in_id n) d1" "links_of ws (in_id n) d' = links_of ws (in_id n) d1"
      using rest apart by blast+
    moreover have "new_row k ws n \<in> notes_of ws d'" using rest obs(1) [of ws] by simp
    ultimately show ?thesis unfolding indexed_as_def using obs(2,3) by simp
  qed
  moreover have "text_of w i d' = text_of w i d \<and> links_of w i d' = links_of w i d"
    if "w \<noteq> ws \<or> i \<notin> in_id ` set (n # ns)" for w i
    using rest that obs by auto
  ultimately show ?case
    using rest obs(1) later(1) apart new dirs1 by auto
qed

lemma insert_directories_Inr:
  assumes "sql_each (insert_directory ws) as d = (Inr (), d')"
  shows "index_ok d' = index_ok d" "notes_of w d' = notes_of w d" "text_of w i d' = text_of w i d"
    "links_of w i d' = links_of w i d" "db_notes d' = db_notes d"
    "{r \<in> set (db_dirs d'). dr_ws r = w} =
       {r \<in> set (db_dirs d). dr_ws r = w} \<union> (if w = ws then (\<lambda>a. \<lparr>dr_id = a, dr_ws = ws\<rparr>) ` set as else {})"
proof -
  obtain more where m: "same_tables (d\<lparr>db_dirs := db_dirs d @ more\<rparr>) d'"
      "\<forall>r\<in>set more. dr_ws r = ws \<and> dr_id r \<in> set as"
      "\<forall>a\<in>set as. \<lparr>dr_id = a, dr_ws = ws\<rparr> \<in> set (db_dirs d')"
    using record_directories_step [OF assms] by blast
  have dirs: "db_dirs d' = db_dirs d @ more" using m(1) by (simp add: same_tables_def)
  show "index_ok d' = index_ok d" "notes_of w d' = notes_of w d" "text_of w i d' = text_of w i d"
      "links_of w i d' = links_of w i d" "db_notes d' = db_notes d"
    using m(1) by (simp_all add: same_tables_def index_ok_def notes_of_def text_of_def links_of_def)
  have "{r \<in> set more. dr_ws r = w} = (if w = ws then set more else {})" using m(2) by auto
  moreover have "set more \<subseteq> (\<lambda>a. \<lparr>dr_id = a, dr_ws = ws\<rparr>) ` set as"
  proof
    fix r assume "r \<in> set more"
    then have "dr_ws r = ws" "dr_id r \<in> set as" using m(2) by auto
    then show "r \<in> (\<lambda>a. \<lparr>dr_id = a, dr_ws = ws\<rparr>) ` set as" by (cases r) auto
  qed
  moreover have "(\<lambda>a. \<lparr>dr_id = a, dr_ws = ws\<rparr>) ` set as \<subseteq> {r \<in> set (db_dirs d'). dr_ws r = ws}" using m(3) by auto
  ultimately show "{r \<in> set (db_dirs d'). dr_ws r = w} =
       {r \<in> set (db_dirs d). dr_ws r = w} \<union> (if w = ws then (\<lambda>a. \<lparr>dr_id = a, dr_ws = ws\<rparr>) ` set as else {})"
    unfolding dirs by auto
qed


subsection \<open>The rebuild\<close>

definition rebuilt :: "(string \<Rightarrow> string) \<Rightarrow> string \<Rightarrow> scanned_bundle \<Rightarrow> db \<Rightarrow> db \<Rightarrow> bool" where
  "rebuilt k ws scanned d d' \<longleftrightarrow> index_ok d'
     \<and> notes_of ws d' = new_row k ws ` set (sc_notes scanned) \<and> distinct (map in_id (sc_notes scanned))
     \<and> (\<forall>n\<in>set (sc_notes scanned). indexed_as k ws n d')
     \<and> {r \<in> set (db_dirs d'). dr_ws r = ws} = (\<lambda>a. \<lparr>dr_id = a, dr_ws = ws\<rparr>) ` set (sc_directories scanned)
     \<and> (\<forall>w. w \<noteq> ws \<longrightarrow> notes_of w d' = notes_of w d \<and> (\<forall>i. text_of w i d' = text_of w i d \<and> links_of w i d' = links_of w i d)
          \<and> {r \<in> set (db_dirs d'). dr_ws r = w} = {r \<in> set (db_dirs d). dr_ws r = w})"

lemma rebuilt_same:
  assumes "same_tables d0 d" and "same_tables d1 d'" and "rebuilt k ws scanned d0 d1"
  shows "rebuilt k ws scanned d d'"
proof -
  have "indexed_as k ws n d' = indexed_as k ws n d1" for n
    using observed_same [OF assms(2)] by (simp add: indexed_as_def)
  then show ?thesis
    using assms(3) observed_same [OF assms(1)] observed_same [OF assms(2)] index_ok_same [OF assms(2)]
      assms(1,2) [unfolded same_tables_def]
    unfolding rebuilt_def by simp
qed

lemma rebuild_body:
  assumes "index_ok d"
    and "sql_then (purge_workspace_text ws) (\<lambda>_.
          sql_then (delete_notes (\<lambda>w i. w = ws)) (\<lambda>_.
          sql_then (delete_directories ws) (\<lambda>_.
          sql_then (sql_each (insert_directory ws) (sc_directories scanned)) (\<lambda>_.
          sql_then (sql_each (insert_note_rows lookup_key ws) (sc_notes scanned)) (\<lambda>_.
            sql_ret (length (sc_notes scanned))))))) d = (Inr count, d')"
  shows "count = length (sc_notes scanned) \<and> rebuilt lookup_key ws scanned d d'"
proof -
  obtain d1 d2 d3 d4 where s: "purge_workspace_text ws d = (Inr (), d1)" "delete_notes (\<lambda>w i. w = ws) d1 = (Inr (), d2)"
      "delete_directories ws d2 = (Inr (), d3)"
      "sql_each (insert_directory ws) (sc_directories scanned) d3 = (Inr (), d4)"
      "sql_each (insert_note_rows lookup_key ws) (sc_notes scanned) d4 = (Inr (), d')"
      "count = length (sc_notes scanned)"
    using assms(2) unfolding sql_then_Inr sql_ret_Inr by (elim exE conjE) simp
  let ?clean = "(without_notes (\<lambda>w i. w = ws) d)\<lparr>db_dirs := filter (\<lambda>r. dr_ws r \<noteq> ws) (db_dirs d)\<rparr>"
  have clean: "same_tables ?clean d3"
  proof -
    have "d1 = d\<lparr>db_faults := tl (db_faults d), db_fts := db_fts ?clean\<rparr>"
      using s(1) by (auto simp: purge_workspace_text_def statement_Inr without_notes_def)
    moreover have "d2 = d1\<lparr>db_faults := tl (db_faults d1), db_notes := filter (\<lambda>r. nr_ws r \<noteq> ws) (db_notes d1),
        db_mapping := filter (\<lambda>m. mr_ws m \<noteq> ws) (db_mapping d1), db_links := filter (\<lambda>l. lr_ws l \<noteq> ws) (db_links d1)\<rparr>"
      using s(2) by (simp add: delete_notes_def statement_Inr)
    moreover have "d3 = d2\<lparr>db_faults := tl (db_faults d2), db_dirs := filter (\<lambda>r. dr_ws r \<noteq> ws) (db_dirs d2)\<rparr>"
      using s(3) by (simp add: delete_directories_def statement_Inr)
    ultimately show ?thesis by (simp add: same_tables_def without_notes_def)
  qed
  have "index_ok ?clean" using without_notes_ok [OF assms(1)] by (simp add: index_ok_def)
  then have ok3: "index_ok d3" using index_ok_same [OF clean] by simp
  have gone: "notes_of ws ?clean = {}" by (auto simp: notes_of_def without_notes_def)
  have kept: "notes_of w ?clean = notes_of w d" "text_of w i ?clean = text_of w i d" "links_of w i ?clean = links_of w i d"
      "{r \<in> set (db_dirs ?clean). dr_ws r = w} = {r \<in> set (db_dirs d). dr_ws r = w}" if "w \<noteq> ws" for w i
    using that text_of_without [OF assms(1), of "\<lambda>w i. w = ws" w i]
    by (auto simp: notes_of_def without_notes_def links_of_def text_of_def)
  have none: "{r \<in> set (db_dirs ?clean). dr_ws r = ws} = {}" by auto
  note dirs = insert_directories_Inr [OF s(4)]
  note ins = insert_notes_Inr [OF s(5) dirs(1) [THEN iffD2, OF ok3]]
  note obs3 = observed_same [OF clean]
  have dirs3: "db_dirs d3 = db_dirs ?clean" using clean by (simp add: same_tables_def)
  have here: "notes_of ws d' = new_row lookup_key ws ` set (sc_notes scanned)"
    using ins dirs(2) [of ws] obs3(3) [of ws] gone by simp
  have other: "notes_of w d' = notes_of w d" "text_of w i d' = text_of w i d" "links_of w i d' = links_of w i d"
    if "w \<noteq> ws" for w i
    using that ins dirs(2-4) [of w] obs3 [of w] kept [of w] by simp_all
  show ?thesis
    using s(6) ins here other dirs(6) dirs3 none kept(4) unfolding rebuilt_def by simp
qed

text \<open>C25: A rebuild replaces exactly one workspace. When it reports success, the workspace's notes are the scanned ones,
  each with its own text and links, its directories are the scanned ones, and the index is consistent; no other
  workspace changes. When it fails, either nothing changed or the whole rebuild is in place (only the planner
  statistics that follow the commit failed), never part of one.\<close>

theorem rebuild_all_or_nothing:
  assumes "index_ok d" and "\<not> db_in_tx d" and "write_scanned_bundle lookup_key ws scanned d = (r, d')"
  shows "(case r of Inr count \<Rightarrow> count = length (sc_notes scanned) \<and> rebuilt lookup_key ws scanned d d'
          | Inl e \<Rightarrow> same_tables d d' \<or> rebuilt lookup_key ws scanned d d') \<and> \<not> db_in_tx d'"
proof -
  let ?body = "sql_then (purge_workspace_text ws) (\<lambda>_.
          sql_then (delete_notes (\<lambda>w i. w = ws)) (\<lambda>_.
          sql_then (delete_directories ws) (\<lambda>_.
          sql_then (sql_each (insert_directory ws) (sc_directories scanned)) (\<lambda>_.
          sql_then (sql_each (insert_note_rows lookup_key ws) (sc_notes scanned)) (\<lambda>_.
            sql_ret (length (sc_notes scanned)))))))"
  obtain r1 d1 where t: "in_transaction ?body d = (r1, d1)" by (cases "in_transaction ?body d")
  have last: "same_tables d1 d' \<and> db_in_tx d' = db_in_tx d1
      \<and> (case r1 of Inl e \<Rightarrow> r = Inl e | Inr c \<Rightarrow> r = Inr c \<or> (\<exists>e. r = Inl e))"
    using assms(3) t unfolding write_scanned_bundle_def sql_then_def
    by (auto simp: sql_ret_def analyze_def statement_def Let_def same_tables_def split: sum.splits prod.splits list.splits option.splits)
  from t assms(2) show ?thesis
  proof (cases rule: in_transaction_cases)
    case (failed e)
    then show ?thesis using last by (auto simp: same_tables_def)
  next
    case (complete c d2)
    have "index_ok (d\<lparr>db_in_tx := True\<rparr>)" using assms(1) by (simp add: index_ok_def)
    from rebuild_body [OF this complete(2)]
    have c: "c = length (sc_notes scanned)" "rebuilt lookup_key ws scanned (d\<lparr>db_in_tx := True\<rparr>) d2" by auto
    have "same_tables d2 d'" using complete(3) last same_tables_trans by blast
    moreover have "same_tables (d\<lparr>db_in_tx := True\<rparr>) d" by (simp add: same_tables_def)
    ultimately have "rebuilt lookup_key ws scanned d d'" using rebuilt_same c(2) by blast
    then show ?thesis using c(1) complete(1,4) last by (auto split: sum.splits)
  qed
qed

text \<open>A second scan of the workspace: one of its notes is gone, one is new; another workspace has a note too.\<close>

definition two_workspaces :: "app_error option list \<Rightarrow> db" where
  "two_workspaces faults = with_note id ''v'' (small_note ''b'' ''other'' ''a'') ((small_db faults)\<lparr>db_workspaces := [''v'', ''w'']\<rparr>)"

lemma two_workspaces_ok: "index_ok (two_workspaces faults)" "\<not> db_in_tx (two_workspaces faults)"
proof -
  have "index_ok ((small_db faults)\<lparr>db_workspaces := [''v'', ''w'']\<rparr>)"
    using small_db_ok(1) [of faults] by (simp add: index_ok_def)
  then show "index_ok (two_workspaces faults)"
    unfolding two_workspaces_def by (rule with_note_ok) (simp add: small_db_def with_note_def small_note_def new_row_def)
  show "\<not> db_in_tx (two_workspaces faults)"
    by (simp add: two_workspaces_def small_db_def with_note_def)
qed

theorem rebuild_all_or_nothing_witness:
  "rebuilt id ''w'' \<lparr>sc_directories = [''e''], sc_notes = [small_note ''e/c'' ''three'' ''b'', small_note ''b'' ''two'' ''e/c'']\<rparr>
     (two_workspaces [])
     (snd (write_scanned_bundle id ''w''
       \<lparr>sc_directories = [''e''], sc_notes = [small_note ''e/c'' ''three'' ''b'', small_note ''b'' ''two'' ''e/c'']\<rparr>
       (two_workspaces [])))"
proof -
  let ?call = "write_scanned_bundle id ''w''
    \<lparr>sc_directories = [''e''], sc_notes = [small_note ''e/c'' ''three'' ''b'', small_note ''b'' ''two'' ''e/c'']\<rparr>
    (two_workspaces [])"
  have "fst ?call = Inr 2" by code_simp
  then have "?call = (Inr 2, snd ?call)" by (metis prod.collapse)
  from rebuild_all_or_nothing [OF two_workspaces_ok this]
  show ?thesis unfolding sum.case by (elim conjE)
qed

subsection \<open>Indexing a written note\<close>

text \<open>
  What a session relies on when it indexes a note it has just written: the recorded revision can be read, and
  writing a note's rows records its revision and no other note's.
\<close>

locale note_index =
  fixes lookup :: "string \<Rightarrow> string option sql"
    and store :: "indexed_note \<Rightarrow> index_outcome sql"
    and recorded :: "string \<Rightarrow> db \<Rightarrow> string option"
    and ok :: "db \<Rightarrow> bool"
  assumes lookup_reads: "lookup i d = (r, d') \<Longrightarrow> same_tables d d' \<and> (\<forall>h. r = Inr h \<longrightarrow> h = recorded i d)"
    and ok_lookup: "ok d \<Longrightarrow> lookup i d = (r, d') \<Longrightarrow> ok d'"
    and ok_store: "ok d \<Longrightarrow> store n d = (out, d') \<Longrightarrow> ok d'"
    and store_records: "ok d \<Longrightarrow> store n d = (Inr done_as, d') \<Longrightarrow> recorded (in_id n) d' = Some (in_hash n)"
    and store_others: "ok d \<Longrightarrow> store n d = (out, d') \<Longrightarrow> j \<noteq> in_id n \<Longrightarrow> recorded j d' = recorded j d"
    and recorded_same: "same_tables d d' \<Longrightarrow> recorded j d' = recorded j d"

text \<open>The client: compare the recorded revision, write only when it differs.\<close>

definition index_if_changed ::
    "(string \<Rightarrow> string option sql) \<Rightarrow> (indexed_note \<Rightarrow> index_outcome sql) \<Rightarrow> indexed_note \<Rightarrow> unit sql" where
  "index_if_changed lookup store n =
     sql_then (lookup (in_id n)) (\<lambda>stored.
       if stored = Some (in_hash n) then sql_ret () else sql_then (store n) (\<lambda>_. sql_ret ()))"

context note_index begin

lemma index_if_changed_cases:
  assumes "index_if_changed lookup store n d = (r, d')"
  obtains (refused) e where "r = Inl e" "same_tables d d'" "ok d \<longrightarrow> ok d'"
  | (current) "r = Inr ()" "recorded (in_id n) d = Some (in_hash n)" "same_tables d d'" "ok d \<longrightarrow> ok d'"
  | (stored) d1 r1 where "recorded (in_id n) d \<noteq> Some (in_hash n)" "same_tables d d1" "ok d \<longrightarrow> ok d1"
      "store n d1 = (r1, d')" "r = map_sum id (\<lambda>_. ()) r1"
proof -
  obtain r0 d0 where l: "lookup (in_id n) d = (r0, d0)" by (cases "lookup (in_id n) d")
  note read = lookup_reads [OF l] and keep = ok_lookup [OF _ l]
  show ?thesis
  proof (cases r0)
    case (Inl e)
    then show ?thesis using assms l read keep refused by (auto simp: index_if_changed_def sql_then_def)
  next
    case (Inr h)
    then have h: "h = recorded (in_id n) d" using read by simp
    show ?thesis
    proof (cases "h = Some (in_hash n)")
      case True
      have rec: "recorded (in_id n) d = Some (in_hash n)" using True h by metis
      have eq: "r = Inr ()" "d' = d0"
        using assms l Inr True by (auto simp: index_if_changed_def sql_then_def sql_ret_def)
      show ?thesis
        by (rule current) (use eq rec read keep in simp_all)
    next
      case False
      obtain r1 d1 where s: "store n d0 = (r1, d1)" by (cases "store n d0")
      then have eq: "d' = d1" "r = map_sum id (\<lambda>_. ()) r1"
        using assms l Inr False by (auto simp: index_if_changed_def sql_then_def sql_ret_def split: sum.splits)
      show ?thesis
        by (rule stored [of d0 r1]) (use eq s False h read keep in simp_all)
    qed
  qed
qed

lemma index_if_changed_records:
  assumes "ok d" and "index_if_changed lookup store n d = (r, d')"
  shows "ok d' \<and> (r = Inr () \<longrightarrow> recorded (in_id n) d' = Some (in_hash n))
    \<and> (\<forall>j. j \<noteq> in_id n \<longrightarrow> recorded j d' = recorded j d)
    \<and> (recorded (in_id n) d = Some (in_hash n) \<longrightarrow> same_tables d d')"
  using assms(2)
proof (cases rule: index_if_changed_cases)
  case (refused e)
  then show ?thesis using assms(1) recorded_same by simp
next
  case current
  then show ?thesis using assms(1) recorded_same by simp
next
  case (stored d1 r1)
  have "ok d1" using stored(3) assms(1) by simp
  moreover have "recorded j d1 = recorded j d" for j using stored(2) by (rule recorded_same)
  ultimately show ?thesis
    using stored(1,5) ok_store [OF _ stored(4)] store_others [OF _ stored(4)]
      store_records [of d1 n _ d'] stored(4) by (cases r1) auto
qed

end

definition recorded_hash :: "string \<Rightarrow> string \<Rightarrow> db \<Rightarrow> string option" where
  "recorded_hash ws i d = map_option nr_hash (List.find (\<lambda>r. nr_ws r = ws \<and> nr_id r = i) (db_notes d))"

lemma find_key:
  assumes "index_ok d" and "row \<in> notes_of ws d"
  shows "recorded_hash ws (nr_id row) d = Some (nr_hash row)"
proof -
  obtain r where r: "List.find (\<lambda>r. nr_ws r = ws \<and> nr_id r = nr_id row) (db_notes d) = Some r"
    using assms(2) by (metis (mono_tags, lifting) find_None_iff mem_Collect_eq not_Some_eq notes_of_def)
  then have "r \<in> set (db_notes d)" "nr_ws r = ws" "nr_id r = nr_id row"
    by (auto simp: find_Some_iff)
  then have "r = row"
    using assms by (auto simp: index_ok_def notes_of_def distinct_map inj_on_def)
  then show ?thesis using r by (simp add: recorded_hash_def)
qed

lemma recorded_hash_alt: 
  assumes "{r \<in> notes_of ws d'. nr_id r = i} = {r \<in> notes_of ws d. nr_id r = i}" and "index_ok d" and "index_ok d'"
  shows "recorded_hash ws i d' = recorded_hash ws i d"
proof (cases "\<exists>r. r \<in> notes_of ws d \<and> nr_id r = i")
  case True
  then obtain r where r: "r \<in> notes_of ws d" "nr_id r = i" by blast
  then have "r \<in> notes_of ws d'" using assms(1) by blast
  then show ?thesis using find_key [OF assms(2) r(1)] find_key [OF assms(3)] r(2) by metis
next
  case False
  then have "\<not> (\<exists>r. r \<in> notes_of ws d' \<and> nr_id r = i)" using assms(1) by blast
  with False have "List.find (\<lambda>r. nr_ws r = ws \<and> nr_id r = i) (db_notes d') = None"
    "List.find (\<lambda>r. nr_ws r = ws \<and> nr_id r = i) (db_notes d) = None"
    by (auto simp: find_None_iff notes_of_def)
  then show ?thesis by (simp add: recorded_hash_def)
qed

lemma write_rows_kept:
  assumes "index_ok d" and "\<not> db_in_tx d" and "write_note_rows_deferring_analyze k ws n d = (r, d')"
  shows "index_ok d'" "\<not> db_in_tx d'"
    "j \<noteq> in_id n \<Longrightarrow> {row \<in> notes_of ws d'. nr_id row = j} = {row \<in> notes_of ws d. nr_id row = j}"
    "r = Inr out \<Longrightarrow> new_row k ws n \<in> notes_of ws d'"
proof -
  have "index_ok d' \<and> \<not> db_in_tx d'
    \<and> (j \<noteq> in_id n \<longrightarrow> {row \<in> notes_of ws d'. nr_id row = j} = {row \<in> notes_of ws d. nr_id row = j})
    \<and> (r = Inr out \<longrightarrow> new_row k ws n \<in> notes_of ws d')"
    using assms(3,2)
  proof (cases rule: write_rows_cases)
    case (failed e)
    then show ?thesis using assms(1) index_ok_same by (simp add: notes_of_same)
  next
    case (written more)
    let ?d = "without_notes (\<lambda>w j. w = ws \<and> j = in_id n) (d\<lparr>db_dirs := db_dirs d @ more\<rparr>)"
    have "index_ok (d\<lparr>db_dirs := db_dirs d @ more\<rparr>)" using assms(1) by (simp add: index_ok_def)
    then have "index_ok ?d" by (rule without_notes_ok)
    moreover have "(ws, in_id n) \<notin> note_key ` set (db_notes ?d)"
      using written(6) by (simp add: without_notes_def)
    ultimately have "index_ok (with_note k ws n ?d)" by (rule with_note_ok)
    moreover have "notes_of ws d' = notes_of ws ?d \<union> {new_row k ws n}"
      using notes_of_same [OF written(3)] by (simp add: notes_of_with_note)
    moreover have "notes_of ws ?d = {row \<in> notes_of ws d. nr_id row \<noteq> in_id n}"
      by (auto simp: notes_of_def without_notes_def)
    moreover have "nr_id (new_row k ws n) = in_id n" by (simp add: new_row_def)
    ultimately show ?thesis using written(2) index_ok_same [OF written(3)] by auto
  qed
  then show "index_ok d'" "\<not> db_in_tx d'"
    "j \<noteq> in_id n \<Longrightarrow> {row \<in> notes_of ws d'. nr_id row = j} = {row \<in> notes_of ws d. nr_id row = j}"
    "r = Inr out \<Longrightarrow> new_row k ws n \<in> notes_of ws d'" by blast+
qed

lemma write_note_rows_split:
  assumes "write_note_rows lookup_key ws n d = (r, d')"
  obtains r1 d1 where "write_note_rows_deferring_analyze lookup_key ws n d = (r1, d1)" "same_tables d1 d'"
    "db_in_tx d' = db_in_tx d1" "\<forall>out. r = Inr out \<longrightarrow> r1 = Inr out"
proof -
  obtain r1 d1 where w: "write_note_rows_deferring_analyze lookup_key ws n d = (r1, d1)"
    by (cases "write_note_rows_deferring_analyze lookup_key ws n d")
  have "same_tables d1 d' \<and> db_in_tx d' = db_in_tx d1 \<and> (\<forall>out. r = Inr out \<longrightarrow> r1 = Inr out)"
    using assms w unfolding write_note_rows_def sql_then_def
    by (auto simp: sql_ret_def analyze_def statement_def Let_def same_tables_def split: sum.splits prod.splits list.splits option.splits)
  then show ?thesis using that w by blast
qed

interpretation stored_index: note_index "stored_content_hash ws" "write_note_rows lookup_key ws" "recorded_hash ws"
    "\<lambda>d. index_ok d \<and> \<not> db_in_tx d"
  for ws lookup_key
proof unfold_locales
  fix i d r d' assume l: "stored_content_hash ws i d = (r, d')"
  have same: "same_tables d d' \<and> db_in_tx d' = db_in_tx d \<and> (\<forall>h. r = Inr h \<longrightarrow> h = recorded_hash ws i d)"
    using l by (auto simp: stored_content_hash_def statement_def Let_def same_tables_def recorded_hash_def
        split: list.splits option.splits)
  show "same_tables d d' \<and> (\<forall>h. r = Inr h \<longrightarrow> h = recorded_hash ws i d)" using same by simp
  show "index_ok d' \<and> \<not> db_in_tx d'" if "index_ok d \<and> \<not> db_in_tx d"
    using same that index_ok_same [of d d'] by simp
next
  fix d n r d' assume ok: "index_ok d \<and> \<not> db_in_tx d" and w: "write_note_rows lookup_key ws n d = (r, d')"
  from w obtain r1 d1 where w1: "write_note_rows_deferring_analyze lookup_key ws n d = (r1, d1)" "same_tables d1 d'"
      "db_in_tx d' = db_in_tx d1" "\<forall>out. r = Inr out \<longrightarrow> r1 = Inr out" by (rule write_note_rows_split)
  note kept = write_rows_kept [OF ok [THEN conjunct1] ok [THEN conjunct2] w1(1)]
  have "index_ok d'" using kept(1) index_ok_same [OF w1(2)] by simp
  then show "index_ok d' \<and> \<not> db_in_tx d'" using kept(2) w1(3) by simp
  show "recorded_hash ws j d' = recorded_hash ws j d" if "j \<noteq> in_id n" for j
    using recorded_hash_alt [of ws d1 j d] kept that ok notes_of_same [OF w1(2)] w1(2)
    by (simp add: recorded_hash_def same_tables_def)
next
  fix d n out d' assume ok: "index_ok d \<and> \<not> db_in_tx d" and w: "write_note_rows lookup_key ws n d = (Inr out, d')"
  from w obtain r1 d1 where w1: "write_note_rows_deferring_analyze lookup_key ws n d = (r1, d1)" "same_tables d1 d'"
      "db_in_tx d' = db_in_tx d1" "\<forall>out'. Inr out = Inr out' \<longrightarrow> r1 = Inr out'" by (rule write_note_rows_split) simp
  note kept = write_rows_kept [OF ok [THEN conjunct1] ok [THEN conjunct2] w1(1)]
  have "new_row lookup_key ws n \<in> notes_of ws d1" using kept(4) w1(4) by simp
  from find_key [OF kept(1) this] show "recorded_hash ws (in_id n) d' = Some (in_hash n)"
    using w1(2) by (simp add: recorded_hash_def same_tables_def new_row_def)
next
  show "\<And>d d' j. same_tables d d' \<Longrightarrow> recorded_hash ws j d' = recorded_hash ws j d"
    by (simp add: recorded_hash_def same_tables_def)
qed

lemma index_written_source_client:
  "index_written_source pulldown reader lookup_key ws i src revision mtime =
     index_if_changed (stored_content_hash ws) (write_note_rows lookup_key ws) (derive_note pulldown reader i src revision mtime)"
proof -
  have "in_id (derive_note pulldown reader i src revision mtime) = i"
    "in_hash (derive_note pulldown reader i src revision mtime) = revision"
    by (simp_all add: derive_note_def Let_def)
  then show ?thesis by (simp add: index_written_source_def index_if_changed_def)
qed

text \<open>Indexing a written note leaves the index consistent, whatever statement fails; when it reports success the
  recorded revision is the one written, the recorded revision of no other note changes, and indexing a revision that
  is already recorded changes no table (so a repeated flush is free).\<close>

theorem index_written_source_records:
  assumes "index_ok d" and "\<not> db_in_tx d"
    and "index_written_source pulldown reader lookup_key ws i src revision mtime d = (r, d')"
  shows "index_ok d' \<and> \<not> db_in_tx d' \<and> (r = Inr () \<longrightarrow> recorded_hash ws i d' = Some revision)
    \<and> (\<forall>j. j \<noteq> i \<longrightarrow> recorded_hash ws j d' = recorded_hash ws j d)
    \<and> (recorded_hash ws i d = Some revision \<longrightarrow> same_tables d d')"
proof -
  have "in_id (derive_note pulldown reader i src revision mtime) = i"
    "in_hash (derive_note pulldown reader i src revision mtime) = revision"
    by (simp_all add: derive_note_def Let_def)
  then show ?thesis
    using stored_index.index_if_changed_records [OF _ assms(3) [unfolded index_written_source_client]] assms(1,2) by simp
qed

theorem index_written_source_records_witness:
  "recorded_hash ''w'' ''b''
     (snd (index_written_source demo_pulldown (\<lambda>_. frontmatter_default) id ''w'' ''b'' demo_note ''h2'' 7 (small_db []))) = Some ''h2''"
proof -
  let ?call = "index_written_source demo_pulldown (\<lambda>_. frontmatter_default) id ''w'' ''b'' demo_note ''h2'' 7 (small_db [])"
  have "fst ?call = Inr ()" by code_simp
  then have "?call = (Inr (), snd ?call)" by (metis prod.collapse)
  from index_written_source_records [OF small_db_ok this] show ?thesis by simp
qed

end
