(* ===== verification/Conflict.thy ===== *)
theory Conflict
  imports Md_Tree
begin

section \<open>Conflicted notes\<close>

text \<open>
  \<^verbatim>\<open>conflict_suggestions\<close> of \<^verbatim>\<open>workspace/persist.rs\<close>: the line scan that turns the conflict regions of a merged
  file into suggestions, and the segments it parses. A reload shows the result instead of the parse of the file.
\<close>

definition open_mark :: string where "open_mark = ''<<<<<<<''"
definition base_mark :: string where "base_mark = ''|||||||''"
definition sep_mark :: string where "sep_mark = ''=======''"
definition close_mark :: string where "close_mark = ''>>>>>>>''"

datatype scan_section = InPlain | InLocal | InBase | InIncoming

datatype segment = Head | Interior

definition parse_markdown_segment :: "pulldown \<Rightarrow> string \<Rightarrow> string \<Rightarrow> segment \<Rightarrow> ast_node list" where
  "parse_markdown_segment pulldown src dir segment =
     (if str_trim src = [] then []
      else (case segment of
              Head \<Rightarrow> pn_ast (parse_note pulldown src dir)
            | Interior \<Rightarrow> parse_markdown_fragment pulldown src dir))"

record conflict_scan =
  cs_nodes :: "ast_node list"
  cs_plain :: string
  cs_local :: string
  cs_base :: "string option"
  cs_incoming :: string
  cs_section :: scan_section
  cs_saw :: bool

definition conflict_start :: conflict_scan where
  "conflict_start = \<lparr>cs_nodes = [], cs_plain = [], cs_local = [], cs_base = None, cs_incoming = [],
     cs_section = InPlain, cs_saw = False\<rparr>"

definition conflict_line :: "pulldown \<Rightarrow> string \<Rightarrow> string \<Rightarrow> conflict_scan \<Rightarrow> conflict_scan" where
  "conflict_line pulldown dir line st =
     (let interior = (\<lambda>t. parse_markdown_segment pulldown t dir Interior);
          trimmed = trim_end_matches [LF, CR] line
      in case cs_section st of
           InPlain \<Rightarrow>
             if prefix open_mark trimmed
             then st\<lparr>cs_nodes := cs_nodes st
                       @ parse_markdown_segment pulldown (cs_plain st) dir (if cs_saw st then Interior else Head),
                     cs_plain := [], cs_local := [], cs_base := None, cs_incoming := [],
                     cs_section := InLocal, cs_saw := True\<rparr>
             else st\<lparr>cs_plain := cs_plain st @ line\<rparr>
         | InLocal \<Rightarrow>
             if prefix base_mark trimmed then st\<lparr>cs_base := Some [], cs_section := InBase\<rparr>
             else if prefix sep_mark trimmed then st\<lparr>cs_section := InIncoming\<rparr>
             else st\<lparr>cs_local := cs_local st @ line\<rparr>
         | InBase \<Rightarrow>
             if prefix sep_mark trimmed then st\<lparr>cs_section := InIncoming\<rparr>
             else st\<lparr>cs_base := map_option (\<lambda>t. t @ line) (cs_base st)\<rparr>
         | InIncoming \<Rightarrow>
             if prefix close_mark trimmed
             then st\<lparr>cs_nodes := cs_nodes st @
                       [Suggestion (map_option interior (cs_base st)) (interior (cs_local st)) (interior (cs_incoming st))],
                     cs_base := None, cs_section := InPlain\<rparr>
             else st\<lparr>cs_incoming := cs_incoming st @ line\<rparr>)"

definition conflict_suggestions :: "pulldown \<Rightarrow> string \<Rightarrow> string \<Rightarrow> ast_node list option" where
  "conflict_suggestions pulldown src dir =
     (if \<not> prefix open_mark src \<and> \<not> str_contains (LF # open_mark) src then None
      else
        (let st = fold (conflict_line pulldown dir) (split_inclusive LF src) conflict_start
         in if \<not> cs_saw st \<or> cs_section st \<noteq> InPlain then None
            else Some (cs_nodes st @ parse_markdown_segment pulldown (cs_plain st) dir Interior)))"

subsection \<open>Nothing of a conflicted note is lost\<close>

text \<open>A conflict region as it stands in the file, with the text up to the next region.\<close>

record region =
  rg_open :: string
  rg_local :: string
  rg_base :: "(string \<times> string) option"
  rg_sep :: string
  rg_incoming :: string
  rg_close :: string
  rg_after :: string

definition base_text :: "(string \<times> string) option \<Rightarrow> string" where
  "base_text b = (case b of None \<Rightarrow> [] | Some (mark, t) \<Rightarrow> mark @ t)"

definition region_text :: "region \<Rightarrow> string" where
  "region_text r = rg_open r @ rg_local r @ base_text (rg_base r) @ rg_sep r @ rg_incoming r @ rg_close r @ rg_after r"

definition region_nodes :: "pulldown \<Rightarrow> string \<Rightarrow> region \<Rightarrow> ast_node list" where
  "region_nodes pulldown dir r =
     (let interior = (\<lambda>t. parse_markdown_segment pulldown t dir Interior)
      in Suggestion (map_option (interior \<circ> snd) (rg_base r)) (interior (rg_local r)) (interior (rg_incoming r))
         # interior (rg_after r))"

definition marker_line :: "string \<Rightarrow> string \<Rightarrow> bool" where
  "marker_line mark line \<longleftrightarrow> split_inclusive LF line = [line] \<and> prefix mark (trim_end_matches [LF, CR] line)"

definition base_ok :: "(string \<times> string) option \<Rightarrow> bool" where
  "base_ok b \<longleftrightarrow> (case b of None \<Rightarrow> True | Some (mark, _) \<Rightarrow> marker_line base_mark mark)"

definition region_ok :: "region \<Rightarrow> bool" where
  "region_ok r \<longleftrightarrow> marker_line open_mark (rg_open r) \<and> marker_line sep_mark (rg_sep r)
     \<and> marker_line close_mark (rg_close r) \<and> base_ok (rg_base r)"

lemmas region_defs = region_text_def region_nodes_def region_ok_def base_text_def base_ok_def

lemma split_inclusive_single: "l \<in> set (split_inclusive d s) \<Longrightarrow> split_inclusive d l = [l]"
proof -
  have "\<forall>l\<in>set (split_inclusive d s). split_inclusive d l = [l]"
    by (induction d s rule: split_inclusive.induct) (auto split: list.splits)
  then show "l \<in> set (split_inclusive d s) \<Longrightarrow> split_inclusive d l = [l]" by blast
qed

definition suggestion_of :: "pulldown \<Rightarrow> string \<Rightarrow> region \<Rightarrow> ast_node" where
  "suggestion_of pulldown dir r =
     (let interior = (\<lambda>t. parse_markdown_segment pulldown t dir Interior)
      in Suggestion (map_option (interior \<circ> snd) (rg_base r)) (interior (rg_local r)) (interior (rg_incoming r)))"

lemma region_nodes_alt:
  "region_nodes pulldown dir r =
     suggestion_of pulldown dir r # parse_markdown_segment pulldown (rg_after r) dir Interior"
  by (simp add: region_nodes_def suggestion_of_def Let_def)

text \<open>The head and the closed regions, over the text scanned before the last marker.\<close>

definition scanned :: "pulldown \<Rightarrow> string \<Rightarrow> string \<Rightarrow> ast_node list \<Rightarrow> bool" where
  "scanned pulldown dir seen nodes \<longleftrightarrow> (\<exists>head rs. list_all region_ok rs \<and> seen = head @ concat (map region_text rs)
     \<and> nodes = parse_markdown_segment pulldown head dir Head @ concat (map (region_nodes pulldown dir) rs))"

lemma scanned_head: "scanned pulldown dir t (parse_markdown_segment pulldown t dir Head)"
  unfolding scanned_def by (rule exI [of _ t], rule exI [of _ "[]"]) simp

lemma scanned_region:
  assumes "scanned pulldown dir seen nodes" and "region_ok r"
  shows "scanned pulldown dir (seen @ region_text r)
    (nodes @ suggestion_of pulldown dir r # parse_markdown_segment pulldown (rg_after r) dir Interior)"
proof -
  obtain head rs where "list_all region_ok rs" "seen = head @ concat (map region_text rs)"
      "nodes = parse_markdown_segment pulldown head dir Head @ concat (map (region_nodes pulldown dir) rs)"
    using assms(1) by (auto simp: scanned_def)
  then show ?thesis
    unfolding scanned_def using assms(2)
    by - (rule exI [of _ head], rule exI [of _ "rs @ [r]"], simp add: region_nodes_alt)
qed

text \<open>What the state of the scan says of the text read so far.\<close>

inductive scan_inv :: "pulldown \<Rightarrow> string \<Rightarrow> string \<Rightarrow> conflict_scan \<Rightarrow> bool" for pulldown dir where
  in_head: "cs_section st = InPlain \<Longrightarrow> \<not> cs_saw st \<Longrightarrow> cs_nodes st = [] \<Longrightarrow> scan_inv pulldown dir (cs_plain st) st"
| after_region: "cs_section st = InPlain \<Longrightarrow> cs_saw st \<Longrightarrow> scanned pulldown dir seen nodes \<Longrightarrow> region_ok r \<Longrightarrow>
     rg_after r = cs_plain st \<Longrightarrow> cs_nodes st = nodes @ [suggestion_of pulldown dir r] \<Longrightarrow>
     scan_inv pulldown dir (seen @ region_text r) st"
| in_local: "cs_section st = InLocal \<Longrightarrow> cs_saw st \<Longrightarrow> scanned pulldown dir seen (cs_nodes st) \<Longrightarrow>
     cs_plain st = [] \<Longrightarrow> cs_base st = None \<Longrightarrow> cs_incoming st = [] \<Longrightarrow> marker_line open_mark mark \<Longrightarrow>
     scan_inv pulldown dir (seen @ mark @ cs_local st) st"
| in_base: "cs_section st = InBase \<Longrightarrow> cs_saw st \<Longrightarrow> scanned pulldown dir seen (cs_nodes st) \<Longrightarrow>
     cs_plain st = [] \<Longrightarrow> cs_base st = Some b \<Longrightarrow> cs_incoming st = [] \<Longrightarrow> marker_line open_mark mark \<Longrightarrow>
     marker_line base_mark bmark \<Longrightarrow>
     scan_inv pulldown dir (seen @ mark @ cs_local st @ bmark @ b) st"
| in_incoming: "cs_section st = InIncoming \<Longrightarrow> cs_saw st \<Longrightarrow> scanned pulldown dir seen (cs_nodes st) \<Longrightarrow>
     cs_plain st = [] \<Longrightarrow> cs_base st = map_option snd bt \<Longrightarrow> base_ok bt \<Longrightarrow> marker_line open_mark mark \<Longrightarrow>
     marker_line sep_mark smark \<Longrightarrow>
     scan_inv pulldown dir (seen @ mark @ cs_local st @ base_text bt @ smark @ cs_incoming st) st"

lemma conflict_line_inv:
  assumes "scan_inv pulldown dir seen st" and line: "split_inclusive LF line = [line]"
  shows "scan_inv pulldown dir (seen @ line) (conflict_line pulldown dir line st)"
  using assms(1)
proof cases
  case in_head
  show ?thesis
  proof (cases "prefix open_mark (trim_end_matches [LF, CR] line)")
    case True
    then show ?thesis
      using in_head line scanned_head [of pulldown dir "cs_plain st"]
        scan_inv.in_local [of "conflict_line pulldown dir line st" pulldown dir "cs_plain st" line]
      by (simp add: conflict_line_def Let_def marker_line_def)
  next
    case False
    then show ?thesis
      using in_head scan_inv.in_head [of "conflict_line pulldown dir line st" pulldown dir]
      by (simp add: conflict_line_def Let_def)
  qed
next
  case (after_region seen' nodes r)
  show ?thesis
  proof (cases "prefix open_mark (trim_end_matches [LF, CR] line)")
    case True
    then show ?thesis
      using after_region line scanned_region [OF after_region(4,5)]
        scan_inv.in_local [of "conflict_line pulldown dir line st" pulldown dir "seen' @ region_text r" line]
      by (simp add: conflict_line_def Let_def marker_line_def)
  next
    case False
    let ?r = "r\<lparr>rg_after := cs_plain st @ line\<rparr>"
    have "region_ok ?r" "region_text r @ line = region_text ?r" "suggestion_of pulldown dir ?r = suggestion_of pulldown dir r"
      using after_region by (simp_all add: region_ok_def region_text_def suggestion_of_def)
    then show ?thesis
      using after_region False
        scan_inv.after_region [of "conflict_line pulldown dir line st" pulldown dir seen' nodes ?r]
      by (simp add: conflict_line_def Let_def)
  qed
next
  case (in_local seen' mark)
  show ?thesis
  proof (cases "prefix base_mark (trim_end_matches [LF, CR] line) \<or> prefix sep_mark (trim_end_matches [LF, CR] line)")
    case True
    then show ?thesis
      using in_local line
        scan_inv.in_base [of "conflict_line pulldown dir line st" pulldown dir seen' "[]" mark line]
        scan_inv.in_incoming [of "conflict_line pulldown dir line st" pulldown dir seen' None mark line]
      by (cases "prefix base_mark (trim_end_matches [LF, CR] line)")
        (simp_all add: conflict_line_def Let_def marker_line_def base_ok_def base_text_def)
  next
    case False
    then show ?thesis
      using in_local scan_inv.in_local [of "conflict_line pulldown dir line st" pulldown dir seen' mark]
      by (simp add: conflict_line_def Let_def)
  qed
next
  case (in_base seen' b mark bmark)
  show ?thesis
  proof (cases "prefix sep_mark (trim_end_matches [LF, CR] line)")
    case True
    then show ?thesis
      using in_base line
        scan_inv.in_incoming [of "conflict_line pulldown dir line st" pulldown dir seen' "Some (bmark, b)" mark line]
      by (simp add: conflict_line_def Let_def marker_line_def base_ok_def base_text_def)
  next
    case False
    then show ?thesis
      using in_base scan_inv.in_base [of "conflict_line pulldown dir line st" pulldown dir seen' "b @ line" mark bmark]
      by (simp add: conflict_line_def Let_def)
  qed
next
  case (in_incoming seen' bt mark smark)
  show ?thesis
  proof (cases "prefix close_mark (trim_end_matches [LF, CR] line)")
    case True
    let ?r = "\<lparr>rg_open = mark, rg_local = cs_local st, rg_base = bt, rg_sep = smark, rg_incoming = cs_incoming st,
      rg_close = line, rg_after = []\<rparr>"
    have "region_ok ?r" using in_incoming True line by (simp add: region_ok_def marker_line_def)
    then show ?thesis
      using in_incoming True
        scan_inv.after_region [of "conflict_line pulldown dir line st" pulldown dir seen' "cs_nodes st" ?r]
      by (simp add: conflict_line_def Let_def region_text_def suggestion_of_def option.map_comp)
  next
    case False
    then show ?thesis
      using in_incoming scan_inv.in_incoming [of "conflict_line pulldown dir line st" pulldown dir seen' bt mark smark]
      by (simp add: conflict_line_def Let_def)
  qed
qed

lemma conflict_fold_inv:
  "scan_inv pulldown dir seen st \<Longrightarrow> \<forall>l\<in>set ls. split_inclusive LF l = [l] \<Longrightarrow>
   scan_inv pulldown dir (seen @ concat ls) (fold (conflict_line pulldown dir) ls st)"
proof (induction ls arbitrary: seen st)
  case (Cons l ls)
  have "scan_inv pulldown dir (seen @ l) (conflict_line pulldown dir l st)"
    using Cons.prems by (intro conflict_line_inv) auto
  from Cons.IH [OF this] show ?case using Cons.prems(2) by simp
qed simp

text \<open>C14: When a reload shows a conflicted note as suggestions, every byte of the file is accounted for: the file is a
  head followed by conflict regions, each made of its marker lines and of the texts the nodes are parsed from, in
  this order, and the nodes are exactly those of the head, then of every region (its base when the merge wrote
  one, the local side, the incoming side) and of the text that follows it. Only marker lines are not shown.\<close>

theorem conflict_shows_everything:
  assumes "conflict_suggestions pulldown src dir = Some nodes"
  shows "\<exists>head rs. rs \<noteq> [] \<and> list_all region_ok rs \<and> src = head @ concat (map region_text rs)
    \<and> nodes = parse_markdown_segment pulldown head dir Head @ concat (map (region_nodes pulldown dir) rs)"
proof -
  let ?st = "fold (conflict_line pulldown dir) (split_inclusive LF src) conflict_start"
  have st: "cs_saw ?st" "cs_section ?st = InPlain"
      "nodes = cs_nodes ?st @ parse_markdown_segment pulldown (cs_plain ?st) dir Interior"
    using assms by (auto simp: conflict_suggestions_def Let_def split: if_splits)
  have "scan_inv pulldown dir [] conflict_start"
    using scan_inv.in_head [of conflict_start pulldown dir] by (simp add: conflict_start_def)
  from conflict_fold_inv [OF this] have inv: "scan_inv pulldown dir src ?st"
    using split_inclusive_single by fastforce
  from inv show ?thesis
  proof cases
    case (after_region seen ns r)
    obtain head rs where h: "list_all region_ok rs" "seen = head @ concat (map region_text rs)"
        "ns = parse_markdown_segment pulldown head dir Head @ concat (map (region_nodes pulldown dir) rs)"
      using after_region by (auto simp: scanned_def)
    then show ?thesis
      using after_region st(3)
      by - (rule exI [of _ head], rule exI [of _ "rs @ [r]"], simp add: region_nodes_alt)
  qed (use st in simp_all)
qed

text \<open>A library that reads every text as one paragraph, and a merged file.\<close>

definition one_paragraph :: pulldown where
  "one_paragraph metadata t =
     [(EvStart TParagraph, (0, length t)), (EvText t, (0, length t)), (EvEnd EParagraph, (0, length t))]"

definition merged_file :: string where
  "merged_file = ''kept'' @ [LF] @ ''<<<<<<< HEAD'' @ [LF] @ ''mine'' @ [LF] @ ''======='' @ [LF] @ ''theirs'' @ [LF]
     @ ''>>>>>>> origin'' @ [LF] @ ''tail'' @ [LF]"

theorem conflict_shows_everything_witness:
  "conflict_suggestions one_paragraph merged_file [] \<noteq> None
   \<and> (\<exists>head rs. rs \<noteq> [] \<and> list_all region_ok rs \<and> merged_file = head @ concat (map region_text rs)
    \<and> the (conflict_suggestions one_paragraph merged_file []) =
        parse_markdown_segment one_paragraph head [] Head @ concat (map (region_nodes one_paragraph []) rs))"
proof -
  have "conflict_suggestions one_paragraph merged_file [] \<noteq> None" by code_simp
  then obtain nodes where c: "conflict_suggestions one_paragraph merged_file [] = Some nodes" by blast
  from conflict_shows_everything [OF c] c show ?thesis by simp
qed

end
