(* ===== verification/Note_Session.thy ===== *)
theory Note_Session
  imports Conflict Edit_Ops Index_Rows File_Journal
begin

section \<open>An open note\<close>

text \<open>
  \<^verbatim>\<open>NoteSession\<close> of \<^verbatim>\<open>workspace/persist.rs\<close>: the state of an open note and its operations, over the
  modelled file system, the index tables and the note's \<^verbatim>\<open>drafts\<close> row. An operation is written as the sequence of
  its critical sections (what it does while it holds the state lock, the one statement, the one file operation),
  each a function of its own, so that \<^verbatim>\<open>Tier_Steps\<close> can interleave them with those of another thread; the
  composition here runs them with nothing in between. Every database statement and every system call takes the
  next entry of the schedule of faults of its store. The Markdown library, the frontmatter reader, the title
  normalisation, the content hash and the modification time of a file are fields of the environment; a poisoned
  lock is not modelled.
\<close>

subsection \<open>State\<close>

record note_session =
  ns_source :: string
  ns_spans :: span_map
  ns_ast :: "ast_node list"
  ns_seq :: int
  ns_revision :: string
  ns_restored :: bool
  ns_awaiting :: bool
  ns_edited :: bool
  ns_unwritten :: bool
  ns_conflicted :: bool
  ns_written_at :: "int option"
  ns_error :: "app_error option"
  ns_closed :: bool
  ns_metadata :: note_metadata

record draft_row =
  df_source :: string
  df_seq :: int
  df_updated :: int

text \<open>What the operations on one note act on: \<open>w_open\<close> is whether the registry holds the session, \<open>w_timer\<close> whether
  its idle timer is armed, \<open>w_activity\<close> how often the scheduler was notified.\<close>

record note_world =
  w_session :: note_session
  w_open :: bool
  w_store :: store
  w_db :: db
  w_draft :: "draft_row option"
  w_timer :: bool
  w_activity :: nat
  w_now :: int

record note_env =
  ne_ws :: string
  ne_note :: string
  ne_path :: path
  ne_pulldown :: pulldown
  ne_reader :: reader
  ne_lookup_key :: "string \<Rightarrow> string"
  ne_hash :: "string \<Rightarrow> string"
  ne_mtime :: "store \<Rightarrow> int"

type_synonym 'a act = "note_world \<Rightarrow> 'a result \<times> note_world"

definition act_then :: "'a act \<Rightarrow> ('a \<Rightarrow> 'b act) \<Rightarrow> 'b act" where
  "act_then m f w = (case m w of (Inl e, w) \<Rightarrow> (Inl e, w) | (Inr x, w) \<Rightarrow> f x w)"

definition act_ret :: "'a \<Rightarrow> 'a act" where
  "act_ret x w = (Inr x, w)"

definition on_db :: "'a sql \<Rightarrow> 'a act" where
  "on_db m w = (case m (w_db w) of (r, d) \<Rightarrow> (r, w\<lparr>w_db := d\<rparr>))"

text \<open>A statement on the \<^verbatim>\<open>drafts\<close> table: it fails with no effect, or does what it says.\<close>

definition on_draft :: "(draft_row option \<Rightarrow> draft_row option) \<Rightarrow> unit act" where
  "on_draft f = act_then (on_db (statement (\<lambda>d. (Inr (), d)))) (\<lambda>_ w. (Inr (), w\<lparr>w_draft := f (w_draft w)\<rparr>))"

definition parsed :: "note_env \<Rightarrow> string \<Rightarrow> parsed_note" where
  "parsed env src = parse_note (ne_pulldown env) src (containing_dir (ne_note env))"

definition metadata_of :: "note_env \<Rightarrow> string \<Rightarrow> span_map \<Rightarrow> int \<Rightarrow> note_metadata" where
  "metadata_of env src spans modified = derive_metadata (ne_reader env) (ne_note env) src spans modified"

record note_state =
  nt_ast :: "ast_node list"
  nt_metadata :: note_metadata
  nt_base_revision :: string
  nt_restored :: bool

definition note_state_from :: "note_session \<Rightarrow> note_state" where
  "note_state_from s = \<lparr>nt_ast = ns_ast s, nt_metadata = ns_metadata s, nt_base_revision = ns_revision s,
     nt_restored = ns_restored s\<rparr>"

definition refuse_while_conflicted :: "note_session \<Rightarrow> unit result" where
  "refuse_while_conflicted s =
     (if ns_closed s then Inl (ParseError ''was retired by a Workspace lifecycle operation'')
      else if \<not> ns_conflicted s then Inr ()
      else Inl (ParseError ''holds an unresolved merge conflict''))"

definition block_source_of :: "note_session \<Rightarrow> block_path \<Rightarrow> string result" where
  "block_source_of s path =
     and_then (refuse_while_conflicted s) (\<lambda>_.
       ok_or (ParseError ''no Block at block_path'') (block_source (ns_spans s) (ns_source s) path))"

definition resolve_block_caret :: "note_session \<Rightarrow> block_path \<Rightarrow> nat \<Rightarrow> (block_path \<times> nat) result" where
  "resolve_block_caret s top_level_path offset =
     (if length top_level_path \<noteq> 1 then Inl (ParseError ''must name exactly one top-level Block'')
      else if length (ns_ast s) \<le> hd top_level_path then Inl (ParseError ''no Block at block_path'')
      else ok_or (ParseError ''rendered UTF-16 offset is invalid'')
             (resolve_utf16_caret (ns_spans s) (ns_source s) top_level_path
                (rendered_text (ns_ast s ! hd top_level_path)) offset))"

definition arm_idle_timer :: "note_world \<Rightarrow> note_world" where
  "arm_idle_timer w = w\<lparr>w_timer := True\<rparr>"

subsection \<open>The draft row\<close>

definition write_draft :: "string \<Rightarrow> int \<Rightarrow> unit act" where
  "write_draft src seq w =
     on_draft (\<lambda>row. case row of
         None \<Rightarrow> Some \<lparr>df_source = src, df_seq = seq, df_updated = w_now w\<rparr>
       | Some r \<Rightarrow> if df_seq r < seq then Some \<lparr>df_source = src, df_seq = seq, df_updated = w_now w\<rparr> else Some r) w"

definition clear_draft_through :: "int \<Rightarrow> unit act" where
  "clear_draft_through seq =
     on_draft (\<lambda>row. case row of None \<Rightarrow> None | Some r \<Rightarrow> if df_seq r \<le> seq then None else Some r)"

subsection \<open>A buffered edit\<close>

text \<open>The critical section of \<^verbatim>\<open>update_block\<close>.\<close>

definition buffer_edit :: "block_path \<Rightarrow> string \<Rightarrow> note_session \<Rightarrow> note_session result" where
  "buffer_edit path new_source s =
     and_then (refuse_while_conflicted s) (\<lambda>_.
     and_then (block_range (ns_spans s) path) (\<lambda>span.
     and_then (check_span (ns_source s) span) (\<lambda>_.
       case apply_buffered_edit (ns_spans s) path (length new_source) of
         (_, None) \<Rightarrow> Inl (ParseError ''addresses a container Block'')
       | (spans, Some _) \<Rightarrow>
           Inr (s\<lparr>ns_source := take (fst span) (ns_source s) @ new_source @ drop (snd span) (ns_source s),
                  ns_spans := spans, ns_seq := ns_seq s + 1, ns_edited := True, ns_unwritten := True\<rparr>))))"

text \<open>What a refused draft write puts back.\<close>

definition restore_buffered :: "note_session \<Rightarrow> note_session \<Rightarrow> note_session" where
  "restore_buffered previous s =
     s\<lparr>ns_source := ns_source previous, ns_spans := ns_spans previous, ns_seq := ns_seq previous,
       ns_edited := ns_edited previous, ns_unwritten := ns_unwritten previous\<rparr>"

definition restore_structural :: "note_session \<Rightarrow> note_session \<Rightarrow> note_session" where
  "restore_structural previous s =
     s\<lparr>ns_source := ns_source previous, ns_spans := ns_spans previous, ns_ast := ns_ast previous,
       ns_metadata := ns_metadata previous, ns_seq := ns_seq previous,
       ns_edited := ns_edited previous, ns_unwritten := ns_unwritten previous\<rparr>"

text \<open>The section after a failed draft write: \<open>None\<close> when the edit can no longer be taken back.\<close>

definition take_back ::
    "(note_session \<Rightarrow> note_session \<Rightarrow> note_session) \<Rightarrow> note_session \<Rightarrow> int \<Rightarrow> note_session \<Rightarrow> note_session option" where
  "take_back restore previous seq s =
     (if ns_seq s \<noteq> seq \<or> ns_revision s \<noteq> ns_revision previous then None else Some (restore previous s))"

definition update_block :: "block_path \<Rightarrow> string \<Rightarrow> unit act" where
  "update_block path new_source w =
     (case buffer_edit path new_source (w_session w) of
        Inl e \<Rightarrow> (Inl e, w)
      | Inr s \<Rightarrow>
          (case write_draft (ns_source s) (ns_seq s) (w\<lparr>w_session := s\<rparr>) of
             (Inr _, w') \<Rightarrow> (Inr (), arm_idle_timer w')
           | (Inl e, w') \<Rightarrow>
               (case take_back restore_buffered (w_session w) (ns_seq s) (w_session w') of
                  None \<Rightarrow> (Inr (), arm_idle_timer w')
                | Some s' \<Rightarrow> (Inl e, w'\<lparr>w_session := s'\<rparr>))))"

subsection \<open>A structural edit\<close>

definition resolve_links :: "note_env \<Rightarrow> ast_node list \<Rightarrow> ast_node list act" where
  "resolve_links env ast = on_db (resolve_link_existence (ne_ws env) ast)"

record 'b prepared =
  pr_source :: string
  pr_spans :: span_map
  pr_ast :: "ast_node list"
  pr_result :: 'b

text \<open>The part that holds no lock: the plan over the live parse, the parse of its source, the result it derives.\<close>

definition structural_prepare ::
    "note_env \<Rightarrow> 'a plan \<Rightarrow> (string \<Rightarrow> span_map \<Rightarrow> ast_node list \<Rightarrow> 'a \<Rightarrow> 'b result) \<Rightarrow> string \<Rightarrow> span_map \<Rightarrow> 'b prepared act" where
  "structural_prepare env plan derive src retained w =
     (let live = parsed env src
      in case plan src (pn_spans live) (pn_ast live) retained of
           Inl e \<Rightarrow> (Inl e, w)
         | Inr (new_source, x) \<Rightarrow>
             (let new = parsed env new_source
              in act_then (resolve_links env (pn_ast new)) (\<lambda>ast w.
                   (case derive new_source (pn_spans new) ast x of
                      Inl e \<Rightarrow> (Inl e, w)
                    | Inr y \<Rightarrow>
                        (Inr \<lparr>pr_source = new_source, pr_spans = pn_spans new, pr_ast = ast, pr_result = y\<rparr>, w))) w))"

definition structural_install :: "note_env \<Rightarrow> int \<Rightarrow> 'b prepared \<Rightarrow> note_session \<Rightarrow> note_session option" where
  "structural_install env seq p s =
     (if ns_seq s \<noteq> seq then None
      else Some (s\<lparr>ns_metadata := metadata_of env (pr_source p) (pr_spans p) (md_last_modified (ns_metadata s)),
                   ns_source := pr_source p, ns_spans := pr_spans p, ns_ast := pr_ast p,
                   ns_seq := ns_seq s + 1, ns_edited := True, ns_unwritten := True\<rparr>))"

text \<open>
  The loop of \<^verbatim>\<open>structural_edit_with_result\<close>. The list gives what other threads do to the world between the
  snapshot and the installation of each attempt; \<open>None\<close> when it ends before an attempt installs.
\<close>

fun structural_edit ::
    "note_env \<Rightarrow> 'a plan \<Rightarrow> (string \<Rightarrow> span_map \<Rightarrow> ast_node list \<Rightarrow> 'a \<Rightarrow> 'b result) \<Rightarrow>
     (note_world \<Rightarrow> note_world) list \<Rightarrow> note_world \<Rightarrow> ((note_state \<times> 'b) result \<times> note_world) option" where
  "structural_edit env plan derive [] w = None"
| "structural_edit env plan derive (others # rest) w =
     (case refuse_while_conflicted (w_session w) of
        Inl e \<Rightarrow> Some (Inl e, w)
      | Inr _ \<Rightarrow>
          (case structural_prepare env plan derive (ns_source (w_session w)) (ns_spans (w_session w)) w of
             (Inl e, w1) \<Rightarrow> Some (Inl e, w1)
           | (Inr p, w1) \<Rightarrow>
               (let w2 = others w1
                in case structural_install env (ns_seq (w_session w)) p (w_session w2) of
                     None \<Rightarrow> structural_edit env plan derive rest w2
                   | Some s \<Rightarrow>
                       (case write_draft (ns_source s) (ns_seq s) (w2\<lparr>w_session := s\<rparr>) of
                          (Inr _, w3) \<Rightarrow>
                            Some (Inr (note_state_from (w_session w3), pr_result p), arm_idle_timer w3)
                        | (Inl e, w3) \<Rightarrow>
                            (case take_back restore_structural (w_session w2) (ns_seq s) (w_session w3) of
                               None \<Rightarrow>
                                 Some (Inr (note_state_from (w_session w3), pr_result p), arm_idle_timer w3)
                             | Some s' \<Rightarrow> Some (Inl e, w3\<lparr>w_session := s'\<rparr>))))))"

text \<open>\<^verbatim>\<open>commit_block\<close>: the reparse, with the same retry and no draft row.\<close>

definition install_reparse :: "note_env \<Rightarrow> int \<Rightarrow> string \<Rightarrow> span_map \<Rightarrow> ast_node list \<Rightarrow> note_session \<Rightarrow> note_session option" where
  "install_reparse env seq src spans ast s =
     (if ns_seq s \<noteq> seq then None
      else Some (s\<lparr>ns_metadata := metadata_of env src spans (md_last_modified (ns_metadata s)),
                   ns_ast := ast, ns_spans := spans\<rparr>))"

fun commit_block :: "note_env \<Rightarrow> (note_world \<Rightarrow> note_world) list \<Rightarrow> note_world \<Rightarrow> (note_state result \<times> note_world) option" where
  "commit_block env [] w = None"
| "commit_block env (others # rest) w =
     (case refuse_while_conflicted (w_session w) of
        Inl e \<Rightarrow> Some (Inl e, w)
      | Inr _ \<Rightarrow>
          (let src = ns_source (w_session w); pn = parsed env src
           in case resolve_links env (pn_ast pn) w of
                (Inl e, w1) \<Rightarrow> Some (Inl e, w1)
              | (Inr ast, w1) \<Rightarrow>
                  (let w2 = others w1
                   in case install_reparse env (ns_seq (w_session w)) src (pn_spans pn) ast (w_session w2) of
                        None \<Rightarrow> commit_block env rest w2
                      | Some s \<Rightarrow> Some (Inr (note_state_from s), w2\<lparr>w_session := s\<rparr>))))"

end
