(* ===== verification/Note_Tiers.thy ===== *)
theory Note_Tiers
  imports Note_Session
begin

section \<open>Writing an open note through\<close>

text \<open>
  The second half of \<^verbatim>\<open>NoteSession\<close>: the write to the file under the revision check, the reload, the close with
  its commit, and the opening of a note over its file and its draft row. What Git answers is an argument.
\<close>

subsection \<open>Tier 2\<close>

definition on_store :: "(store \<Rightarrow> 'a \<times> store) \<Rightarrow> note_world \<Rightarrow> 'a \<times> note_world" where
  "on_store f w = (case f (w_store w) of (x, st) \<Rightarrow> (x, w\<lparr>w_store := st\<rparr>))"

definition ABSENT_FILE :: string where
  "ABSENT_FILE = []"

definition read_file :: "note_env \<Rightarrow> string act" where
  "read_file env w =
     (case on_store (fs_read (ne_path env)) w of
        (Inr bytes, w) \<Rightarrow> (Inr bytes, w)
      | (Inl e, w) \<Rightarrow>
          (Inl (if e = NotFoundErr then NotFound (ne_note env) else IoError ''read''), w))"

definition ensure_containing_directory :: "note_env \<Rightarrow> unit act" where
  "ensure_containing_directory env w =
     (if ne_path env = [] then (Inr (), w)
      else (case on_store (fs_is_dir (butlast (ne_path env))) w of
              (True, w) \<Rightarrow> (Inr (), w)
            | (False, w) \<Rightarrow>
                (case on_store (fs_create_dir_all (butlast (ne_path env))) w of
                   (Inl _, w) \<Rightarrow> (Inl (IoError ''create''), w)
                 | (Inr _, w) \<Rightarrow> (Inr (), w))))"

text \<open>Read, compare with the recorded revision, write: the new revision.\<close>

definition publish :: "note_env \<Rightarrow> string \<Rightarrow> string \<Rightarrow> string act" where
  "publish env src revision w =
     (let awaiting = ns_awaiting (w_session w)
      in case read_file env w of
           (Inl (NotFound _), w1) \<Rightarrow>
             if \<not> awaiting then (Inl (NotFound (ne_note env)), w1)
             else if ne_hash env ABSENT_FILE \<noteq> revision then (Inl (RevisionMismatch (ne_hash env ABSENT_FILE)), w1)
             else act_then (act_then (ensure_containing_directory env)
                      (\<lambda>_. on_store (atomic_write (ne_path env) src)))
                    (\<lambda>_. act_ret (ne_hash env src)) w1
         | (Inl e, w1) \<Rightarrow> (Inl e, w1)
         | (Inr on_disk, w1) \<Rightarrow>
             if ne_hash env on_disk \<noteq> revision then (Inl (RevisionMismatch (ne_hash env on_disk)), w1)
             else if ne_hash env src = ne_hash env on_disk \<and> \<not> awaiting then (Inr (ne_hash env src), w1)
             else act_then (act_then (if awaiting then ensure_containing_directory env else act_ret ())
                      (\<lambda>_. on_store (atomic_write (ne_path env) src)))
                    (\<lambda>_. act_ret (ne_hash env src)) w1)"

definition record_revision :: "string \<Rightarrow> note_session \<Rightarrow> note_session" where
  "record_revision revision s = s\<lparr>ns_revision := revision, ns_awaiting := False\<rparr>"

definition index_source :: "note_env \<Rightarrow> string \<Rightarrow> string \<Rightarrow> unit act" where
  "index_source env src revision w =
     on_db (index_written_source (ne_pulldown env) (ne_reader env) (ne_lookup_key env) (ne_ws env) (ne_note env)
              src revision (ne_mtime env (w_store w))) w"

definition settle_write :: "int \<Rightarrow> int \<Rightarrow> note_session \<Rightarrow> note_session" where
  "settle_write now seq s =
     s\<lparr>ns_metadata := (ns_metadata s)\<lparr>md_last_modified := now\<rparr>, ns_written_at := Some now, ns_error := None,
       ns_unwritten := (seq < ns_seq s)\<rparr>"

definition in_session :: "(note_session \<Rightarrow> note_session) \<Rightarrow> note_world \<Rightarrow> note_world" where
  "in_session f w = w\<lparr>w_session := f (w_session w)\<rparr>"

definition write_locked :: "note_env \<Rightarrow> string \<Rightarrow> int \<Rightarrow> string \<Rightarrow> string act" where
  "write_locked env src seq revision =
     act_then (publish env src revision) (\<lambda>new_revision w.
     act_then (clear_draft_through seq) (\<lambda>_.
     act_then (index_source env src new_revision) (\<lambda>_ w.
       (Inr new_revision, in_session (settle_write (w_now w) seq) w)))
       (in_session (record_revision new_revision) w))"

record written_through =
  wt_revision :: string
  wt_seq :: int

definition flush_covering :: "note_env \<Rightarrow> written_through act" where
  "flush_covering env w =
     (let s = w_session w
      in if ns_closed s then (Inr \<lparr>wt_revision = ns_revision s, wt_seq = ns_seq s\<rparr>, w)
         else (case write_locked env (ns_source s) (ns_seq s) (ns_revision s) w of
                 (Inr revision, w) \<Rightarrow> (Inr \<lparr>wt_revision = revision, wt_seq = ns_seq s\<rparr>, w)
               | (Inl e, w) \<Rightarrow> (Inl e, in_session (\<lambda>s. s\<lparr>ns_error := Some e\<rparr>) w)))"

definition flush :: "note_env \<Rightarrow> string act" where
  "flush env = act_then (flush_covering env) (\<lambda>through. act_ret (wt_revision through))"

text \<open>The idle timer: disarmed, then the flush, whose error only the session records.\<close>

definition idle_fire :: "note_env \<Rightarrow> note_world \<Rightarrow> note_world" where
  "idle_fire env w = (if w_timer w then snd (flush env (w\<lparr>w_timer := False\<rparr>)) else w)"

record write_status =
  ws_last_written_at :: "int option"
  ws_last_error :: "app_error option"
  ws_has_unwritten_edits :: bool

definition write_status_of :: "note_session \<Rightarrow> write_status" where
  "write_status_of s = \<lparr>ws_last_written_at = ns_written_at s, ws_last_error = ns_error s,
     ws_has_unwritten_edits = ns_unwritten s\<rparr>"

subsection \<open>Reload\<close>

definition decode_source :: "string \<Rightarrow> string result" where
  "decode_source bytes = (if valid_utf8 bytes then Inr bytes else Inl (ParseError ''is not valid UTF-8''))"

definition reloaded ::
    "note_env \<Rightarrow> string \<Rightarrow> span_map \<Rightarrow> ast_node list \<Rightarrow> bool \<Rightarrow> int \<Rightarrow> note_session \<Rightarrow> note_session" where
  "reloaded env src spans ast conflicted mtime s =
     s\<lparr>ns_source := src, ns_spans := spans, ns_ast := ast, ns_revision := ne_hash env src, ns_awaiting := False,
       ns_metadata := metadata_of env src spans mtime, ns_restored := False, ns_unwritten := False,
       ns_conflicted := conflicted, ns_error := None\<rparr>"

definition reload :: "note_env \<Rightarrow> note_state act" where
  "reload env =
     act_then (read_file env) (\<lambda>bytes w.
       case decode_source bytes of
         Inl e \<Rightarrow> (Inl e, w)
       | Inr src \<Rightarrow>
           (let pn = parsed env src;
                collapsed = conflict_suggestions (ne_pulldown env) src (containing_dir (ne_note env));
                ast = (case collapsed of None \<Rightarrow> pn_ast pn | Some nodes \<Rightarrow> nodes)
            in act_then (resolve_links env ast) (\<lambda>ast.
               act_then (on_draft (\<lambda>_. None)) (\<lambda>_ w.
                 let s = reloaded env src (pn_spans pn) ast (collapsed \<noteq> None) (ne_mtime env (w_store w)) (w_session w)
                 in (Inr (note_state_from s), w\<lparr>w_session := s\<rparr>))) w))"

subsection \<open>Close\<close>

datatype close_outcome = Closed | ClosedWithWarning app_error

definition draft_stage_failure :: "app_error \<Rightarrow> app_error" where
  "draft_stage_failure e = restate e (\<lambda>detail. ''the Note is closed and its work is safe: '' @ detail)"

text \<open>
  \<open>staged\<close> is what the commit of the note's path answers (whether it made a commit), over the files as the
  flush left them.
\<close>

definition close_with_outcome :: "note_env \<Rightarrow> (store \<Rightarrow> bool result) \<Rightarrow> close_outcome act" where
  "close_with_outcome env staged w =
     (let edited = ns_edited (w_session w);
          (flushed, w1) = (if edited \<or> ns_unwritten (w_session w)
                           then (case flush_covering env w of (r, w1) \<Rightarrow> (map_sum id Some r, w1))
                           else (Inr None, w));
          vanished = (case flushed of Inl (NotFound _) \<Rightarrow> True | _ \<Rightarrow> False)
      in case flushed of
           Inl e \<Rightarrow>
             if \<not> vanished then (Inl e, w1)
             else (Inr Closed,
                   (in_session (\<lambda>s. s\<lparr>ns_closed := True, ns_edited := False, ns_unwritten := True\<rparr>) w1)\<lparr>w_open := False\<rparr>)
         | Inr covered \<Rightarrow>
             (let commit_stage = (if edited then staged (w_store w1) else Inr False);
                  (cleared, w2) = (case covered of
                                     None \<Rightarrow> (Inr (), w1)
                                   | Some x \<Rightarrow> clear_draft_through (wt_seq x) w1);
                  w3 = (in_session (\<lambda>s. s\<lparr>ns_closed := True, ns_edited := False, ns_unwritten := False\<rparr>) w2)
                         \<lparr>w_open := False, w_activity := w_activity w2 + (if commit_stage = Inr True then 1 else 0)\<rparr>
              in case commit_stage of
                   Inl e \<Rightarrow>
                     (Inr (ClosedWithWarning (commit_stage_failure ''closing'' e
                        (case cleared of Inl _ \<Rightarrow> [''clearing the draft row''] | Inr _ \<Rightarrow> []))), w3)
                 | Inr _ \<Rightarrow>
                     (case cleared of
                        Inl e \<Rightarrow> (Inr (ClosedWithWarning (draft_stage_failure e)), w3)
                      | Inr _ \<Rightarrow> (Inr Closed, w3))))"

definition close :: "note_env \<Rightarrow> (store \<Rightarrow> bool result) \<Rightarrow> unit act" where
  "close env staged =
     act_then (close_with_outcome env staged) (\<lambda>outcome w.
       case outcome of Closed \<Rightarrow> (Inr (), w) | ClosedWithWarning e \<Rightarrow> (Inl e, w))"

subsection \<open>Open\<close>

definition read_draft :: "draft_row option act" where
  "read_draft w = act_then (on_db (statement (\<lambda>d. (Inr (), d)))) (\<lambda>_ w. (Inr (w_draft w), w)) w"

definition opened_session ::
    "note_env \<Rightarrow> string \<Rightarrow> span_map \<Rightarrow> ast_node list \<Rightarrow> int \<Rightarrow> string \<Rightarrow> bool \<Rightarrow> bool \<Rightarrow> int \<Rightarrow> note_session" where
  "opened_session env src spans ast seq revision restored awaiting modified =
     \<lparr>ns_source = src, ns_spans = spans, ns_ast = ast, ns_seq = seq, ns_revision = revision, ns_restored = restored,
      ns_awaiting = awaiting, ns_edited = restored, ns_unwritten = restored, ns_conflicted = False,
      ns_written_at = None, ns_error = None, ns_closed = False, ns_metadata = metadata_of env src spans modified\<rparr>"

text \<open>The session over the bytes of the file, if there is one, and the draft row, if there is one.\<close>

definition open_over :: "note_env \<Rightarrow> string option \<Rightarrow> draft_row option \<Rightarrow> note_state act" where
  "open_over env bytes draft w =
     (case (case (draft, bytes) of
              (Some row, _) \<Rightarrow> Inr (df_source row, df_seq row)
            | (None, Some b) \<Rightarrow> and_then (decode_source b) (\<lambda>src. Inr (src, 0))
            | (None, None) \<Rightarrow> Inl (NotFound (ne_note env))) of
        Inl e \<Rightarrow> (Inl e, w)
      | Inr (src, seq) \<Rightarrow>
          (let pn = parsed env src;
               modified = (case (bytes, draft) of
                             (Some _, _) \<Rightarrow> ne_mtime env (w_store w)
                           | (None, Some row) \<Rightarrow> df_updated row
                           | (None, None) \<Rightarrow> 0)
           in act_then (resolve_links env (pn_ast pn)) (\<lambda>ast w.
                let s = opened_session env src (pn_spans pn) ast seq
                          (ne_hash env (case bytes of None \<Rightarrow> ABSENT_FILE | Some b \<Rightarrow> b))
                          (draft \<noteq> None) (bytes = None) modified
                in (Inr (note_state_from s),
                    w\<lparr>w_session := s, w_open := True, w_timer := (draft \<noteq> None)\<rparr>)) w))"

text \<open>\<open>located\<close> is the answer of \<^verbatim>\<open>note_path\<close> (\<^verbatim>\<open>Identity\<close>).\<close>

definition open_note :: "note_env \<Rightarrow> unit result \<Rightarrow> note_state act" where
  "open_note env located w =
     (if w_open w then (Inr (note_state_from (w_session w)), w)
      else (case located of
        Inl e \<Rightarrow> (Inl e, w)
      | Inr _ \<Rightarrow>
          (case on_store (fs_read (ne_path env)) w of
             (Inr b, w) \<Rightarrow> act_then read_draft (open_over env (Some b)) w
           | (Inl e, w) \<Rightarrow>
               if e = NotFoundErr then act_then read_draft (open_over env None) w
               else (Inl (IoError ''read''), w))))"

subsection \<open>Across a lifecycle operation\<close>

text \<open>
  \<open>install_rewrite\<close> is the session of a note whose text an operation rewrote in place, \<open>carried_session\<close> the one
  of a note it renamed; in both, a link lookup that fails leaves the parser's answers.
\<close>

definition looked_up :: "note_env \<Rightarrow> ast_node list \<Rightarrow> note_world \<Rightarrow> ast_node list \<times> note_world" where
  "looked_up env ast w = (case resolve_links env ast w of (Inr ast', w) \<Rightarrow> (ast', w) | (Inl _, w) \<Rightarrow> (ast, w))"

definition install_rewrite :: "note_env \<Rightarrow> string option \<Rightarrow> string \<Rightarrow> note_world \<Rightarrow> note_world" where
  "install_rewrite env new_source new_revision w =
     (case new_source of
        None \<Rightarrow> in_session (\<lambda>s. s\<lparr>ns_revision := new_revision\<rparr>) w
      | Some src \<Rightarrow>
          (let pn = parsed env src; (ast, w1) = looked_up env (pn_ast pn) w
           in in_session (\<lambda>s. s\<lparr>ns_source := src, ns_spans := pn_spans pn, ns_ast := ast,
                ns_metadata := metadata_of env src (pn_spans pn) (ne_mtime env (w_store w)),
                ns_revision := new_revision, ns_conflicted := False\<rparr>) w1))"

definition carried_session ::
    "note_env \<Rightarrow> string option \<Rightarrow> string \<Rightarrow> note_session \<Rightarrow> note_world \<Rightarrow> note_session \<times> note_world" where
  "carried_session env new_source new_revision s w =
     (let src = (case new_source of None \<Rightarrow> ns_source s | Some t \<Rightarrow> t);
          pn = parsed env src; (ast, w1) = looked_up env (pn_ast pn) w
      in (s\<lparr>ns_source := src, ns_spans := pn_spans pn, ns_ast := ast, ns_revision := new_revision,
            ns_metadata := metadata_of env src (pn_spans pn) (ne_mtime env (w_store w)),
            ns_conflicted := False, ns_closed := False\<rparr>, w1))"

text \<open>The registry move: the new identity's session replaces the retired one.\<close>

definition carry_session_forward ::
    "note_env \<Rightarrow> bool \<Rightarrow> unit result \<Rightarrow> string option \<Rightarrow> string \<Rightarrow> unit act" where
  "carry_session_forward env same_id located new_source new_revision w =
     (if \<not> w_open w then (Inr (), w)
      else if same_id then (Inr (), install_rewrite env new_source new_revision w)
      else (case located of
              Inl e \<Rightarrow> (Inl e, w)
            | Inr _ \<Rightarrow>
                (let (s, w1) = carried_session env new_source new_revision (w_session w) w
                 in (Inr (), w1\<lparr>w_session := s, w_timer := ns_unwritten s\<rparr>))))"

definition discard_session :: "note_world \<Rightarrow> note_world" where
  "discard_session w =
     (if w_open w
      then (in_session (\<lambda>s. s\<lparr>ns_closed := True, ns_unwritten := False\<rparr>) w)\<lparr>w_open := False\<rparr>
      else w)"

end
