(* ===== verification/Note_Laws.thy ===== *)
theory Note_Laws
  imports Note_Tiers
begin

section \<open>What the operations on an open note guarantee\<close>

text \<open>
  Each operation on its own: a keystroke or a structural edit is in the buffer and in the draft row or in
  neither, a write through replaces only the bytes the session knows, a reload discards the draft only when it
  has the file's bytes, and no way of ending a session loses the text it held.
\<close>

subsection \<open>Running the steps\<close>

lemma act_then_Inr: "act_then m f w = (Inr y, w'') \<longleftrightarrow> (\<exists>x w'. m w = (Inr x, w') \<and> f x w' = (Inr y, w''))"
  by (auto simp: act_then_def split: prod.splits sum.splits)

lemma act_then_Inl:
  "act_then m f w = (Inl e, w'') \<longleftrightarrow> m w = (Inl e, w'') \<or> (\<exists>x w'. m w = (Inr x, w') \<and> f x w' = (Inl e, w''))"
  by (auto simp: act_then_def split: prod.splits sum.splits)

text \<open>Everything but the database and the draft row.\<close>

definition outside_db :: "note_world \<Rightarrow> note_world \<Rightarrow> bool" where
  "outside_db w w' \<longleftrightarrow> w_session w' = w_session w \<and> w_open w' = w_open w \<and> w_store w' = w_store w
     \<and> w_timer w' = w_timer w \<and> w_activity w' = w_activity w \<and> w_now w' = w_now w"

lemma on_db_frame: "on_db m w = (r, w') \<Longrightarrow> outside_db w w' \<and> w_draft w' = w_draft w"
  by (auto simp: on_db_def outside_db_def split: prod.splits)

lemma on_draft_effect:
  assumes "on_draft f w = (r, w')"
  shows "outside_db w w' \<and> w_draft w' = (if r = Inr () then f (w_draft w) else w_draft w)"
  using assms by (auto simp: on_draft_def act_then_def on_db_def statement_def Let_def outside_db_def
      split: prod.splits sum.splits list.splits option.splits)

lemma write_draft_effect:
  assumes "write_draft src seq w = (r, w')"
  shows "outside_db w w'" and "r \<noteq> Inr () \<Longrightarrow> w_draft w' = w_draft w"
    and "r = Inr () \<Longrightarrow> \<forall>row. w_draft w = Some row \<longrightarrow> df_seq row < seq \<Longrightarrow>
      w_draft w' = Some \<lparr>df_source = src, df_seq = seq, df_updated = w_now w\<rparr>"
  using on_draft_effect [OF assms [unfolded write_draft_def]] by (auto split: option.splits)

lemma clear_draft_effect:
  assumes "clear_draft_through seq w = (r, w')"
  shows "outside_db w w'" and "r \<noteq> Inr () \<Longrightarrow> w_draft w' = w_draft w"
    and "r = Inr () \<Longrightarrow> w_draft w' = (case w_draft w of None \<Rightarrow> None | Some row \<Rightarrow> if df_seq row \<le> seq then None else Some row)"
  using on_draft_effect [OF assms [unfolded clear_draft_through_def]] by auto

text \<open>No row is ahead of the buffer.\<close>

definition draft_in_step :: "note_world \<Rightarrow> bool" where
  "draft_in_step w \<longleftrightarrow> (\<forall>row. w_draft w = Some row \<longrightarrow> df_seq row \<le> ns_seq (w_session w))"

subsection \<open>A keystroke\<close>

lemma buffer_edit_Inr:
  assumes "buffer_edit path new s = Inr s'"
  obtains span where "block_range (ns_spans s) path = Inr span" "fst span \<le> snd span" "snd span \<le> length (ns_source s)"
    "ns_source s' = take (fst span) (ns_source s) @ new @ drop (snd span) (ns_source s)"
    "ns_seq s' = ns_seq s + 1" "ns_revision s' = ns_revision s" "ns_closed s' = ns_closed s"
    "ns_unwritten s'" "restore_buffered s s' = s" "\<not> ns_closed s"
proof -
  obtain span spans where "refuse_while_conflicted s = Inr ()" "block_range (ns_spans s) path = Inr span"
      "check_span (ns_source s) span = Inr ()"
      "s' = s\<lparr>ns_source := take (fst span) (ns_source s) @ new @ drop (snd span) (ns_source s),
         ns_spans := spans, ns_seq := ns_seq s + 1, ns_edited := True, ns_unwritten := True\<rparr>"
    using assms unfolding buffer_edit_def and_then_Inr_iff
    by (elim exE conjE) (fastforce split: prod.splits option.splits)
  then show ?thesis
    by (intro that [of span]) (auto simp: check_span_def refuse_while_conflicted_def restore_buffered_def split: if_splits)
qed

text \<open>C6: A keystroke that succeeds is in the buffer and in the draft row, and the idle timer is armed; a keystroke that is
  refused, by its address or by the database, changes neither the buffer nor its span map nor the row. In both
  cases the file is not touched.\<close>

theorem update_block_durable:
  assumes "update_block path new w = (r, w')" and "draft_in_step w"
  shows "w_store w' = w_store w \<and> w_open w' = w_open w
    \<and> (case r of
         Inr _ \<Rightarrow> (\<exists>span. block_range (ns_spans (w_session w)) path = Inr span
             \<and> ns_source (w_session w') = take (fst span) (ns_source (w_session w)) @ new @ drop (snd span) (ns_source (w_session w)))
           \<and> ns_seq (w_session w') = ns_seq (w_session w) + 1 \<and> w_timer w' \<and> draft_in_step w'
           \<and> map_option (\<lambda>row. (df_source row, df_seq row)) (w_draft w') =
               Some (ns_source (w_session w'), ns_seq (w_session w'))
       | Inl e \<Rightarrow> w_session w' = w_session w \<and> w_draft w' = w_draft w \<and> w_timer w' = w_timer w)"
proof (cases "buffer_edit path new (w_session w)")
  case (Inl e)
  then show ?thesis using assms(1) by (auto simp: update_block_def)
next
  case (Inr s)
  obtain span where span: "block_range (ns_spans (w_session w)) path = Inr span"
      "ns_source s = take (fst span) (ns_source (w_session w)) @ new @ drop (snd span) (ns_source (w_session w))"
      "ns_seq s = ns_seq (w_session w) + 1" "ns_revision s = ns_revision (w_session w)"
      "restore_buffered (w_session w) s = w_session w"
    using Inr by (elim buffer_edit_Inr)
  obtain r1 w1 where d: "write_draft (ns_source s) (ns_seq s) (w\<lparr>w_session := s\<rparr>) = (r1, w1)"
    by (cases "write_draft (ns_source s) (ns_seq s) (w\<lparr>w_session := s\<rparr>)")
  note eff = write_draft_effect [OF d]
  have frame: "w_session w1 = s" "w_store w1 = w_store w" "w_open w1 = w_open w" "w_timer w1 = w_timer w"
    using eff(1) by (simp_all add: outside_db_def)
  have "\<forall>row. w_draft w = Some row \<longrightarrow> df_seq row < ns_seq s"
    using assms(2) span(3) by (auto simp: draft_in_step_def)
  then have row: "r1 = Inr () \<Longrightarrow> w_draft w1 = Some \<lparr>df_source = ns_source s, df_seq = ns_seq s, df_updated = w_now w\<rparr>"
    using eff(3) by simp
  show ?thesis
  proof (cases r1)
    case (Inl e)
    then have "take_back restore_buffered (w_session w) (ns_seq s) (w_session w1) = Some (w_session w)"
      using frame span by (simp add: take_back_def)
    then have "r = Inl e" "w' = w1\<lparr>w_session := w_session w\<rparr>"
      using assms(1) Inr d Inl by (simp_all add: update_block_def)
    then show ?thesis using frame eff(2) Inl by simp
  next
    case [simp]: (Inr u)
    have "r = Inr ()" "w' = arm_idle_timer w1"
      using assms(1) \<open>buffer_edit path new (w_session w) = Inr s\<close> d by (simp_all add: update_block_def)
    then show ?thesis using frame row span by (auto simp: arm_idle_timer_def draft_in_step_def)
  qed
qed

subsection \<open>A structural edit\<close>

lemma structural_prepare_frame:
  assumes "structural_prepare env plan derive src retained w = (r, w')"
  shows "outside_db w w' \<and> w_draft w' = w_draft w"
proof (cases "plan src (pn_spans (parsed env src)) (pn_ast (parsed env src)) retained")
  case (Inl e)
  then show ?thesis using assms by (simp add: structural_prepare_def Let_def outside_db_def)
next
  case (Inr p)
  obtain new x where p: "p = (new, x)" by (cases p)
  obtain r1 w1 where l: "resolve_links env (pn_ast (parsed env new)) w = (r1, w1)"
    by (cases "resolve_links env (pn_ast (parsed env new)) w")
  have "w' = w1"
    using assms Inr p l
    by (auto simp: structural_prepare_def Let_def act_then_def split: sum.splits prod.splits)
  then show ?thesis using on_db_frame l by (simp add: resolve_links_def)
qed

lemma structural_prepare_Inr:
  assumes "structural_prepare env plan derive src retained w = (Inr p, w')"
  obtains x where "plan src (pn_spans (parsed env src)) (pn_ast (parsed env src)) retained = Inr (pr_source p, x)"
    "pr_spans p = pn_spans (parsed env (pr_source p))" "derive (pr_source p) (pr_spans p) (pr_ast p) x = Inr (pr_result p)"
proof (cases "plan src (pn_spans (parsed env src)) (pn_ast (parsed env src)) retained")
  case (Inl e)
  then show ?thesis using assms by (simp add: structural_prepare_def Let_def)
next
  case (Inr q)
  obtain new x where q: "q = (new, x)" by (cases q)
  obtain ast w1 y where "resolve_links env (pn_ast (parsed env new)) w = (Inr ast, w1)"
      "derive new (pn_spans (parsed env new)) ast x = Inr y"
      "p = \<lparr>pr_source = new, pr_spans = pn_spans (parsed env new), pr_ast = ast, pr_result = y\<rparr>"
    using assms Inr q
    by (auto simp: structural_prepare_def Let_def act_then_def split: sum.splits prod.splits)
  then show ?thesis using that [of x] Inr q by simp
qed

lemma restore_structural_install:
  "structural_install env seq p s = Some s' \<Longrightarrow> restore_structural s s' = s"
  by (auto simp: structural_install_def restore_structural_def split: if_splits)

text \<open>C7: A structural edit is a transaction. When it succeeds, the buffer is the source its plan made of the live text, the
  span map and the metadata are those of that source, the result was derived from the same parse, the draft row
  holds that source under the new sequence number and the timer is armed. When it is refused at any point (by
  the plan, the lookup of links, the result, the draft row) the session, the row and the timer are what they
  were. The file is not touched.\<close>

theorem structural_edit_transaction:
  assumes "structural_edit env plan derive [id] w = Some (r, w')" and "draft_in_step w"
  shows "w_store w' = w_store w
    \<and> (case r of
         Inr (st, y) \<Rightarrow>
           (\<exists>x. plan (ns_source (w_session w)) (pn_spans (parsed env (ns_source (w_session w))))
                  (pn_ast (parsed env (ns_source (w_session w)))) (ns_spans (w_session w))
                = Inr (ns_source (w_session w'), x)
              \<and> derive (ns_source (w_session w')) (ns_spans (w_session w')) (ns_ast (w_session w')) x = Inr y)
           \<and> ns_spans (w_session w') = pn_spans (parsed env (ns_source (w_session w')))
           \<and> ns_metadata (w_session w') = metadata_of env (ns_source (w_session w')) (ns_spans (w_session w'))
                (md_last_modified (ns_metadata (w_session w)))
           \<and> st = note_state_from (w_session w')
           \<and> ns_seq (w_session w') = ns_seq (w_session w) + 1 \<and> w_timer w' \<and> draft_in_step w'
           \<and> map_option (\<lambda>row. (df_source row, df_seq row)) (w_draft w') =
               Some (ns_source (w_session w'), ns_seq (w_session w'))
       | Inl e \<Rightarrow> w_session w' = w_session w \<and> w_draft w' = w_draft w \<and> w_timer w' = w_timer w)"
proof (cases "refuse_while_conflicted (w_session w)")
  case (Inl e)
  then show ?thesis using assms(1) by auto
next
  case ok: (Inr u)
  let ?s = "w_session w"
  obtain r1 w1 where prep: "structural_prepare env plan derive (ns_source ?s) (ns_spans ?s) w = (r1, w1)"
    by (cases "structural_prepare env plan derive (ns_source ?s) (ns_spans ?s) w")
  note f1 = structural_prepare_frame [OF prep, unfolded outside_db_def]
  show ?thesis
  proof (cases r1)
    case (Inl e)
    then show ?thesis using assms(1) ok prep f1 by auto
  next
    case p: (Inr p)
    obtain x where x: "plan (ns_source ?s) (pn_spans (parsed env (ns_source ?s))) (pn_ast (parsed env (ns_source ?s)))
          (ns_spans ?s) = Inr (pr_source p, x)"
        "pr_spans p = pn_spans (parsed env (pr_source p))" "derive (pr_source p) (pr_spans p) (pr_ast p) x = Inr (pr_result p)"
      using prep p by (auto elim: structural_prepare_Inr)
    obtain s where s: "structural_install env (ns_seq ?s) p ?s = Some s"
        "ns_source s = pr_source p" "ns_spans s = pr_spans p" "ns_ast s = pr_ast p" "ns_seq s = ns_seq ?s + 1"
        "ns_metadata s = metadata_of env (pr_source p) (pr_spans p) (md_last_modified (ns_metadata ?s))"
        "ns_revision s = ns_revision ?s"
      by (auto simp: structural_install_def)
    obtain r2 w2 where d: "write_draft (ns_source s) (ns_seq s) (w1\<lparr>w_session := s\<rparr>) = (r2, w2)"
      by (cases "write_draft (ns_source s) (ns_seq s) (w1\<lparr>w_session := s\<rparr>)")
    note f2 = write_draft_effect [OF d]
    have frame: "w_session w2 = s" "w_store w2 = w_store w" "w_timer w2 = w_timer w" "w_session w1 = ?s"
      using f1 f2(1) by (simp_all add: outside_db_def)
    have "\<forall>row. w_draft w1 = Some row \<longrightarrow> df_seq row < ns_seq s"
      using assms(2) s(5) f1 by (auto simp: draft_in_step_def)
    then have row: "r2 = Inr () \<Longrightarrow>
        w_draft w2 = Some \<lparr>df_source = ns_source s, df_seq = ns_seq s, df_updated = w_now w\<rparr>"
      using f2(3) f1 by simp
    show ?thesis
    proof (cases r2)
      case (Inl e)
      have "take_back restore_structural ?s (ns_seq s) s = Some ?s"
        using s restore_structural_install [OF s(1)] by (simp add: take_back_def)
      then have "r = Inl e" "w' = w2\<lparr>w_session := ?s\<rparr>"
        using assms(1) ok prep p s(1) d Inl frame by simp_all
      then show ?thesis using frame f1 f2(2) Inl by simp
    next
      case [simp]: (Inr v)
      have "r = Inr (note_state_from s, pr_result p)" "w' = arm_idle_timer w2"
        using assms(1) ok prep p s(1) d frame by simp_all
      then show ?thesis
        using frame row s x by (auto simp: arm_idle_timer_def draft_in_step_def)
    qed
  qed
qed

text \<open>C37: The loop of a structural edit and that of a commit end: whatever other threads did during the earlier attempts, the
  first attempt in which nobody edits the note gives a result.\<close>

theorem edit_loops_end:
  assumes "\<And>v. ns_seq (w_session (quiet v)) = ns_seq (w_session v)"
  shows "structural_edit env plan derive (others @ [quiet]) w \<noteq> None \<and> commit_block env (others @ [quiet]) w \<noteq> None"
proof
  show "structural_edit env plan derive (others @ [quiet]) w \<noteq> None"
  proof (induction others arbitrary: w)
    case Nil
    have "structural_install env (ns_seq (w_session w)) p (w_session (quiet w1)) \<noteq> None"
      if "structural_prepare env plan derive (ns_source (w_session w)) (ns_spans (w_session w)) w = (Inr p, w1)" for p w1
      using structural_prepare_frame [OF that] assms [of w1] by (simp add: structural_install_def outside_db_def)
    then show ?case by (auto simp: Let_def split: sum.splits prod.splits option.splits)
  next
    case (Cons other others)
    then show ?case by (auto simp: Let_def split: sum.splits prod.splits option.splits)
  qed
  show "commit_block env (others @ [quiet]) w \<noteq> None"
  proof (induction others arbitrary: w)
    case Nil
    have "False" if "resolve_links env ast w = (Inr ast', w1)"
        "install_reparse env (ns_seq (w_session w)) src spans ast' (w_session (quiet w1)) = None" for ast ast' w1 src spans
      using on_db_frame [OF that(1) [unfolded resolve_links_def]] assms [of w1] that(2)
      by (simp add: install_reparse_def outside_db_def)
    then show ?case by (auto simp: Let_def split: sum.splits prod.splits option.splits)
  next
    case (Cons other others)
    then show ?case by (auto simp: Let_def split: sum.splits prod.splits option.splits)
  qed
qed

end
