(* ===== verification/Flush_Laws.thy ===== *)
theory Flush_Laws
  imports Note_Laws
begin

section \<open>Writing through, reloading, closing and opening\<close>

text \<open>
  The file changes only when it holds the bytes the session last saw, and once it has changed the session knows;
  a draft row goes only when the file holds its text or a reload replaced it. The content hash is assumed not
  to collide on the text being written.
\<close>

abbreviation disk :: "note_env \<Rightarrow> note_world \<Rightarrow> string option" where
  "disk env w \<equiv> file_at (w_store w) (ne_path env)"

text \<open>Everything but the file store.\<close>

definition outside_store :: "note_world \<Rightarrow> note_world \<Rightarrow> bool" where
  "outside_store w w' \<longleftrightarrow> w_session w' = w_session w \<and> w_open w' = w_open w \<and> w_db w' = w_db w \<and> w_draft w' = w_draft w
     \<and> w_timer w' = w_timer w \<and> w_activity w' = w_activity w \<and> w_now w' = w_now w"

lemma on_store_frame: "on_store f w = (r, w') \<Longrightarrow> outside_store w w' \<and> f (w_store w) = (r, w_store w')"
  by (auto simp: on_store_def outside_store_def split: prod.splits)

lemma outside_store_trans: "outside_store w w' \<Longrightarrow> outside_store w' w'' \<Longrightarrow> outside_store w w''"
  by (simp add: outside_store_def)

lemma outside_store_refl [simp]: "outside_store w w"
  by (simp add: outside_store_def)

lemma read_file_effect:
  assumes "read_file env w = (r, w')"
  shows "outside_store w w'" "st_tree (w_store w') = st_tree (w_store w)"
    "r = Inr bytes \<Longrightarrow> disk env w = Some bytes" "r = Inl (NotFound n) \<Longrightarrow> disk env w = None"
proof -
  obtain r1 w1 where 1: "on_store (fs_read (ne_path env)) w = (r1, w1)" by (cases "on_store (fs_read (ne_path env)) w")
  have w': "w' = w1" "r = (case r1 of Inr b \<Rightarrow> Inr b
      | Inl e \<Rightarrow> Inl (if e = NotFoundErr then NotFound (ne_note env) else IoError ''read''))"
    using assms 1 by (auto simp: read_file_def split: sum.splits)
  note f = on_store_frame [OF 1]
  show "outside_store w w'" using f w' by simp
  note e = fs_read_effect [OF f [THEN conjunct2]]
  show "st_tree (w_store w') = st_tree (w_store w)" using e w' by simp
  show "r = Inr bytes \<Longrightarrow> disk env w = Some bytes" "r = Inl (NotFound n) \<Longrightarrow> disk env w = None"
    using e w' by (auto simp: file_at_def split: sum.splits if_splits)
qed

lemma mkdir_loop_files:
  "(case map_of (snd (mkdir_loop t pre cs)) q of Some (NFile b _) \<Rightarrow> Some b | _ \<Rightarrow> None) =
   (case map_of t q of Some (NFile b _) \<Rightarrow> Some b | _ \<Rightarrow> None)"
proof (induction t pre cs rule: mkdir_loop.induct)
  case (2 t pre c cs)
  show ?case
  proof (cases "map_of t (pre @ [c])")
    case None
    have "map_of (AList.update (pre @ [c]) NDir t) q = (if q = pre @ [c] then Some NDir else map_of t q)"
      by (simp add: update_conv')
    then show ?thesis using "2.IH"(1) [OF refl None] None by (auto simp: Let_def)
  next
    case (Some n)
    then show ?thesis using "2.IH"(2) [OF refl] by (cases n) simp_all
  qed
qed simp

lemma create_dir_all_files: "fs_create_dir_all p st = (r, st') \<Longrightarrow> file_at st' q = file_at st q"
  unfolding fs_create_dir_all_def file_at_def
  by (elim sysE) (simp_all add: mkdir_loop_files)

lemma fs_is_dir_tree: "fs_is_dir p st = (b, st') \<Longrightarrow> st_tree st' = st_tree st"
  unfolding fs_is_dir_def by (auto split: prod.splits sum.splits elim!: sysE)

lemma ensure_containing_directory_effect:
  assumes "ensure_containing_directory env w = (r, w')"
  shows "outside_store w w' \<and> disk env w' = disk env w"
proof (cases "ne_path env = []")
  case True
  then show ?thesis using assms by (simp add: ensure_containing_directory_def)
next
  case False
  obtain b w1 where 1: "on_store (fs_is_dir (butlast (ne_path env))) w = (b, w1)"
    by (cases "on_store (fs_is_dir (butlast (ne_path env))) w")
  note f1 = on_store_frame [OF 1]
  have t: "disk env w1 = disk env w" using fs_is_dir_tree [OF f1 [THEN conjunct2]] by (simp add: file_at_def)
  show ?thesis
  proof (cases b)
    case True
    then show ?thesis using assms False 1 f1 t by (simp add: ensure_containing_directory_def)
  next
    case nd: False
    obtain r2 w2 where 2: "on_store (fs_create_dir_all (butlast (ne_path env))) w1 = (r2, w2)"
      by (cases "on_store (fs_create_dir_all (butlast (ne_path env))) w1")
    note f2 = on_store_frame [OF 2]
    have "w' = w2" using assms False 1 nd 2 by (cases r2) (simp_all add: ensure_containing_directory_def)
    then show ?thesis
      using t f1 f2 outside_store_trans create_dir_all_files [OF f2 [THEN conjunct2]] by metis
  qed
qed

subsection \<open>Publishing\<close>

definition collision_free :: "note_env \<Rightarrow> string \<Rightarrow> bool" where
  "collision_free env src \<longleftrightarrow> (\<forall>b. ne_hash env b = ne_hash env src \<longrightarrow> b = src)"

lemma write_bytes_effect:
  assumes "act_then (act_then m (\<lambda>_. on_store (atomic_write (ne_path env) src))) (\<lambda>_. act_ret h) w = (r, w')"
    and m: "\<And>r0 w0. m w = (r0, w0) \<Longrightarrow> outside_store w w0 \<and> disk env w0 = disk env w"
    and p: "file_path (ne_path env)"
  shows "outside_store w w' \<and> (case r of Inr v \<Rightarrow> v = h \<and> disk env w' = Some src | Inl e \<Rightarrow> disk env w' = disk env w)"
proof -
  obtain r0 w0 where 0: "m w = (r0, w0)" by (cases "m w")
  note f0 = m [OF 0]
  show ?thesis
  proof (cases r0)
    case (Inl e)
    then show ?thesis using assms(1) 0 f0 by (auto simp: act_then_def)
  next
    case (Inr u)
    obtain r1 w1 where 1: "on_store (atomic_write (ne_path env) src) w0 = (r1, w1)"
      by (cases "on_store (atomic_write (ne_path env) src) w0")
    note f1 = on_store_frame [OF 1]
    have "w' = w1" "r = map_sum id (\<lambda>_. h) r1"
      using assms(1) 0 Inr 1 by (auto simp: act_then_def act_ret_def split: sum.splits)
    moreover have "outside_store w w1" using f0 f1 outside_store_trans by blast
    ultimately show ?thesis
      using f0 f1 files.put_ok [OF p] files.put_err [OF p] by (cases r1) auto
  qed
qed

lemma publish_effect:
  assumes "publish env src revision w = (r, w')" and p: "file_path (ne_path env)" and hash: "collision_free env src"
  shows "outside_store w w'"
    and "\<And>e. r = Inl e \<Longrightarrow> disk env w' = disk env w"
    and "\<And>h. r = Inr h \<Longrightarrow> h = ne_hash env src \<and> disk env w' = Some src
      \<and> (case disk env w of Some b \<Rightarrow> ne_hash env b = revision
         | None \<Rightarrow> ns_awaiting (w_session w) \<and> ne_hash env ABSENT_FILE = revision)"
proof -
  obtain r1 w1 where 1: "read_file env w = (r1, w1)" by (cases "read_file env w")
  note f1 = read_file_effect [OF 1]
  have d1: "disk env w1 = disk env w" using f1(2) by (simp add: file_at_def)
  have s1: "ns_awaiting (w_session w1) = ns_awaiting (w_session w)" using f1(1) by (simp add: outside_store_def)
  note dirs = ensure_containing_directory_effect [of env w1]
  have "outside_store w w'
    \<and> (case r of Inl e \<Rightarrow> disk env w' = disk env w
       | Inr h \<Rightarrow> h = ne_hash env src \<and> disk env w' = Some src
           \<and> (case disk env w of Some b \<Rightarrow> ne_hash env b = revision
              | None \<Rightarrow> ns_awaiting (w_session w) \<and> ne_hash env ABSENT_FILE = revision))"
  proof (cases r1)
    case (Inl e)
    show ?thesis
    proof (cases "(\<exists>n. e = NotFound n) \<and> ns_awaiting (w_session w) \<and> ne_hash env ABSENT_FILE = revision")
      case True
      then obtain n where e: "e = NotFound n" by blast
      have none: "disk env w = None" using f1(4) Inl e by simp
      have "act_then (act_then (ensure_containing_directory env) (\<lambda>_. on_store (atomic_write (ne_path env) src)))
          (\<lambda>_. act_ret (ne_hash env src)) w1 = (r, w')"
        using assms(1) 1 Inl e True by (simp add: publish_def)
      from write_bytes_effect [OF this dirs p] show ?thesis
        using True none f1(1) d1 outside_store_trans by (auto split: sum.splits)
    next
      case False
      then have "w' = w1 \<and> (\<exists>e'. r = Inl e')"
        using assms(1) 1 Inl by (auto simp: publish_def Let_def split: app_error.splits if_splits)
      then show ?thesis using f1(1) d1 by auto
    qed
  next
    case (Inr b)
    have b: "disk env w = Some b" using f1(3) Inr by simp
    show ?thesis
    proof (cases "ne_hash env b = revision")
      case False
      then show ?thesis using assms(1) 1 Inr f1(1) d1 by (auto simp: publish_def)
    next
      case same: True
      show ?thesis
      proof (cases "ne_hash env src = ne_hash env b \<and> \<not> ns_awaiting (w_session w)")
        case True
        then have bs: "b = src" using hash by (auto simp: collision_free_def)
        have "publish env src revision w = (Inr (ne_hash env src), w1)"
          unfolding publish_def Let_def 1 Inr prod.case sum.case using same True by presburger
        then have "r = Inr (ne_hash env src)" "w' = w1" using assms(1) by simp_all
        then show ?thesis using f1(1) d1 b same unfolding bs by simp
      next
        case False
        let ?m = "if ns_awaiting (w_session w) then ensure_containing_directory env else act_ret ()"
        have "publish env src revision w =
            act_then (act_then ?m (\<lambda>_. on_store (atomic_write (ne_path env) src))) (\<lambda>_. act_ret (ne_hash env src)) w1"
          unfolding publish_def Let_def 1 Inr prod.case sum.case using same False by presburger
        then have "act_then (act_then ?m (\<lambda>_. on_store (atomic_write (ne_path env) src))) (\<lambda>_. act_ret (ne_hash env src)) w1 = (r, w')"
          using assms(1) by simp
        moreover have "outside_store w1 w0 \<and> disk env w0 = disk env w1" if "?m w1 = (r0, w0)" for r0 w0
          using that dirs by (auto simp: act_ret_def split: if_splits)
        ultimately have "outside_store w1 w' \<and> (case r of Inr v \<Rightarrow> v = ne_hash env src \<and> disk env w' = Some src
            | Inl e \<Rightarrow> disk env w' = disk env w1)"
          using p by (rule write_bytes_effect)
        then show ?thesis
          using b same f1(1) d1 outside_store_trans by (auto split: sum.splits)
      qed
    qed
  qed
  then show "outside_store w w'" "\<And>e. r = Inl e \<Longrightarrow> disk env w' = disk env w"
    "\<And>h. r = Inr h \<Longrightarrow> h = ne_hash env src \<and> disk env w' = Some src
      \<and> (case disk env w of Some b \<Rightarrow> ne_hash env b = revision
         | None \<Rightarrow> ns_awaiting (w_session w) \<and> ne_hash env ABSENT_FILE = revision)" by auto
qed

subsection \<open>The whole write\<close>

text \<open>What the session holds of the note, as opposed to what it knows of the disk.\<close>

definition same_text :: "note_session \<Rightarrow> note_session \<Rightarrow> bool" where
  "same_text s s' \<longleftrightarrow> ns_source s' = ns_source s \<and> ns_spans s' = ns_spans s \<and> ns_ast s' = ns_ast s \<and> ns_seq s' = ns_seq s
     \<and> ns_edited s' = ns_edited s \<and> ns_closed s' = ns_closed s \<and> ns_conflicted s' = ns_conflicted s
     \<and> ns_restored s' = ns_restored s"

definition cleared_through :: "int \<Rightarrow> draft_row option \<Rightarrow> draft_row option" where
  "cleared_through seq row = (case row of None \<Rightarrow> None | Some d \<Rightarrow> if df_seq d \<le> seq then None else Some d)"

text \<open>The disk holds what the session last saw: a file with the recorded hash, or no file for a session that is to
  recreate it.\<close>

definition disk_as_known :: "note_env \<Rightarrow> string \<Rightarrow> note_world \<Rightarrow> bool" where
  "disk_as_known env revision w \<longleftrightarrow> (case disk env w of
       Some b \<Rightarrow> ne_hash env b = revision
     | None \<Rightarrow> ns_awaiting (w_session w) \<and> ne_hash env ABSENT_FILE = revision)"

lemma write_locked_cases:
  assumes "write_locked env src seq revision w = (r, w')" and "file_path (ne_path env)" and "collision_free env src"
  obtains (unpublished) e where "r = Inl e" "disk env w' = disk env w" "w_draft w' = w_draft w"
      "w_session w' = w_session w" "w_open w' = w_open w" "w_timer w' = w_timer w"
      "w_activity w' = w_activity w"
  | (published) "disk env w' = Some src" "ns_revision (w_session w') = ne_hash env src" "\<not> ns_awaiting (w_session w')"
      "disk_as_known env revision w" "same_text (w_session w) (w_session w')"
      "w_draft w' = w_draft w \<or> w_draft w' = cleared_through seq (w_draft w)"
      "w_open w' = w_open w" "w_timer w' = w_timer w" "w_activity w' = w_activity w"
      "\<And>h. r = Inr h \<Longrightarrow> h = ne_hash env src \<and> w_draft w' = cleared_through seq (w_draft w)
         \<and> ns_error (w_session w') = None \<and> ns_unwritten (w_session w') = (seq < ns_seq (w_session w))"
      "\<And>e. r = Inl e \<Longrightarrow> ns_unwritten (w_session w') = ns_unwritten (w_session w)"
proof -
  obtain r1 w1 where 1: "publish env src revision w = (r1, w1)" by (cases "publish env src revision w")
  note p = publish_effect [OF 1 assms(2,3), unfolded outside_store_def]
  show ?thesis
  proof (cases r1)
    case (Inl e)
    then have "r = Inl e" "w' = w1" using assms(1) 1 by (simp_all add: write_locked_def act_then_def)
    then show ?thesis using unpublished p(1) p(2) Inl by simp
  next
    case (Inr h)
    note ph = p(3) [OF Inr]
    let ?w2 = "in_session (record_revision h) w1"
    obtain r3 w3 where 3: "clear_draft_through seq ?w2 = (r3, w3)" by (cases "clear_draft_through seq ?w2")
    note f3 = clear_draft_effect [OF 3, unfolded outside_db_def]
    have s3: "w_session w3 = record_revision h (w_session w)" "disk env w3 = Some src" "w_open w3 = w_open w" "w_timer w3 = w_timer w"
        "w_activity w3 = w_activity w"
      using f3(1) p(1) ph by (simp_all add: in_session_def)
    have known: "disk_as_known env revision w" using ph by (simp add: disk_as_known_def)
    have d3: "w_draft w3 = (if r3 = Inr () then cleared_through seq (w_draft w) else w_draft w)"
      using f3(2,3) p(1) by (auto simp: in_session_def cleared_through_def split: option.splits)
    show ?thesis
    proof (cases r3)
      case (Inl e)
      then have "r = Inl e" "w' = w3" using assms(1) 1 Inr 3 by (simp_all add: write_locked_def act_then_def)
      then show ?thesis using published s3 known d3 Inl ph by (simp add: record_revision_def same_text_def)
    next
      case r3: (Inr u)
      obtain r4 w4 where 4: "index_source env src h w3 = (r4, w4)" by (cases "index_source env src h w3")
      note f4 = on_db_frame [OF 4 [unfolded index_source_def], unfolded outside_db_def]
      show ?thesis
      proof (cases r4)
        case (Inl e)
        then have "r = Inl e" "w' = w4" using assms(1) 1 Inr 3 r3 4 by (simp_all add: write_locked_def act_then_def)
        then show ?thesis using published s3 known d3 r3 f4 ph by (simp add: record_revision_def same_text_def)
      next
        case (Inr v)
        then have eqs: "r = Inr h" "w' = in_session (settle_write (w_now w4) seq) w4"
          using assms(1) 1 \<open>r1 = Inr h\<close> 3 r3 4 by (simp_all add: write_locked_def act_then_def)
        have f: "w_session w4 = record_revision h (w_session w)" "disk env w4 = Some src" "w_open w4 = w_open w"
            "w_timer w4 = w_timer w" "w_activity w4 = w_activity w" "w_draft w4 = cleared_through seq (w_draft w)"
          using f4 s3 d3 r3 by simp_all
        show ?thesis
          by (rule published)
            (use f known ph in \<open>simp_all add: eqs record_revision_def same_text_def in_session_def settle_write_def\<close>)
      qed
    qed
  qed
qed

lemma flush_effect:
  assumes "flush_covering env w = (r, w')" and "\<not> ns_closed (w_session w)"
    and "file_path (ne_path env)" and "collision_free env (ns_source (w_session w))"
  shows "same_text (w_session w) (w_session w') \<and> w_open w' = w_open w \<and> w_activity w' = w_activity w
    \<and> (disk env w' = disk env w \<and> w_draft w' = w_draft w \<and> ns_revision (w_session w') = ns_revision (w_session w)
         \<and> (\<exists>e. r = Inl e \<and> ns_error (w_session w') = Some e)
       \<or> disk_as_known env (ns_revision (w_session w)) w \<and> disk env w' = Some (ns_source (w_session w))
         \<and> ns_revision (w_session w') = ne_hash env (ns_source (w_session w))
         \<and> (w_draft w' = w_draft w \<or> w_draft w' = cleared_through (ns_seq (w_session w)) (w_draft w))
         \<and> (\<forall>through. r = Inr through \<longrightarrow> wt_seq through = ns_seq (w_session w)
              \<and> wt_revision through = ne_hash env (ns_source (w_session w))
              \<and> w_draft w' = cleared_through (ns_seq (w_session w)) (w_draft w) \<and> \<not> ns_unwritten (w_session w')))"
proof -
  let ?s = "w_session w"
  obtain r1 w1 where 1: "write_locked env (ns_source ?s) (ns_seq ?s) (ns_revision ?s) w = (r1, w1)"
    by (cases "write_locked env (ns_source ?s) (ns_seq ?s) (ns_revision ?s) w")
  have w': "r = map_sum id (\<lambda>h. \<lparr>wt_revision = h, wt_seq = ns_seq ?s\<rparr>) r1"
      "w' = (case r1 of Inr _ \<Rightarrow> w1 | Inl e \<Rightarrow> in_session (\<lambda>s. s\<lparr>ns_error := Some e\<rparr>) w1)"
    using assms(1,2) 1 by (auto simp: flush_covering_def Let_def split: sum.splits)
  from 1 assms(3,4) show ?thesis
  proof (cases rule: write_locked_cases)
    case (unpublished e)
    then show ?thesis using w' by (simp add: in_session_def same_text_def)
  next
    case published
    then show ?thesis using w' by (cases r1) (simp_all add: in_session_def same_text_def)
  qed
qed

text \<open>C3: Writing a note through touches the file only when the file holds the bytes the session last saw (or is absent as
  recorded); a file that changed underneath is left alone, whatever happens. If it does touch it, the file holds the
  whole buffer and the session knows it, even when a later statement fails, so that the next write is not refused
  by its own bytes. On success the draft row is gone unless it holds a newer edit; on failure the row may only be
  gone when the file holds the buffer. The buffer never changes.\<close>

theorem flush_writes_only_known_bytes:
  assumes "flush_covering env w = (r, w')" and "\<not> ns_closed (w_session w)"
    and "file_path (ne_path env)" and "collision_free env (ns_source (w_session w))"
  shows "same_text (w_session w) (w_session w') \<and> w_open w' = w_open w
    \<and> (disk env w' = disk env w \<and> w_draft w' = w_draft w \<and> ns_revision (w_session w') = ns_revision (w_session w)
         \<and> (\<exists>e. r = Inl e \<and> ns_error (w_session w') = Some e)
       \<or> disk_as_known env (ns_revision (w_session w)) w \<and> disk env w' = Some (ns_source (w_session w))
         \<and> ns_revision (w_session w') = ne_hash env (ns_source (w_session w))
         \<and> (w_draft w' = w_draft w \<or> w_draft w' = cleared_through (ns_seq (w_session w)) (w_draft w))
         \<and> (\<forall>through. r = Inr through \<longrightarrow> wt_seq through = ns_seq (w_session w)
              \<and> wt_revision through = ne_hash env (ns_source (w_session w))
              \<and> w_draft w' = cleared_through (ns_seq (w_session w)) (w_draft w) \<and> \<not> ns_unwritten (w_session w')))"
  using flush_effect [OF assms] by blast

subsection \<open>Reload\<close>

lemma reload_effect:
  assumes "reload env w = (r, w')"
  shows "disk env w' = disk env w \<and> w_open w' = w_open w
    \<and> (case r of
         Inl e \<Rightarrow> w_session w' = w_session w \<and> w_draft w' = w_draft w
       | Inr st \<Rightarrow> \<exists>b. disk env w = Some b \<and> valid_utf8 b \<and> w_draft w' = None
           \<and> ns_source (w_session w') = b \<and> ns_spans (w_session w') = pn_spans (parsed env b)
           \<and> ns_revision (w_session w') = ne_hash env b \<and> ns_seq (w_session w') = ns_seq (w_session w)
           \<and> \<not> ns_unwritten (w_session w') \<and> \<not> ns_awaiting (w_session w')
           \<and> (ns_conflicted (w_session w') \<longleftrightarrow>
                conflict_suggestions (ne_pulldown env) b (containing_dir (ne_note env)) \<noteq> None))"
proof -
  obtain r1 w1 where 1: "read_file env w = (r1, w1)" by (cases "read_file env w")
  note f1 = read_file_effect [OF 1]
  have s1: "disk env w1 = disk env w" "w_session w1 = w_session w" "w_draft w1 = w_draft w" "w_open w1 = w_open w"
    using f1(1,2) by (simp_all add: file_at_def outside_store_def)
  show ?thesis
  proof (cases "\<exists>b. r1 = Inr b \<and> valid_utf8 b")
    case False
    then have "w' = w1 \<and> (\<exists>e. r = Inl e)"
      using assms 1 by (auto simp: reload_def act_then_def decode_source_def split: sum.splits)
    then show ?thesis using s1 by auto
  next
    case True
    then obtain b where b: "r1 = Inr b" "valid_utf8 b" by blast
    let ?pn = "parsed env b"
    let ?c = "conflict_suggestions (ne_pulldown env) b (containing_dir (ne_note env))"
    obtain r2 w2 where 2: "resolve_links env (case ?c of None \<Rightarrow> pn_ast ?pn | Some nodes \<Rightarrow> nodes) w1 = (r2, w2)"
      by (cases "resolve_links env (case ?c of None \<Rightarrow> pn_ast ?pn | Some nodes \<Rightarrow> nodes) w1")
    note f2 = on_db_frame [OF 2 [unfolded resolve_links_def], unfolded outside_db_def]
    have eq: "reload env w = act_then (\<lambda>_. (r2, w2)) (\<lambda>ast. act_then (on_draft (\<lambda>_. None)) (\<lambda>_ w.
        let s = reloaded env b (pn_spans ?pn) ast (?c \<noteq> None) (ne_mtime env (w_store w)) (w_session w)
        in (Inr (note_state_from s), w\<lparr>w_session := s\<rparr>))) w"
      using 1 2 b by (simp add: reload_def act_then_def decode_source_def Let_def)
    show ?thesis
    proof (cases r2)
      case (Inl e)
      then show ?thesis using assms eq f2 s1 by (auto simp: act_then_def)
    next
      case (Inr ast)
      obtain r3 w3 where 3: "on_draft (\<lambda>_. None) w2 = (r3, w3)" by (cases "on_draft (\<lambda>_. None) w2")
      note f3 = on_draft_effect [OF 3, unfolded outside_db_def]
      show ?thesis
      proof (cases r3)
        case (Inl e)
        then have "r = Inl e" "w' = w3" using assms eq Inr 3 by (simp_all add: act_then_def)
        then show ?thesis using f2 f3 s1 Inl by simp
      next
        case r3: (Inr u)
        let ?s = "reloaded env b (pn_spans ?pn) ast (?c \<noteq> None) (ne_mtime env (w_store w3)) (w_session w3)"
        have "r = Inr (note_state_from ?s)" "w' = w3\<lparr>w_session := ?s\<rparr>"
          using assms eq Inr 3 r3 by (simp_all add: act_then_def Let_def)
        then show ?thesis using f1(3) [OF b(1)] b(2) f2 f3 s1 r3 by (simp add: reloaded_def)
      qed
    qed
  qed
qed

text \<open>C12: A reload gives up the buffered text only for bytes it has in hand. When it fails (the file is gone, cannot be
  read, is not text, or a statement fails) the session and the draft row are what they were. When it succeeds the
  buffer is the file, the revision is the hash of the file, the row is gone, and the note counts as conflicted
  exactly when the file holds a conflict.\<close>

theorem reload_keeps_draft_on_failure:
  assumes "reload env w = (r, w')"
  shows "disk env w' = disk env w \<and> w_open w' = w_open w
    \<and> (case r of
         Inl e \<Rightarrow> w_session w' = w_session w \<and> w_draft w' = w_draft w
       | Inr st \<Rightarrow> \<exists>b. disk env w = Some b \<and> valid_utf8 b \<and> w_draft w' = None
           \<and> ns_source (w_session w') = b \<and> ns_spans (w_session w') = pn_spans (parsed env b)
           \<and> ns_revision (w_session w') = ne_hash env b \<and> ns_seq (w_session w') = ns_seq (w_session w)
           \<and> \<not> ns_unwritten (w_session w') \<and> \<not> ns_awaiting (w_session w')
           \<and> (ns_conflicted (w_session w') \<longleftrightarrow>
                conflict_suggestions (ne_pulldown env) b (containing_dir (ne_note env)) \<noteq> None))"
  using assms by (rule reload_effect)

subsection \<open>Close\<close>

lemma clear_after_flush:
  "cleared_through seq d' = d' \<Longrightarrow> d' = d \<or> d' = cleared_through seq d \<Longrightarrow> d' = cleared_through seq d"
  by auto


subsection \<open>Open\<close>

text \<open>What a note opened now would show: the draft row in preference to the file.\<close>

definition recoverable :: "note_env \<Rightarrow> note_world \<Rightarrow> string option" where
  "recoverable env w = (case w_draft w of Some row \<Rightarrow> Some (df_source row) | None \<Rightarrow> disk env w)"

lemma open_over_effect:
  assumes "open_over env bytes draft w = (r, w')" and "\<not> w_open w" and "bytes = disk env w" and "draft = w_draft w"
  shows "disk env w' = disk env w \<and> w_draft w' = w_draft w
    \<and> (\<forall>st. r = Inr st \<longrightarrow> w_open w' \<and> recoverable env w = Some (ns_source (w_session w')) \<and> draft_in_step w'
           \<and> ns_spans (w_session w') = pn_spans (parsed env (ns_source (w_session w')))
           \<and> disk_as_known env (ns_revision (w_session w')) w'
           \<and> (w_timer w' \<longleftrightarrow> w_draft w \<noteq> None) \<and> (ns_unwritten (w_session w') \<longleftrightarrow> w_draft w \<noteq> None)
           \<and> ns_seq (w_session w') = (case w_draft w of Some row \<Rightarrow> df_seq row | None \<Rightarrow> 0))"
proof -
  let ?choice = "case (draft, bytes) of
      (Some row, _) \<Rightarrow> Inr (df_source row, df_seq row)
    | (None, Some b) \<Rightarrow> and_then (decode_source b) (\<lambda>src. Inr (src, 0))
    | (None, None) \<Rightarrow> Inl (NotFound (ne_note env))"
  show ?thesis
  proof (cases ?choice)
    case (Inl e)
    then show ?thesis using assms(1) by (auto simp: open_over_def)
  next
    case (Inr c)
    obtain src seq where c: "c = (src, seq)" by (cases c)
    have chosen: "recoverable env w = Some src" "seq = (case w_draft w of Some row \<Rightarrow> df_seq row | None \<Rightarrow> 0)"
      using Inr c assms(3,4) unfolding recoverable_def
      by (auto simp: decode_source_def split: option.splits if_splits)
    obtain r3 w3 where 3: "resolve_links env (pn_ast (parsed env src)) w = (r3, w3)"
      by (cases "resolve_links env (pn_ast (parsed env src)) w")
    note f3 = on_db_frame [OF 3 [unfolded resolve_links_def], unfolded outside_db_def]
    show ?thesis
    proof (cases r3)
      case (Inl e)
      then show ?thesis using assms(1) Inr c 3 f3 by (auto simp: open_over_def act_then_def)
    next
      case r3: (Inr ast)
      obtain modified where "w' = w3\<lparr>w_session := opened_session env src (pn_spans (parsed env src)) ast seq
            (ne_hash env (case bytes of None \<Rightarrow> ABSENT_FILE | Some b \<Rightarrow> b)) (draft \<noteq> None) (bytes = None) modified,
          w_open := True, w_timer := (draft \<noteq> None)\<rparr>"
        using assms(1) Inr c 3 r3 unfolding open_over_def by (fastforce simp: act_then_def Let_def)
      then show ?thesis
        using f3 chosen assms(3,4)
        by (auto simp: opened_session_def disk_as_known_def draft_in_step_def split: option.splits)
    qed
  qed
qed

lemma read_draft_effect:
  "read_draft w = (r, w') \<Longrightarrow> outside_db w w' \<and> w_draft w' = w_draft w \<and> (\<forall>d. r = Inr d \<longrightarrow> d = w_draft w)"
  by (auto simp: read_draft_def act_then_def on_db_def outside_db_def statement_def Let_def
      split: sum.splits prod.splits list.splits option.splits)

lemma open_note_effect:
  assumes "open_note env located w = (Inr st, w')" and "\<not> w_open w"
  shows "disk env w' = disk env w \<and> w_draft w' = w_draft w
    \<and> w_open w' \<and> recoverable env w = Some (ns_source (w_session w')) \<and> draft_in_step w'
    \<and> ns_spans (w_session w') = pn_spans (parsed env (ns_source (w_session w')))
    \<and> disk_as_known env (ns_revision (w_session w')) w'
    \<and> (w_timer w' \<longleftrightarrow> w_draft w \<noteq> None) \<and> (ns_unwritten (w_session w') \<longleftrightarrow> w_draft w \<noteq> None)
    \<and> ns_seq (w_session w') = (case w_draft w of Some row \<Rightarrow> df_seq row | None \<Rightarrow> 0)"
proof -
  obtain r1 w1 where 1: "on_store (fs_read (ne_path env)) w = (r1, w1)" by (cases "on_store (fs_read (ne_path env)) w")
  note f1 = on_store_frame [OF 1]
  note rd = fs_read_effect [OF f1 [THEN conjunct2]]
  have s1: "disk env w1 = disk env w" "w_draft w1 = w_draft w" "w_open w1 = w_open w"
    using f1 rd by (auto simp: file_at_def outside_store_def)
  obtain bytes where o: "act_then read_draft (open_over env bytes) w1 = (Inr st, w')" "bytes = disk env w"
    using assms 1 rd by (auto simp: open_note_def file_at_def split: sum.splits if_splits)
  obtain d w2 where 2: "read_draft w1 = (Inr d, w2)" "open_over env bytes d w2 = (Inr st, w')"
    using o(1) by (auto simp: act_then_Inr)
  note f2 = read_draft_effect [OF 2(1), unfolded outside_db_def]
  have "recoverable env w2 = recoverable env w" using f2 s1 by (auto simp: recoverable_def split: option.splits)
  then show ?thesis
    using open_over_effect [OF 2(2)] f2 s1 assms(2) o(2) by simp
qed

text \<open>C9: A note is opened with the text of its draft row when there is one (even when its file is gone), else with its
  file; the row and the file stay as they are, and recovered text is on its way to disk: the timer is armed and the
  session counts as unwritten. The recorded revision is that of the file as it is, so the first write is not refused.\<close>

theorem open_recovers_work:
  assumes "open_note env located w = (Inr st, w')" and "\<not> w_open w"
  shows "recoverable env w = Some (ns_source (w_session w')) \<and> w_draft w' = w_draft w \<and> disk env w' = disk env w
    \<and> w_open w' \<and> draft_in_step w' \<and> disk_as_known env (ns_revision (w_session w')) w'
    \<and> (w_timer w' \<longleftrightarrow> w_draft w \<noteq> None) \<and> (ns_unwritten (w_session w') \<longleftrightarrow> w_draft w \<noteq> None)
    \<and> ns_spans (w_session w') = pn_spans (parsed env (ns_source (w_session w')))"
  using open_note_effect [OF assms] by simp

end
