(* ===== verification/Tier_Steps.thy ===== *)
theory Tier_Steps
  imports Flush_Laws
begin

section \<open>A typist and the idle writer\<close>

text \<open>
  The critical sections of one open note interleaved: a thread that edits (it holds the tier-1 lock from the
  installation of an edit to the end of its draft write), a thread that writes through (it holds the write lock
  from its snapshot to its last statement), and a reload. The state lock and the connection are held only inside a
  step. What a crash leaves is the world at any point; what a later open shows is \<open>recoverable\<close>.
\<close>

datatype edit_kind = Buffered | Structural

fun restore_of :: "edit_kind \<Rightarrow> note_session \<Rightarrow> note_session \<Rightarrow> note_session" where
  "restore_of Buffered = restore_buffered"
| "restore_of Structural = restore_structural"

text \<open>The editing thread: nothing in flight, an installed edit whose row is not written yet, or one whose row was
  refused. The session is the one before the edit, with the snapshot that is to be written.\<close>

datatype edit_phase =
    EIdle
  | EPending edit_kind note_session string int
  | EFailed edit_kind note_session int

text \<open>The writing thread, with its snapshot and, once the bytes are out, their revision.\<close>

datatype write_phase =
    WIdle
  | WSnapped string int string
  | WPublished string int string
  | WRecorded string int string
  | WCleared string int string

record machine =
  m_world :: note_world
  m_edit :: edit_phase
  m_write :: write_phase

abbreviation m_session :: "machine \<Rightarrow> note_session" where
  "m_session m \<equiv> w_session (m_world m)"

definition with_error :: "app_error \<Rightarrow> note_world \<Rightarrow> note_world" where
  "with_error e w = in_session (\<lambda>s. s\<lparr>ns_error := Some e\<rparr>) w"

text \<open>One section. The flag says whether draft statements may fail.\<close>

inductive tier_step :: "note_env \<Rightarrow> bool \<Rightarrow> machine \<Rightarrow> machine \<Rightarrow> bool" for env faulty where
  keystroke:
    "m_edit m = EIdle \<Longrightarrow> buffer_edit path new (m_session m) = Inr s \<Longrightarrow>
     tier_step env faulty m (m\<lparr>m_world := (m_world m)\<lparr>w_session := s\<rparr>,
       m_edit := EPending Buffered (m_session m) (ns_source s) (ns_seq s)\<rparr>)"
| structural:
    "m_edit m = EIdle \<Longrightarrow> structural_install env seq (p :: unit prepared) (m_session m) = Some s \<Longrightarrow>
     tier_step env faulty m (m\<lparr>m_world := (m_world m)\<lparr>w_session := s\<rparr>,
       m_edit := EPending Structural (m_session m) (ns_source s) (ns_seq s)\<rparr>)"
| reparse:
    "install_reparse env seq src spans ast (m_session m) = Some s \<Longrightarrow>
     tier_step env faulty m (m\<lparr>m_world := (m_world m)\<lparr>w_session := s\<rparr>\<rparr>)"
| draft_written:
    "m_edit m = EPending kind previous snap seq \<Longrightarrow> write_draft snap seq (m_world m) = (Inr u, w) \<Longrightarrow>
     tier_step env faulty m (m\<lparr>m_world := arm_idle_timer w, m_edit := EIdle\<rparr>)"
| draft_refused:
    "faulty \<Longrightarrow> m_edit m = EPending kind previous snap seq \<Longrightarrow> write_draft snap seq (m_world m) = (Inl e, w) \<Longrightarrow>
     tier_step env faulty m (m\<lparr>m_world := w, m_edit := EFailed kind previous seq\<rparr>)"
| taken_back:
    "m_edit m = EFailed kind previous seq \<Longrightarrow> take_back (restore_of kind) previous seq (m_session m) = Some s \<Longrightarrow>
     tier_step env faulty m (m\<lparr>m_world := (m_world m)\<lparr>w_session := s\<rparr>, m_edit := EIdle\<rparr>)"
| kept:
    "m_edit m = EFailed kind previous seq \<Longrightarrow> take_back (restore_of kind) previous seq (m_session m) = None \<Longrightarrow>
     tier_step env faulty m (m\<lparr>m_world := arm_idle_timer (m_world m), m_edit := EIdle\<rparr>)"
| timer_fires:
    "m_write m = WIdle \<Longrightarrow> w_timer (m_world m) \<Longrightarrow> \<not> ns_closed (m_session m) \<Longrightarrow>
     tier_step env faulty m (m\<lparr>m_world := (m_world m)\<lparr>w_timer := False\<rparr>,
       m_write := WSnapped (ns_source (m_session m)) (ns_seq (m_session m)) (ns_revision (m_session m))\<rparr>)"
| flush_called:
    "m_write m = WIdle \<Longrightarrow> \<not> ns_closed (m_session m) \<Longrightarrow>
     tier_step env faulty m (m\<lparr>m_write :=
       WSnapped (ns_source (m_session m)) (ns_seq (m_session m)) (ns_revision (m_session m))\<rparr>)"
| published:
    "m_write m = WSnapped src seq revision \<Longrightarrow> publish env src revision (m_world m) = (Inr h, w) \<Longrightarrow>
     tier_step env faulty m (m\<lparr>m_world := w, m_write := WPublished src seq h\<rparr>)"
| publish_refused:
    "m_write m = WSnapped src seq revision \<Longrightarrow> publish env src revision (m_world m) = (Inl e, w) \<Longrightarrow>
     tier_step env faulty m (m\<lparr>m_world := with_error e w, m_write := WIdle\<rparr>)"
| recorded:
    "m_write m = WPublished src seq h \<Longrightarrow>
     tier_step env faulty m (m\<lparr>m_world := in_session (record_revision h) (m_world m), m_write := WRecorded src seq h\<rparr>)"
| row_cleared:
    "m_write m = WRecorded src seq h \<Longrightarrow> clear_draft_through seq (m_world m) = (Inr u, w) \<Longrightarrow>
     tier_step env faulty m (m\<lparr>m_world := w, m_write := WCleared src seq h\<rparr>)"
| clear_refused:
    "m_write m = WRecorded src seq h \<Longrightarrow> clear_draft_through seq (m_world m) = (Inl e, w) \<Longrightarrow>
     tier_step env faulty m (m\<lparr>m_world := with_error e w, m_write := WIdle\<rparr>)"
| indexed:
    "m_write m = WCleared src seq h \<Longrightarrow> index_source env src h (m_world m) = (Inr u, w) \<Longrightarrow>
     tier_step env faulty m (m\<lparr>m_world := in_session (settle_write (w_now w) seq) w, m_write := WIdle\<rparr>)"
| index_refused:
    "m_write m = WCleared src seq h \<Longrightarrow> index_source env src h (m_world m) = (Inl e, w) \<Longrightarrow>
     tier_step env faulty m (m\<lparr>m_world := with_error e w, m_write := WIdle\<rparr>)"
| reloaded:
    "m_edit m = EIdle \<Longrightarrow> m_write m = WIdle \<Longrightarrow> reload env (m_world m) = (Inr st, w) \<Longrightarrow>
     tier_step env faulty m (m\<lparr>m_world := w\<rparr>)"

inductive tier_run :: "note_env \<Rightarrow> bool \<Rightarrow> machine \<Rightarrow> machine \<Rightarrow> bool" for env faulty m where
  at_start: "tier_run env faulty m m"
| later: "tier_run env faulty m m' \<Longrightarrow> tier_step env faulty m' m'' \<Longrightarrow> tier_run env faulty m m''"

text \<open>A note as \<open>open_note\<close> leaves it.\<close>

definition just_opened :: "note_env \<Rightarrow> machine \<Rightarrow> bool" where
  "just_opened env m \<longleftrightarrow> m_edit m = EIdle \<and> m_write m = WIdle
     \<and> (\<exists>located w st. \<not> w_open w \<and> open_note env located w = (Inr st, m_world m))"

subsection \<open>The invariant\<close>

text \<open>The text and the sequence number the draft row is to have: those before the edit in flight.\<close>

definition held_text :: "machine \<Rightarrow> string" where
  "held_text m = (case m_edit m of EIdle \<Rightarrow> ns_source (m_session m) | EPending _ p _ _ \<Rightarrow> ns_source p | EFailed _ p _ \<Rightarrow> ns_source p)"

definition held_seq :: "machine \<Rightarrow> int" where
  "held_seq m = (case m_edit m of EIdle \<Rightarrow> ns_seq (m_session m) | EPending _ p _ _ \<Rightarrow> ns_seq p | EFailed _ p _ \<Rightarrow> ns_seq p)"

definition edit_ok :: "machine \<Rightarrow> bool" where
  "edit_ok m \<longleftrightarrow> (case m_edit m of
       EIdle \<Rightarrow> True
     | EPending _ p snap seq \<Rightarrow> snap = ns_source (m_session m) \<and> seq = ns_seq (m_session m) \<and> ns_seq p + 1 = seq
     | EFailed _ _ _ \<Rightarrow> False)"

text \<open>A snapshot agrees with the text of its sequence number.\<close>

definition snap_ok :: "machine \<Rightarrow> string \<Rightarrow> int \<Rightarrow> bool" where
  "snap_ok m src seq \<longleftrightarrow> seq \<le> ns_seq (m_session m) \<and> (seq = held_seq m \<longrightarrow> src = held_text m)
     \<and> (seq = ns_seq (m_session m) \<longrightarrow> src = ns_source (m_session m))"

definition write_ok :: "note_env \<Rightarrow> machine \<Rightarrow> bool" where
  "write_ok env m \<longleftrightarrow> (case m_write m of
       WSnapped src seq _ \<Rightarrow> snap_ok m src seq \<and> (w_draft (m_world m) = None \<longrightarrow> held_seq m \<le> seq)
     | WPublished src seq _ \<Rightarrow> snap_ok m src seq \<and> disk env (m_world m) = Some src
     | WRecorded src seq _ \<Rightarrow> snap_ok m src seq \<and> disk env (m_world m) = Some src
     | _ \<Rightarrow> True)"

definition row_ok :: "note_env \<Rightarrow> machine \<Rightarrow> bool" where
  "row_ok env m \<longleftrightarrow> (case w_draft (m_world m) of
       Some row \<Rightarrow> df_source row = held_text m \<and> df_seq row = held_seq m
     | None \<Rightarrow> disk env (m_world m) \<in> {Some (held_text m), Some (ns_source (m_session m))})"

definition tier_inv :: "note_env \<Rightarrow> machine \<Rightarrow> bool" where
  "tier_inv env m \<longleftrightarrow> edit_ok m \<and> write_ok env m \<and> row_ok env m"

lemmas tier_inv_defs = tier_inv_def edit_ok_def write_ok_def row_ok_def snap_ok_def held_text_def held_seq_def

lemma open_just_opened:
  assumes "just_opened env m"
  shows "tier_inv env m"
proof -
  obtain located w st where o: "open_note env located w = (Inr st, m_world m)" "\<not> w_open w"
      and idle: "m_edit m = EIdle" "m_write m = WIdle"
    using assms by (auto simp: just_opened_def)
  note e = open_note_effect [OF o]
  have "row_ok env m"
  proof (cases "w_draft (m_world m)")
    case None
    then show ?thesis using e idle by (auto simp: row_ok_def recoverable_def held_text_def)
  next
    case (Some row)
    then have "df_source row = ns_source (m_session m)" using e by (simp add: recoverable_def)
    moreover have "df_seq row = ns_seq (m_session m)" using e Some by (auto split: option.splits)
    ultimately show ?thesis using Some idle by (simp add: row_ok_def held_text_def held_seq_def)
  qed
  then show ?thesis using idle by (simp add: tier_inv_defs)
qed

text \<open>A step that leaves the text, the sequence number and the row, and at most publishes a snapshot.\<close>

lemma quiet_inv:
  assumes "tier_inv env m" and "ns_source (m_session m') = ns_source (m_session m)" and "ns_seq (m_session m') = ns_seq (m_session m)"
    and "w_draft (m_world m') = w_draft (m_world m)" and "disk env (m_world m') = disk env (m_world m)"
    and "m_edit m' = m_edit m"
    and "m_write m' = m_write m \<or> m_write m' = WIdle \<or>
      (\<exists>src seq h h'. m_write m = WPublished src seq h \<and> m_write m' = WRecorded src seq h')"
  shows "tier_inv env m'"
proof -
  have base: "held_text m' = held_text m" "held_seq m' = held_seq m"
    using assms(2,3,6) by (simp_all add: held_text_def held_seq_def split: edit_phase.split)
  have "edit_ok m'" using assms(1-3,6) by (simp add: tier_inv_def edit_ok_def split: edit_phase.splits)
  moreover have "row_ok env m'"
    using assms(1,2,4,5) base unfolding tier_inv_def row_ok_def by presburger
  moreover have "snap_ok m' = snap_ok m" using assms(2,3) base by (intro ext) (simp only: snap_ok_def)
  then have "write_ok env m'"
    using assms(1,4,5,7) base unfolding tier_inv_def write_ok_def by (elim disjE exE conjE) (simp_all split: write_phase.splits)
  ultimately show ?thesis by (simp add: tier_inv_def)
qed

lemma clear_inv:
  assumes "tier_inv env m" and "m_write m = WRecorded src seq h"
    and "w_session w = m_session m" and "disk env w = disk env (m_world m)"
    and "w_draft w = cleared_through seq (w_draft (m_world m))"
  shows "tier_inv env (m\<lparr>m_world := w, m_write := WCleared src seq h\<rparr>)"
proof (cases "w_draft w = w_draft (m_world m)")
  case True
  then show ?thesis
    using assms unfolding tier_inv_defs by (auto split: edit_phase.splits option.splits)
next
  case False
  then obtain row where row: "w_draft (m_world m) = Some row" "df_seq row \<le> seq" "w_draft w = None"
    using assms(5) by (auto simp: cleared_through_def split: option.splits if_splits)
  have "seq = held_seq m \<or> seq = ns_seq (m_session m)"
    using assms(1,2) row unfolding tier_inv_defs by (auto split: edit_phase.splits)
  then show ?thesis
    using assms row unfolding tier_inv_defs by (auto split: edit_phase.splits)
qed

lemma publish_inv:
  assumes "tier_inv env m" and "m_write m = WSnapped src seq revision"
    and "w_session w = m_session m" and "disk env w = Some src" and "w_draft w = w_draft (m_world m)"
  shows "tier_inv env (m\<lparr>m_world := w, m_write := WPublished src seq h\<rparr>)"
proof (cases "w_draft (m_world m)")
  case None
  then have "seq = held_seq m \<or> seq = ns_seq (m_session m)"
    using assms(1,2) unfolding tier_inv_defs by (auto split: edit_phase.splits)
  then show ?thesis
    using assms None unfolding tier_inv_defs by (auto split: edit_phase.splits)
next
  case (Some row)
  then show ?thesis
    using assms unfolding tier_inv_defs by (auto split: edit_phase.splits)
qed

lemma install_inv:
  assumes "tier_inv env m" and "m_edit m = EIdle" and "ns_seq s = ns_seq (m_session m) + 1"
  shows "tier_inv env (m\<lparr>m_world := (m_world m)\<lparr>w_session := s\<rparr>, m_edit := EPending kind (m_session m) (ns_source s) (ns_seq s)\<rparr>)"
  using assms unfolding tier_inv_defs
  by (auto split: write_phase.splits option.splits)

lemma written_inv:
  assumes "tier_inv env m" and "m_edit m = EPending kind previous snap seq"
    and "write_draft snap seq (m_world m) = (Inr u, w)"
  shows "tier_inv env (m\<lparr>m_world := arm_idle_timer w, m_edit := EIdle\<rparr>)"
proof -
  note e = write_draft_effect [OF assms(3), unfolded outside_db_def]
  have "\<forall>row. w_draft (m_world m) = Some row \<longrightarrow> df_seq row < seq"
    using assms(1,2) unfolding tier_inv_defs by auto
  then have row: "w_draft w = Some \<lparr>df_source = snap, df_seq = seq, df_updated = w_now (m_world m)\<rparr>"
    using e(3) by simp
  show ?thesis
    using assms(1,2) e(1) row unfolding tier_inv_defs
    by (auto simp: arm_idle_timer_def split: write_phase.splits)
qed

lemma tier_step_inv:
  assumes "tier_step env False m m'" and "tier_inv env m"
    and p: "file_path (ne_path env)" and hash: "\<And>src. collision_free env src"
  shows "tier_inv env m'"
  using assms(1)
proof cases
  case (keystroke path new s)
  have "ns_seq s = ns_seq (m_session m) + 1" using keystroke(3) by (elim buffer_edit_Inr)
  then show ?thesis using keystroke install_inv [OF assms(2)] by simp
next
  case (structural seq p s)
  have "ns_seq s = ns_seq (m_session m) + 1" using structural(3) by (auto simp: structural_install_def split: if_splits)
  then show ?thesis using structural install_inv [OF assms(2)] by simp
next
  case (reparse seq src spans ast s)
  then show ?thesis
    by (intro quiet_inv [OF assms(2)]) (auto simp: install_reparse_def split: if_splits)
next
  case (draft_written kind previous snap seq u w)
  then show ?thesis using written_inv [OF assms(2)] by simp
next
  case (draft_refused kind previous snap seq e w)
  then show ?thesis by simp
next
  case (taken_back kind previous seq s)
  then show ?thesis using assms(2) by (simp add: tier_inv_defs)
next
  case (kept kind previous seq)
  then show ?thesis using assms(2) by (simp add: tier_inv_defs)
next
  case timer_fires
  then show ?thesis using assms(2) unfolding tier_inv_defs by (auto split: edit_phase.splits option.splits)
next
  case flush_called
  then show ?thesis using assms(2) unfolding tier_inv_defs by (auto split: edit_phase.splits option.splits)
next
  case (published src seq revision h w)
  note e = publish_effect [OF published(3) p hash]
  show ?thesis
    using published publish_inv [OF assms(2) published(2), of w h] e(1) e(3) by (simp add: outside_store_def)
next
  case (publish_refused src seq revision e w)
  note e = publish_effect [OF publish_refused(3) p hash]
  show ?thesis
    using publish_refused e(1,2)
    by (intro quiet_inv [OF assms(2)]) (auto simp: outside_store_def with_error_def in_session_def)
next
  case (recorded src seq h)
  then show ?thesis
    by (intro quiet_inv [OF assms(2)]) (auto simp: record_revision_def in_session_def)
next
  case (row_cleared src seq h u w)
  note e = clear_draft_effect [OF row_cleared(3), unfolded outside_db_def]
  show ?thesis
    using row_cleared e clear_inv [OF assms(2) row_cleared(2), of w] by (simp add: cleared_through_def)
next
  case (clear_refused src seq h e w)
  note e = clear_draft_effect [OF clear_refused(3), unfolded outside_db_def]
  show ?thesis
    using clear_refused e by (intro quiet_inv [OF assms(2)]) (auto simp: with_error_def in_session_def)
next
  case (indexed src seq h u w)
  note e = on_db_frame [OF indexed(3) [unfolded index_source_def], unfolded outside_db_def]
  show ?thesis
    using indexed e by (intro quiet_inv [OF assms(2)]) (auto simp: settle_write_def in_session_def)
next
  case (index_refused src seq h e w)
  note e = on_db_frame [OF index_refused(3) [unfolded index_source_def], unfolded outside_db_def]
  show ?thesis
    using index_refused e by (intro quiet_inv [OF assms(2)]) (auto simp: with_error_def in_session_def)
next
  case (reloaded st w)
  note e = reload_effect [OF reloaded(4)]
  show ?thesis using reloaded e unfolding tier_inv_defs by auto
qed

lemma tier_run_inv:
  assumes "tier_run env False m m'" and "tier_inv env m"
    and "file_path (ne_path env)" and "\<And>src. collision_free env src"
  shows "tier_inv env m'"
  using assms by (induction rule: tier_run.induct) (auto intro: tier_step_inv)

text \<open>C1: As long as the database takes the draft rows and nobody else writes the file, no interleaving of typing with the
  idle writer, the flushes and the reloads can lose typed text to a crash: at every point a new open of the note
  shows the buffer, or, while one edit is still being recorded, the buffer before that edit. A file write that
  fails, a refused revision or a failed clear or index update does not weaken this.\<close>

theorem typed_text_survives_crash:
  assumes "just_opened env m0" and "tier_run env False m0 m"
    and "file_path (ne_path env)" and "\<And>src. collision_free env src"
  shows "recoverable env (m_world m) \<in> {Some (held_text m), Some (ns_source (m_session m))}
    \<and> (m_edit m = EIdle \<longrightarrow> recoverable env (m_world m) = Some (ns_source (m_session m)))"
proof -
  have "tier_inv env m" using assms open_just_opened tier_run_inv by blast
  then show ?thesis
    unfolding tier_inv_def row_ok_def recoverable_def
    by (auto simp: held_text_def split: option.splits)
qed

subsection \<open>Running a schedule\<close>

datatype tier_action = Key string | Draft | Settle | Fire | Publish | Record | Clear | Index

fun act_step :: "note_env \<Rightarrow> bool \<Rightarrow> tier_action \<Rightarrow> machine \<Rightarrow> machine option" where
  "act_step env faulty (Key new) m =
     (case (m_edit m, buffer_edit [0] new (m_session m)) of
        (EIdle, Inr s) \<Rightarrow> Some (m\<lparr>m_world := (m_world m)\<lparr>w_session := s\<rparr>,
          m_edit := EPending Buffered (m_session m) (ns_source s) (ns_seq s)\<rparr>)
      | _ \<Rightarrow> None)"
| "act_step env faulty Draft m =
     (case m_edit m of
        EPending kind previous snap seq \<Rightarrow>
          (case write_draft snap seq (m_world m) of
             (Inr _, w) \<Rightarrow> Some (m\<lparr>m_world := arm_idle_timer w, m_edit := EIdle\<rparr>)
           | (Inl _, w) \<Rightarrow> if faulty then Some (m\<lparr>m_world := w, m_edit := EFailed kind previous seq\<rparr>) else None)
      | _ \<Rightarrow> None)"
| "act_step env faulty Settle m =
     (case m_edit m of
        EFailed kind previous seq \<Rightarrow>
          (case take_back (restore_of kind) previous seq (m_session m) of
             Some s \<Rightarrow> Some (m\<lparr>m_world := (m_world m)\<lparr>w_session := s\<rparr>, m_edit := EIdle\<rparr>)
           | None \<Rightarrow> Some (m\<lparr>m_world := arm_idle_timer (m_world m), m_edit := EIdle\<rparr>))
      | _ \<Rightarrow> None)"
| "act_step env faulty Fire m =
     (if m_write m = WIdle \<and> w_timer (m_world m) \<and> \<not> ns_closed (m_session m)
      then Some (m\<lparr>m_world := (m_world m)\<lparr>w_timer := False\<rparr>,
        m_write := WSnapped (ns_source (m_session m)) (ns_seq (m_session m)) (ns_revision (m_session m))\<rparr>)
      else None)"
| "act_step env faulty Publish m =
     (case m_write m of
        WSnapped src seq revision \<Rightarrow>
          (case publish env src revision (m_world m) of
             (Inr h, w) \<Rightarrow> Some (m\<lparr>m_world := w, m_write := WPublished src seq h\<rparr>)
           | (Inl e, w) \<Rightarrow> Some (m\<lparr>m_world := with_error e w, m_write := WIdle\<rparr>))
      | _ \<Rightarrow> None)"
| "act_step env faulty Record m =
     (case m_write m of
        WPublished src seq h \<Rightarrow>
          Some (m\<lparr>m_world := in_session (record_revision h) (m_world m), m_write := WRecorded src seq h\<rparr>)
      | _ \<Rightarrow> None)"
| "act_step env faulty Clear m =
     (case m_write m of
        WRecorded src seq h \<Rightarrow>
          (case clear_draft_through seq (m_world m) of
             (Inr _, w) \<Rightarrow> Some (m\<lparr>m_world := w, m_write := WCleared src seq h\<rparr>)
           | (Inl e, w) \<Rightarrow> Some (m\<lparr>m_world := with_error e w, m_write := WIdle\<rparr>))
      | _ \<Rightarrow> None)"
| "act_step env faulty Index m =
     (case m_write m of
        WCleared src seq h \<Rightarrow>
          (case index_source env src h (m_world m) of
             (Inr _, w) \<Rightarrow> Some (m\<lparr>m_world := in_session (settle_write (w_now w) seq) w, m_write := WIdle\<rparr>)
           | (Inl e, w) \<Rightarrow> Some (m\<lparr>m_world := with_error e w, m_write := WIdle\<rparr>))
      | _ \<Rightarrow> None)"

fun act_run :: "note_env \<Rightarrow> bool \<Rightarrow> tier_action list \<Rightarrow> machine \<Rightarrow> machine option" where
  "act_run env faulty [] m = Some m"
| "act_run env faulty (a # as) m = Option.bind (act_step env faulty a m) (act_run env faulty as)"

lemma act_step_sound: "act_step env faulty a m = Some m' \<Longrightarrow> tier_step env faulty m m'"
  by (cases a) (auto intro: tier_step.intros split: edit_phase.splits write_phase.splits sum.splits prod.splits
      option.splits if_splits)

lemma act_run_sound: "act_run env faulty as m = Some m' \<Longrightarrow> tier_run env faulty m0 m \<Longrightarrow> tier_run env faulty m0 m'"
proof (induction as arbitrary: m)
  case (Cons a as)
  then obtain m1 where "act_step env faulty a m = Some m1" "act_run env faulty as m1 = Some m'" by auto
  then show ?case using Cons.IH Cons.prems(2) tier_run.later act_step_sound by blast
qed simp

subsection \<open>A note on a desk\<close>

text \<open>A note of one paragraph, its text indexed; the schedule of faults is that of the database.\<close>

definition desk_env :: note_env where
  "desk_env = \<lparr>ne_ws = ''w'', ne_note = ''n'', ne_path = [''n.md''], ne_pulldown = one_paragraph,
     ne_reader = (\<lambda>_. frontmatter_default), ne_lookup_key = id, ne_hash = id, ne_mtime = (\<lambda>_. 0)\<rparr>"

definition desk_session :: note_session where
  "desk_session = opened_session desk_env [] (pn_spans (parsed desk_env [])) [] 0 [] False False 0"

definition desk_world :: "app_error option list \<Rightarrow> note_world" where
  "desk_world faults =
     \<lparr>w_session = desk_session, w_open = False,
      w_store = \<lparr>st_tree = [([], NDir), ([''n.md''], NFile ''x'' 420)], st_faults = [], st_pid = 1, st_next_temp = 0,
        st_next_create = 0, st_next_trash = 0\<rparr>,
      w_db = \<lparr>db_workspaces = [''w''],
        db_notes = [\<lparr>nr_ws = ''w'', nr_id = ''n'', nr_path = ''n.md'', nr_title = ''n'', nr_key = ''n'', nr_modified = 0,
          nr_hash = ''x'', nr_conformant = False\<rparr>],
        db_links = [], db_fts = [], db_mapping = [], db_dirs = [], db_faults = faults, db_in_tx = False\<rparr>,
      w_draft = None, w_timer = False, w_activity = 0, w_now = 5\<rparr>"

definition desk_machine :: "app_error option list \<Rightarrow> machine" where
  "desk_machine faults =
     \<lparr>m_world = snd (open_note desk_env (Inr ()) (desk_world faults)), m_edit = EIdle, m_write = WIdle\<rparr>"

lemma desk_collision_free: "collision_free desk_env src"
  by (simp add: collision_free_def desk_env_def)

lemma desk_path: "file_path (ne_path desk_env)"
  by code_simp

lemma desk_opened: "fst (open_note desk_env (Inr ()) (desk_world faults)) = Inr st \<Longrightarrow> just_opened desk_env (desk_machine faults)"
  unfolding just_opened_def desk_machine_def
  by (auto simp: desk_world_def intro!: exI [of _ "Inr ()"] exI [of _ "desk_world faults"]) (metis prod.collapse)

fun at_rest :: "edit_phase \<Rightarrow> bool" where
  "at_rest EIdle = True"
| "at_rest _ = False"

lemma at_rest_iff: "at_rest e \<longleftrightarrow> e = EIdle"
  by (cases e) auto

definition typed_then_crash :: "machine option" where
  "typed_then_crash = act_run desk_env False [Key ''a'', Draft, Fire, Key ''b'', Publish, Record, Draft, Clear] (desk_machine [])"

theorem typed_text_survives_crash_witness:
  "\<exists>m. typed_then_crash = Some m \<and> recoverable desk_env (m_world m) = Some ''b''"
proof -
  have r: "typed_then_crash \<noteq> None" and s: "map_option (\<lambda>m. ns_source (m_session m)) typed_then_crash = Some ''b''"
    and e: "map_option (\<lambda>m. at_rest (m_edit m)) typed_then_crash = Some True"
    by code_simp+
  then obtain m where m: "typed_then_crash = Some m" by blast
  have "case fst (open_note desk_env (Inr ()) (desk_world [])) of Inl _ \<Rightarrow> False | Inr _ \<Rightarrow> True" by code_simp
  then obtain st where "fst (open_note desk_env (Inr ()) (desk_world [])) = Inr st" by (auto split: sum.splits)
  then have o: "just_opened desk_env (desk_machine [])" using desk_opened by blast
  have run: "tier_run desk_env False (desk_machine []) m"
    by (rule act_run_sound [OF m [unfolded typed_then_crash_def] tier_run.at_start])
  have "ns_source (m_session m) = ''b''" and "m_edit m = EIdle" using s e by (simp_all add: m at_rest_iff)
  then have "recoverable desk_env (m_world m) = Some ''b''"
    using typed_text_survives_crash [OF o run desk_path desk_collision_free] by simp
  then show ?thesis using m by blast
qed

text \<open>
  The reason the guarantee needs the draft rows to be taken: an edit that returns the text to what the file holds
  is published while its row is being written, and the write clears the older row; when its own row is then
  refused, the edit is taken back to text that is neither in a row nor in the file, and no timer is armed.
\<close>

definition stranded :: "machine option" where
  "stranded = act_run desk_env True [Key ''a'', Draft, Key ''x'', Fire, Publish, Record, Clear, Index, Draft, Settle]
     (desk_machine [None, None, None, None, Some (DatabaseError ''disk I/O error'')])"

lemma stranded_runs:
  "map_option (\<lambda>m. (at_rest (m_edit m), m_write m = WIdle, w_timer (m_world m), ns_unwritten (m_session m),
     recoverable desk_env (m_world m), ns_source (m_session m))) stranded =
   Some (True, True, False, True, Some ''x'', ''a'')"
  by code_simp

text \<open>C38: With a database that refuses one draft row the guarantee fails: there is a run from a freshly opened note to
  a point where nothing is under way and no timer is armed, the session still counts its text as unwritten, and a
  new open of the note would show another text than the buffer.\<close>

theorem refused_draft_strands_text:
  "\<exists>m0 m. just_opened desk_env m0 \<and> tier_run desk_env True m0 m
     \<and> m_edit m = EIdle \<and> m_write m = WIdle \<and> \<not> w_timer (m_world m) \<and> ns_unwritten (m_session m)
     \<and> recoverable desk_env (m_world m) \<noteq> Some (ns_source (m_session m))"
proof -
  let ?faults = "[None, None, None, None, Some (DatabaseError ''disk I/O error'')]"
  obtain m where m: "stranded = Some m" using stranded_runs by auto
  have "case fst (open_note desk_env (Inr ()) (desk_world ?faults)) of Inl _ \<Rightarrow> False | Inr _ \<Rightarrow> True" by code_simp
  then obtain st where "fst (open_note desk_env (Inr ()) (desk_world ?faults)) = Inr st" by (auto split: sum.splits)
  then have "just_opened desk_env (desk_machine ?faults)" by (rule desk_opened)
  moreover have "tier_run desk_env True (desk_machine ?faults) m"
    by (rule act_run_sound [OF m [unfolded stranded_def] tier_run.at_start])
  moreover have "m_edit m = EIdle" "m_write m = WIdle" "\<not> w_timer (m_world m)" "ns_unwritten (m_session m)"
    "recoverable desk_env (m_world m) \<noteq> Some (ns_source (m_session m))"
    using stranded_runs by (simp_all add: m at_rest_iff)
  ultimately show ?thesis by blast
qed

end
