(* ===== verification/Note_Examples.thy ===== *)
theory Note_Examples
  imports Tier_Steps
begin

section \<open>The laws of an open note at work\<close>

text \<open>The properties of \<open>Note_Laws\<close> and \<open>Flush_Laws\<close> applied to the note of \<open>Tier_Steps\<close>.\<close>

definition opened_desk :: note_world where
  "opened_desk = snd (open_note desk_env (Inr ()) (desk_world []))"

definition typed_desk :: note_world where
  "typed_desk = snd (update_block [0] ''a'' opened_desk)"

lemma opened_desk_in_step: "draft_in_step opened_desk"
proof -
  have "w_draft opened_desk = None" by code_simp
  then show ?thesis by (simp add: draft_in_step_def)
qed

lemma opened_desk_facts:
  "\<not> ns_closed (w_session opened_desk)" "disk desk_env opened_desk = Some ''x''"
  "ns_source (w_session opened_desk) = ''x''"
  by code_simp+

lemma typed_desk_facts:
  "\<not> ns_closed (w_session typed_desk)" "ns_source (w_session typed_desk) = ''a''"
  "disk desk_env typed_desk = Some ''x''"
  by code_simp+

theorem update_block_durable_witness:
  "map_option df_source (w_draft typed_desk) = Some ''a'' \<and> w_timer typed_desk \<and> w_store typed_desk = w_store opened_desk"
proof -
  let ?call = "update_block [0] ''a'' opened_desk"
  have "fst ?call = Inr ()" by code_simp
  then have "?call = (Inr (), typed_desk)" by (metis prod.collapse typed_desk_def)
  from update_block_durable [OF this opened_desk_in_step] typed_desk_facts(2) show ?thesis
    by (cases "w_draft typed_desk") auto
qed

definition replace_plan :: "unit plan" where
  "replace_plan src spans nodes retained = Inr (''b'', ())"

theorem structural_edit_transaction_witness:
  "\<exists>st w'. structural_edit desk_env replace_plan (\<lambda>_ _ _ _. Inr ()) [id] opened_desk = Some (Inr (st, ()), w')
     \<and> ns_source (w_session w') = ''b'' \<and> map_option df_source (w_draft w') = Some ''b''"
proof -
  let ?call = "structural_edit desk_env replace_plan (\<lambda>_ _ _ _. Inr ()) [id] opened_desk"
  have "case ?call of Some (Inr x, w') \<Rightarrow> ns_source (w_session w') = ''b'' | _ \<Rightarrow> False" by code_simp
  then obtain st w' where c: "?call = Some (Inr (st, ()), w')" and b: "ns_source (w_session w') = ''b''"
    by (auto split: option.splits prod.splits sum.splits)
  from structural_edit_transaction [OF c opened_desk_in_step] show ?thesis
    using c b by (cases "w_draft w'") auto
qed

theorem edit_loops_end_witness:
  "\<exists>x. commit_block desk_env [(\<lambda>w. snd (update_block [0] ''a'' w)), id] opened_desk = Some x"
proof -
  from edit_loops_end [of id desk_env replace_plan "\<lambda>_ _ _ _. Inr ()" "[\<lambda>w. snd (update_block [0] ''a'' w)]" opened_desk]
  show ?thesis by auto
qed

theorem flush_writes_only_known_bytes_witness:
  "disk desk_env (snd (flush_covering desk_env typed_desk)) = Some ''a''
    \<and> w_draft (snd (flush_covering desk_env typed_desk)) = None"
proof -
  let ?call = "flush_covering desk_env typed_desk"
  have "fst ?call = Inr \<lparr>wt_revision = ''a'', wt_seq = 1\<rparr>" by code_simp
  then have c: "?call = (Inr \<lparr>wt_revision = ''a'', wt_seq = 1\<rparr>, snd ?call)" by (metis prod.collapse)
  have d: "disk desk_env (snd ?call) \<noteq> disk desk_env typed_desk \<and> cleared_through (ns_seq (w_session typed_desk)) (w_draft typed_desk) = None"
    by code_simp
  from flush_writes_only_known_bytes [OF c typed_desk_facts(1) desk_path desk_collision_free] d typed_desk_facts(2)
  show ?thesis by auto
qed

theorem reload_keeps_draft_on_failure_witness:
  "ns_source (w_session (snd (reload desk_env typed_desk))) = ''x'' \<and> w_draft (snd (reload desk_env typed_desk)) = None"
proof -
  let ?call = "reload desk_env typed_desk"
  have "case fst ?call of Inl _ \<Rightarrow> False | Inr _ \<Rightarrow> True" by code_simp
  then obtain st where "fst ?call = Inr st" by (auto split: sum.splits)
  then have c: "?call = (Inr st, snd ?call)" by (metis prod.collapse)
  from reload_keeps_draft_on_failure [OF c] typed_desk_facts(3) show ?thesis by auto
qed


definition crashed_desk :: note_world where
  "crashed_desk = (desk_world [])\<lparr>w_draft := Some \<lparr>df_source = ''lost'', df_seq = 3, df_updated = 0\<rparr>\<rparr>"

theorem open_recovers_work_witness:
  "ns_source (w_session (snd (open_note desk_env (Inr ()) crashed_desk))) = ''lost''
    \<and> w_timer (snd (open_note desk_env (Inr ()) crashed_desk))"
proof -
  let ?call = "open_note desk_env (Inr ()) crashed_desk"
  have "case fst ?call of Inl _ \<Rightarrow> False | Inr _ \<Rightarrow> True" by code_simp
  then obtain st where "fst ?call = Inr st" by (auto split: sum.splits)
  then have c: "?call = (Inr st, snd ?call)" by (metis prod.collapse)
  have o: "\<not> w_open crashed_desk" and r: "recoverable desk_env crashed_desk = Some ''lost''" and d: "w_draft crashed_desk \<noteq> None"
    by code_simp+
  from open_recovers_work [OF c o] r d show ?thesis by simp
qed

end
