(* ===== verification/Lifecycle_World.thy ===== *)
theory Lifecycle_World
  imports Note_Tiers Link_Rewrite
begin

section \<open>A workspace under a lifecycle operation\<close>

text \<open>
  What the operations of \<^verbatim>\<open>workspace/lifecycle.rs\<close> act on: the bundle, the index tables, the \<^verbatim>\<open>drafts\<close> rows of the
  workspace, the registry of open notes and the commits asked for. They run one at a time (the lifecycle lock) and
  with the write locks of every open note held, so no idle writer runs in between. The libraries, the answer of Git,
  the symbolic links and the file system's notion of two spellings of one file are fields of the environment.
\<close>

record lc_env =
  ce_ws :: string
  ce_pulldown :: pulldown
  ce_reader :: reader
  ce_lookup_key :: "string \<Rightarrow> string"
  ce_hash :: "string \<Rightarrow> string"
  ce_alnum :: "string \<Rightarrow> bool"
  ce_mtime :: "path \<Rightarrow> store \<Rightarrow> int"
  ce_symlink :: "path \<Rightarrow> bool"
  ce_same_file :: "path \<Rightarrow> path \<Rightarrow> bool"
  ce_readable :: "path \<Rightarrow> bool"
  ce_commit :: "string \<Rightarrow> string list \<Rightarrow> store \<Rightarrow> bool result"

record lc_world =
  lw_store :: store
  lw_db :: db
  lw_drafts :: "(string \<times> draft_row) list"
  lw_sessions :: "(string \<times> note_session) list"
  lw_armed :: "string list"
  lw_commits :: "(string \<times> string list) list"
  lw_now :: int

type_synonym 'a lc = "lc_world \<Rightarrow> 'a result \<times> lc_world"

definition lc_ret :: "'a \<Rightarrow> 'a lc" where
  "lc_ret x w = (Inr x, w)"

definition lc_fail :: "app_error \<Rightarrow> 'a lc" where
  "lc_fail e w = (Inl e, w)"

definition lc_then :: "'a lc \<Rightarrow> ('a \<Rightarrow> 'b lc) \<Rightarrow> 'b lc" where
  "lc_then m f w = (case m w of (Inl e, w) \<Rightarrow> (Inl e, w) | (Inr x, w) \<Rightarrow> f x w)"

definition lc_lift :: "'a result \<Rightarrow> 'a lc" where
  "lc_lift r w = (r, w)"

definition lc_get :: "(lc_world \<Rightarrow> 'a) \<Rightarrow> 'a lc" where
  "lc_get f w = (Inr (f w), w)"

definition on_files :: "(store \<Rightarrow> 'a \<times> store) \<Rightarrow> lc_world \<Rightarrow> 'a \<times> lc_world" where
  "on_files f w = (case f (lw_store w) of (x, st) \<Rightarrow> (x, w\<lparr>lw_store := st\<rparr>))"

text \<open>A file operation whose answer, an error included, is looked at.\<close>

definition ask_files :: "(store \<Rightarrow> 'a \<times> store) \<Rightarrow> 'a lc" where
  "ask_files f w = (case on_files f w of (x, w) \<Rightarrow> (Inr x, w))"

definition on_index :: "'a sql \<Rightarrow> 'a lc" where
  "on_index m w = (case m (lw_db w) of (r, d) \<Rightarrow> (r, w\<lparr>lw_db := d\<rparr>))"

fun lc_each :: "('a \<Rightarrow> unit lc) \<Rightarrow> 'a list \<Rightarrow> unit lc" where
  "lc_each f [] = lc_ret ()"
| "lc_each f (x # xs) = lc_then (f x) (\<lambda>_. lc_each f xs)"

fun lc_collect :: "('a \<Rightarrow> 'b option lc) \<Rightarrow> 'a list \<Rightarrow> 'b list lc" where
  "lc_collect f [] = lc_ret []"
| "lc_collect f (x # xs) =
     lc_then (f x) (\<lambda>y. lc_then (lc_collect f xs) (\<lambda>ys. lc_ret (case y of None \<Rightarrow> ys | Some y \<Rightarrow> y # ys)))"

subsection \<open>The drafts table\<close>

text \<open>One statement: it fails with no effect, or reads and changes the rows.\<close>

definition drafts_statement :: "((string \<times> draft_row) list \<Rightarrow> 'a \<times> (string \<times> draft_row) list) \<Rightarrow> 'a lc" where
  "drafts_statement f =
     lc_then (on_index (statement (\<lambda>d. (Inr (), d))))
       (\<lambda>_ w. case f (lw_drafts w) of (x, rows) \<Rightarrow> (Inr x, w\<lparr>lw_drafts := rows\<rparr>))"

definition clear_draft :: "string \<Rightarrow> unit lc" where
  "clear_draft note_id = drafts_statement (\<lambda>rows. ((), AList.delete note_id rows))"

definition draft_exists :: "string \<Rightarrow> bool lc" where
  "draft_exists note_id = drafts_statement (\<lambda>rows. (map_of rows note_id \<noteq> None, rows))"

definition read_draft_text :: "string \<Rightarrow> string option lc" where
  "read_draft_text note_id = drafts_statement (\<lambda>rows. (map_option df_source (map_of rows note_id), rows))"

definition draft_note_ids :: "string list lc" where
  "draft_note_ids = drafts_statement (\<lambda>rows. (map fst rows, rows))"

definition id_order :: "string list \<Rightarrow> string list" where
  "id_order ids = sort_key StrKey (remdups ids)"

definition draft_ids_with_prefix :: "string \<Rightarrow> string list lc" where
  "draft_ids_with_prefix pre = drafts_statement (\<lambda>rows.
     (filter (prefix pre) (filter (like_match (like_escape pre @ ''%'')) (id_order (map fst rows))), rows))"

definition rekey_draft :: "string \<Rightarrow> string \<Rightarrow> unit lc" where
  "rekey_draft old_id new_id = drafts_statement (\<lambda>rows.
     ((), case map_of rows old_id of
            None \<Rightarrow> rows
          | Some row \<Rightarrow> AList.update new_id row (AList.delete old_id rows)))"

definition rewrite_draft :: "string \<Rightarrow> string \<Rightarrow> unit lc" where
  "rewrite_draft note_id text_s w =
     drafts_statement (\<lambda>rows.
       ((), case map_of rows note_id of
              None \<Rightarrow> rows
            | Some row \<Rightarrow> AList.update note_id (row\<lparr>df_source := text_s, df_updated := lw_now w\<rparr>) rows)) w"

subsection \<open>Statements of the lifecycle on the index\<close>

definition link_sources :: "string \<Rightarrow> string \<Rightarrow> string list sql" where
  "link_sources ws target = statement (\<lambda>d.
     (Inr (remdups (map lr_source (filter (\<lambda>r. lr_ws r = ws \<and> lr_target r = target) (db_links d)))), d))"

definition note_ids_with_prefix :: "string \<Rightarrow> string \<Rightarrow> string list sql" where
  "note_ids_with_prefix ws pre = statement (\<lambda>d.
     (Inr (filter (prefix pre) (filter (like_match (like_escape pre @ ''%''))
        (id_order (map nr_id (filter (\<lambda>r. nr_ws r = ws) (db_notes d)))))), d))"

definition indexed_title :: "string \<Rightarrow> string \<Rightarrow> string option sql" where
  "indexed_title ws note_id = statement (\<lambda>d.
     (Inr (map_option nr_title (List.find (\<lambda>r. nr_ws r = ws \<and> nr_id r = note_id) (db_notes d))), d))"

definition directory_known :: "string \<Rightarrow> string \<Rightarrow> bool sql" where
  "directory_known ws directory = statement (\<lambda>d.
     (Inr (list_ex (\<lambda>r. dr_ws r = ws \<and> dr_id r = directory) (db_dirs d)), d))"

text \<open>\<^verbatim>\<open>UPDATE OR REPLACE links SET target_id = new\<close>: an edge of the same source to the new target gives way.\<close>

definition retarget_links :: "string \<Rightarrow> string \<Rightarrow> string \<Rightarrow> unit sql" where
  "retarget_links ws old_id new_id = statement (\<lambda>d.
     let hit = (\<lambda>r. lr_ws r = ws \<and> lr_target r = old_id);
         replaced = (\<lambda>r. old_id \<noteq> new_id \<and> lr_ws r = ws \<and> lr_target r = new_id
           \<and> list_ex (\<lambda>q. hit q \<and> lr_source q = lr_source r) (db_links d))
     in (Inr (), d\<lparr>db_links := map (\<lambda>r. if hit r then r\<lparr>lr_target := new_id\<rparr> else r)
                                  (filter (\<lambda>r. \<not> replaced r) (db_links d))\<rparr>))"

definition delete_directory_rows :: "string \<Rightarrow> (string \<Rightarrow> bool) \<Rightarrow> unit sql" where
  "delete_directory_rows ws which = statement (\<lambda>d.
     (Inr (), d\<lparr>db_dirs := filter (\<lambda>r. \<not> (dr_ws r = ws \<and> which (dr_id r))) (db_dirs d)\<rparr>))"

subsection \<open>An owned transaction\<close>

text \<open>
  \<^verbatim>\<open>in_owned_transaction\<close>: the body's index and draft statements, all or none. Beginning, committing and rolling
  back are statements of their own; a rollback that fails changes only the error, since what is not committed does
  not survive the connection's own rollback of a dropped transaction.
\<close>

definition plain_statement :: "unit lc" where
  "plain_statement = on_index (statement (\<lambda>d. (Inr (), d)))"

definition undone :: "lc_world \<Rightarrow> lc_world \<Rightarrow> lc_world" where
  "undone w w' = w'\<lparr>lw_db := tx_rollback (lw_db w) (lw_db w'), lw_drafts := lw_drafts w\<rparr>"

definition in_owned_transaction :: "'a lc \<Rightarrow> 'a lc" where
  "in_owned_transaction f w =
     (case plain_statement w of
        (Inl e, w) \<Rightarrow> (Inl e, w)
      | (Inr _, w0) \<Rightarrow>
          (case f (w0\<lparr>lw_db := (lw_db w0)\<lparr>db_in_tx := True\<rparr>\<rparr>) of
             (Inr x, w1) \<Rightarrow>
               (case plain_statement w1 of
                  (Inl e, w2) \<Rightarrow> (Inl e, undone w0 w2)
                | (Inr _, w2) \<Rightarrow> (Inr x, w2\<lparr>lw_db := (lw_db w2)\<lparr>db_in_tx := False\<rparr>\<rparr>))
           | (Inl e, w1) \<Rightarrow>
               (case plain_statement w1 of
                  (Inl e', w2) \<Rightarrow> (Inl e', undone w0 w2)
                | (Inr _, w2) \<Rightarrow> (Inl e, undone w0 w2))))"

subsection \<open>Files\<close>

definition entry_of :: "lc_env \<Rightarrow> lc_world \<Rightarrow> entry_at" where
  "entry_of env w p =
     (if ce_symlink env p then Some Symlink
      else (case map_of (st_tree (lw_store w)) p of
              None \<Rightarrow> None | Some NDir \<Rightarrow> Some Directory | Some (NFile _ _) \<Rightarrow> Some File))"

text \<open>The questions \<^verbatim>\<open>Path\<close> answers: a call that fails answers no.\<close>

definition fs_test :: "(node option \<Rightarrow> bool) \<Rightarrow> path \<Rightarrow> store \<Rightarrow> bool \<times> store" where
  "fs_test P p st =
     (case sys (\<lambda>t. (Inr (P (map_of t p)), t)) st of
        (Inl _, st) \<Rightarrow> (False, st)
      | (Inr b, st) \<Rightarrow> (b, st))"

definition fs_exists :: "path \<Rightarrow> store \<Rightarrow> bool \<times> store" where
  "fs_exists = fs_test (\<lambda>n. n \<noteq> None)"

definition fs_is_file :: "path \<Rightarrow> store \<Rightarrow> bool \<times> store" where
  "fs_is_file = fs_test (\<lambda>n. case n of Some (NFile _ _) \<Rightarrow> True | _ \<Rightarrow> False)"

definition fs_create_dir :: "path \<Rightarrow> unit io" where
  "fs_create_dir p = sys (\<lambda>t.
     if map_of t p \<noteq> None then (Inl ExistsErr, t)
     else if map_of t (butlast p) \<noteq> Some NDir then (Inl NotFoundErr, t)
     else (Inr (), AList.update p NDir t))"

text \<open>The error of a directory that is not empty is told apart from the others by its caller.\<close>

definition fs_remove_dir :: "path \<Rightarrow> bool io" where
  "fs_remove_dir p = sys (\<lambda>t.
     (case map_of t p of
        None \<Rightarrow> (Inl NotFoundErr, t)
      | Some (NFile _ _) \<Rightarrow> (Inl OtherErr, t)
      | Some NDir \<Rightarrow> if has_child t p then (Inr False, t) else (Inr True, AList.delete p t)))"

definition read_source :: "path \<Rightarrow> string option lc" where
  "read_source p =
     lc_then (ask_files (fs_read p)) (\<lambda>r.
       case r of
         Inr bytes \<Rightarrow> if valid_utf8 bytes then lc_ret (Some bytes) else lc_fail (ParseError ''is not valid UTF-8'')
       | Inl e \<Rightarrow> if e = NotFoundErr then lc_ret None else lc_fail (IoError ''read''))"

definition note_path_of :: "lc_env \<Rightarrow> string \<Rightarrow> path lc" where
  "note_path_of env note_id = lc_then (lc_get (entry_of env)) (\<lambda>fs. lc_lift (note_path fs note_id))"

definition directory_absolute :: "lc_env \<Rightarrow> string \<Rightarrow> path lc" where
  "directory_absolute env directory =
     lc_then (lc_get (entry_of env)) (\<lambda>fs.
       case ensure_directory_contained fs (path_names directory) of
         Inl _ \<Rightarrow> lc_fail (PathUnavailable ''does not name a Directory inside the Workspace'')
       | Inr _ \<Rightarrow> lc_ret (path_names directory))"

definition ensure_directory_exists :: "lc_env \<Rightarrow> string \<Rightarrow> unit lc" where
  "ensure_directory_exists env directory =
     (if directory = [] then lc_ret ()
      else
        lc_then (directory_absolute env directory) (\<lambda>p.
        lc_then (ask_files (fs_is_dir p)) (\<lambda>is_dir.
          if is_dir then lc_ret ()
          else
            lc_then (on_index (directory_known (ce_ws env) directory)) (\<lambda>known.
              if \<not> known then lc_fail (PathUnavailable ''no Directory'')
              else
                lc_then (ask_files (fs_create_dir_all p)) (\<lambda>r.
                  case r of Inl _ \<Rightarrow> lc_fail (IoError ''create'') | Inr _ \<Rightarrow> lc_ret ())))))"

text \<open>The names of the files below a directory, for a pathspec.\<close>

definition committable :: "string \<Rightarrow> bool" where
  "committable name_s \<longleftrightarrow> name_s \<noteq> ''.git'' \<and> \<not> is_ignored_scratch_name name_s"

definition collect_files :: "lc_env \<Rightarrow> path \<Rightarrow> store \<Rightarrow> string list" where
  "collect_files env dir st =
     map (\<lambda>p. join_with [SLASH] p)
       (filter (\<lambda>p. prefix dir p \<and> p \<noteq> dir \<and> list_all committable (drop (length dir) p)
           \<and> list_all (\<lambda>k. ce_readable env (take k p)) [length dir ..< length p]
           \<and> list_all (\<lambda>k. \<not> ce_symlink env (take k p)) [Suc (length dir) ..< Suc (length p)])
         (map fst (filter (\<lambda>(_, n). case n of NFile _ _ \<Rightarrow> True | NDir \<Rightarrow> False) (st_tree st))))"

subsection \<open>Results\<close>

datatype warning_stage = CommitStage | SettlementStage

text \<open>The detail of a warning is kept as the error it prints.\<close>

datatype 'a terminal = Applied 'a | AppliedWithWarning 'a warning_stage app_error

fun terminal_value :: "'a terminal \<Rightarrow> 'a" where
  "terminal_value (Applied x) = x"
| "terminal_value (AppliedWithWarning x _ _) = x"

fun map_terminal_value :: "('a \<Rightarrow> 'b) \<Rightarrow> 'a terminal \<Rightarrow> 'b terminal" where
  "map_terminal_value f (Applied x) = Applied (f x)"
| "map_terminal_value f (AppliedWithWarning x s d) = AppliedWithWarning (f x) s d"

record effects =
  ef_remapped :: "(string \<times> string) list"
  ef_rewritten :: "string list"

record lc_result =
  lr_state :: "note_state option"
  lr_effects :: effects
  lr_removed :: "string list"
  lr_warning :: "(warning_stage \<times> app_error) option"

definition default_result :: lc_result where
  "default_result = \<lparr>lr_state = None, lr_effects = \<lparr>ef_remapped = [], ef_rewritten = []\<rparr>, lr_removed = [],
     lr_warning = None\<rparr>"

fun into_result :: "('a \<Rightarrow> lc_result) \<Rightarrow> 'a terminal \<Rightarrow> lc_result" where
  "into_result apply_f (Applied x) = apply_f x"
| "into_result apply_f (AppliedWithWarning x s d) = (apply_f x)\<lparr>lr_warning := Some (s, d)\<rparr>"

subsection \<open>Availability of a concept id\<close>

definition is_same_file :: "lc_env \<Rightarrow> path \<Rightarrow> path option \<Rightarrow> bool" where
  "is_same_file env candidate held =
     (case held of None \<Rightarrow> False | Some h \<Rightarrow> h = candidate \<or> ce_same_file env h candidate)"

definition session_of :: "string \<Rightarrow> note_session option lc" where
  "session_of note_id = lc_get (\<lambda>w. map_of (lw_sessions w) note_id)"

definition ensure_path_available :: "lc_env \<Rightarrow> string \<Rightarrow> path \<Rightarrow> (string \<times> path) option \<Rightarrow> unit lc" where
  "ensure_path_available env new_id new_path held =
     lc_then (ask_files (fs_exists new_path)) (\<lambda>occupied.
       if occupied \<and> \<not> is_same_file env new_path (map_option snd held)
       then lc_fail (PathUnavailable ''already taken'')
       else
         lc_then (on_index (note_exists (ce_ws env) new_id)) (\<lambda>taken.
         lc_then (draft_exists new_id) (\<lambda>drafted.
           if taken \<and> map_option snd held \<noteq> Some new_path
           then lc_fail (PathUnavailable ''already exists'')
           else if drafted \<and> map_option fst held \<noteq> Some new_id
           then lc_fail (PathUnavailable ''still holds unflushed work'')
           else
             lc_then (session_of new_id) (\<lambda>session.
               if session \<noteq> None \<and> map_option fst held \<noteq> Some new_id
               then lc_fail (PathUnavailable ''still open in another session'')
               else lc_ret ()))))"

subsection \<open>Sessions\<close>

definition env_of :: "lc_env \<Rightarrow> string \<Rightarrow> path \<Rightarrow> note_env" where
  "env_of env note_id p =
     \<lparr>ne_ws = ce_ws env, ne_note = note_id, ne_path = p, ne_pulldown = ce_pulldown env, ne_reader = ce_reader env,
      ne_lookup_key = ce_lookup_key env, ne_hash = ce_hash env, ne_mtime = ce_mtime env p\<rparr>"

text \<open>An open note of the workspace, as the operations of \<open>Note_Session\<close> see it.\<close>

definition note_view :: "string \<Rightarrow> note_session \<Rightarrow> lc_world \<Rightarrow> note_world" where
  "note_view note_id s w =
     \<lparr>w_session = s, w_open = True, w_store = lw_store w, w_db = lw_db w, w_draft = map_of (lw_drafts w) note_id,
      w_timer = (note_id \<in> set (lw_armed w)), w_activity = 0, w_now = lw_now w\<rparr>"

text \<open>\<^verbatim>\<open>carry_session_forward\<close> of \<^verbatim>\<open>workspace/persist.rs\<close> on the registry.\<close>

definition carry_forward :: "lc_env \<Rightarrow> string \<Rightarrow> string \<Rightarrow> string option \<Rightarrow> string \<Rightarrow> unit lc" where
  "carry_forward env old_id new_id new_source new_revision w =
     (case map_of (lw_sessions w) old_id of
        None \<Rightarrow> (Inr (), w)
      | Some s \<Rightarrow>
          if old_id = new_id
          then (let v = install_rewrite (env_of env new_id (path_names (concept_id_to_path new_id))) new_source new_revision
                          (note_view old_id s w)
                in (Inr (), w\<lparr>lw_db := w_db v, lw_sessions := AList.update old_id (w_session v) (lw_sessions w)\<rparr>))
          else
            (case note_path (entry_of env w) new_id of
               Inl e \<Rightarrow> (Inl e, w)
             | Inr p \<Rightarrow>
                 (case carried_session (env_of env new_id p) new_source new_revision s (note_view old_id s w) of
                    (s', v) \<Rightarrow>
                      (Inr (), w\<lparr>lw_db := w_db v,
                        lw_sessions := AList.update new_id s' (AList.delete old_id (lw_sessions w)),
                        lw_armed := (if ns_unwritten s' then [new_id] else [])
                          @ filter (\<lambda>i. i \<noteq> old_id \<and> i \<noteq> new_id) (lw_armed w)\<rparr>))))"

definition retire_session :: "string \<Rightarrow> lc_world \<Rightarrow> lc_world" where
  "retire_session note_id w =
     w\<lparr>lw_sessions := AList.delete note_id (lw_sessions w), lw_armed := filter (\<lambda>i. i \<noteq> note_id) (lw_armed w)\<rparr>"

end
