(* ===== verification/Lifecycle_Ops.thy ===== *)
theory Lifecycle_Ops
  imports Lifecycle_World
begin

section \<open>Creating and deleting\<close>

text \<open>
  The remaining operations of \<^verbatim>\<open>workspace/lifecycle.rs\<close>: creating a note, creating the target of a link with its
  directories, creating a directory, deleting a note and deleting a directory with everything below it.
\<close>

subsection \<open>Opening within a workspace\<close>

text \<open>\<^verbatim>\<open>open_note_serialized\<close> on the registry; the session a closed note starts from is never looked at.\<close>

definition blank_session :: "note_env \<Rightarrow> note_session" where
  "blank_session e = opened_session e [] (pn_spans (parsed e [])) [] 0 [] False False 0"

definition open_in :: "lc_env \<Rightarrow> string \<Rightarrow> note_state lc" where
  "open_in env note_id w =
     (case map_of (lw_sessions w) note_id of
        Some s \<Rightarrow> (Inr (note_state_from s), w)
      | None \<Rightarrow>
          (case note_path (entry_of env w) note_id of
             Inl e \<Rightarrow> (Inl e, w)
           | Inr p \<Rightarrow>
               (let e = env_of env note_id p;
                    (r, v) = open_note e (Inr ()) ((note_view note_id (blank_session e) w)\<lparr>w_open := False, w_timer := False\<rparr>);
                    w = w\<lparr>lw_store := w_store v, lw_db := w_db v\<rparr>
                in case r of
                     Inl e \<Rightarrow> (Inl e, w)
                   | Inr state \<Rightarrow>
                       (Inr state, w\<lparr>lw_sessions := AList.update note_id (w_session v) (lw_sessions w),
                                     lw_armed := (if w_timer v then [note_id] else [])
                                       @ filter (\<lambda>i. i \<noteq> note_id) (lw_armed w)\<rparr>))))"

definition committing :: "lc_env \<Rightarrow> string \<Rightarrow> string list \<Rightarrow> lc_world \<Rightarrow> bool result \<times> lc_world" where
  "committing env message pathspec w =
     (ce_commit env message pathspec (lw_store w), w\<lparr>lw_commits := lw_commits w @ [(message, pathspec)]\<rparr>)"

definition remove_file :: "path \<Rightarrow> unit lc" where
  "remove_file p =
     lc_then (ask_files (fs_remove_file p)) (\<lambda>r. case r of Inl _ \<Rightarrow> lc_fail (IoError ''remove'') | Inr _ \<Rightarrow> lc_ret ())"

subsection \<open>A new note\<close>

definition derived_at :: "lc_env \<Rightarrow> string \<Rightarrow> path \<Rightarrow> string \<Rightarrow> store \<Rightarrow> indexed_note" where
  "derived_at env note_id p src st =
     derive_note (ce_pulldown env) (ce_reader env) note_id src (ce_hash env src) (ce_mtime env p st)"

definition commit_created :: "lc_env \<Rightarrow> string \<Rightarrow> string \<Rightarrow> note_state \<Rightarrow> note_state terminal lc" where
  "commit_created env note_id title state w =
     (let relative = concept_id_to_path note_id; subject = ''Create '' @ title
      in case committing env (subject @ [LF, LF] @ relative @ [LF]) [relative] w of
           (Inl e, w) \<Rightarrow> (Inr (AppliedWithWarning state CommitStage (commit_stage_failure subject e [])), w)
         | (Inr _, w) \<Rightarrow> (Inr (Applied state), w))"

definition rollback_created_note :: "lc_env \<Rightarrow> string \<Rightarrow> path \<Rightarrow> app_error \<Rightarrow> 'a lc" where
  "rollback_created_note env note_id p err w =
     (case lc_then (in_owned_transaction (lc_then (on_index (remove_note_rows (ce_ws env) note_id)) (\<lambda>_. clear_draft note_id)))
             (\<lambda>_. remove_file p) w of
        (Inl _, w) \<Rightarrow> (Inl (IoError ''could not roll back unpublished Note creation''), w)
      | (Inr _, w) \<Rightarrow> (Inl err, w))"

text \<open>The part after the file is there.\<close>

definition settle_created :: "lc_env \<Rightarrow> string \<Rightarrow> path \<Rightarrow> string \<Rightarrow> string \<Rightarrow> note_state terminal lc" where
  "settle_created env directory p new_id title w =
     (let src = conformant_frontmatter (ce_alnum env) title;
          n = derived_at env new_id p src (lw_store w)
      in case in_owned_transaction (on_index (sql_then (write_note_rows (ce_lookup_key env) (ce_ws env) n)
                (\<lambda>_. record_directories (ce_ws env) directory))) w of
           (Inl e, w) \<Rightarrow> (Inl e, snd (on_files (fs_remove_file p) w))
         | (Inr _, w) \<Rightarrow>
             (case open_in env new_id w of
                (Inl e, w) \<Rightarrow> rollback_created_note env new_id p e w
              | (Inr state, w) \<Rightarrow> commit_created env new_id title state w))"

definition create_note :: "lc_env \<Rightarrow> string \<Rightarrow> string \<Rightarrow> note_state terminal lc" where
  "create_note env directory_path title =
     lc_then (lc_lift (validate_title title)) (\<lambda>_.
     lc_then (lc_lift (normalize_directory directory_path)) (\<lambda>directory.
     lc_then (ensure_directory_exists env directory) (\<lambda>_.
     let new_id = join_id directory title
     in lc_then (note_path_of env new_id) (\<lambda>p.
        lc_then (ensure_path_available env new_id p None) (\<lambda>_.
        lc_then (ask_files (atomic_create p (conformant_frontmatter (ce_alnum env) title))) (\<lambda>created.
          case created of
            Inl e \<Rightarrow> lc_fail e
          | Inr False \<Rightarrow> lc_fail (PathUnavailable ''appeared while creating the Note'')
          | Inr True \<Rightarrow> settle_created env directory p new_id title))))))"

subsection \<open>Directories on the way to a note\<close>

text \<open>The directories made are returned in every case.\<close>

fun materialize :: "lc_env \<Rightarrow> string \<Rightarrow> string list \<Rightarrow> path list \<Rightarrow> lc_world \<Rightarrow> (unit result \<times> path list) \<times> lc_world" where
  "materialize env ancestor [] created w = ((Inr (), created), w)"
| "materialize env ancestor (segment # segments) created w =
     (let ancestor = (if ancestor = [] then segment else ancestor @ [SLASH] @ segment)
      in case directory_absolute env ancestor w of
           (Inl e, w) \<Rightarrow> ((Inl e, created), w)
         | (Inr p, w) \<Rightarrow>
             (case on_files (fs_create_dir p) w of
                (Inr _, w) \<Rightarrow> materialize env ancestor segments (created @ [p]) w
              | (Inl e, w) \<Rightarrow>
                  if e = ExistsErr then
                    (case on_files (fs_is_dir p) w of
                       (True, w) \<Rightarrow> materialize env ancestor segments created w
                     | (False, w) \<Rightarrow> ((Inl (PathUnavailable ''is already a file''), created), w))
                  else ((Inl (IoError ''create''), created), w)))"

definition materialize_link_target_directories :: "lc_env \<Rightarrow> string \<Rightarrow> lc_world \<Rightarrow> (unit result \<times> path list) \<times> lc_world" where
  "materialize_link_target_directories env directory =
     materialize env [] (filter (\<lambda>s. s \<noteq> []) (split_on SLASH directory)) []"

text \<open>Deepest first; a directory that has content by now is kept.\<close>

fun remove_created :: "path list \<Rightarrow> store \<Rightarrow> unit result \<times> store" where
  "remove_created [] st = (Inr (), st)"
| "remove_created (p # ps) st =
     (case fs_remove_dir p st of
        (Inr _, st) \<Rightarrow> remove_created ps st
      | (Inl e, st) \<Rightarrow> if e = NotFoundErr then remove_created ps st else (Inl (IoError ''remove''), st))"

definition cleanup_created_directories :: "path list \<Rightarrow> unit lc" where
  "cleanup_created_directories created w = on_files (remove_created (rev created)) w"

definition finish_link_target_directory_cleanup :: "path list \<Rightarrow> app_error \<Rightarrow> 'a lc" where
  "finish_link_target_directory_cleanup created err w =
     (case cleanup_created_directories created w of
        (Inl _, w) \<Rightarrow> (Inl (IoError ''could not roll back the Directories created for this Link target''), w)
      | (Inr _, w) \<Rightarrow> (Inl err, w))"

definition create_directory :: "lc_env \<Rightarrow> string \<Rightarrow> unit lc" where
  "create_directory env path_s =
     lc_then (lc_lift (normalize_directory path_s)) (\<lambda>directory.
       if directory = [] then lc_fail (PathUnavailable ''the bundle root already exists'')
       else
         lc_then (directory_absolute env directory) (\<lambda>p.
         lc_then (ask_files (fs_is_file p)) (\<lambda>is_file.
           if is_file then lc_fail (PathUnavailable ''is already a file'')
           else (\<lambda>w.
             case materialize_link_target_directories env directory w of
               ((Inl e, _), w) \<Rightarrow> (Inl e, w)
             | ((Inr _, created), w) \<Rightarrow>
                 (case in_owned_transaction (on_index (record_directories (ce_ws env) directory)) w of
                    (Inr _, w) \<Rightarrow> (Inr (), w)
                  | (Inl e, w) \<Rightarrow>
                      (case cleanup_created_directories created w of
                         (Inl _, w) \<Rightarrow> (Inl (IoError ''could not roll back Directories''), w)
                       | (Inr _, w) \<Rightarrow> (Inl e, w)))))))"

subsection \<open>The target of a link\<close>

fun missing_rows :: "string \<Rightarrow> string list \<Rightarrow> string list sql" where
  "missing_rows ws [] = sql_ret []"
| "missing_rows ws (a # as) =
     sql_then (directory_known ws a) (\<lambda>known.
     sql_then (missing_rows ws as) (\<lambda>rest. sql_ret (if known then rest else a # rest)))"

definition missing_directory_rows :: "lc_env \<Rightarrow> string \<Rightarrow> string list lc" where
  "missing_directory_rows env directory = on_index (missing_rows (ce_ws env) (directory_ancestors directory))"

text \<open>\<open>with_session\<close>: whether the session has been registered by then.\<close>

definition rollback_link_target_creation ::
    "lc_env \<Rightarrow> string \<Rightarrow> path \<Rightarrow> string list \<Rightarrow> path list \<Rightarrow> bool \<Rightarrow> app_error \<Rightarrow> 'a lc" where
  "rollback_link_target_creation env note_id p rows created with_session err w =
     (case lc_then (in_owned_transaction
               (lc_then (on_index (remove_note_rows (ce_ws env) note_id)) (\<lambda>_.
                lc_then (clear_draft note_id) (\<lambda>_.
                  on_index (sql_each (\<lambda>d. delete_directory_rows (ce_ws env) ((=) d)) rows)))))
             (\<lambda>_. lc_then (remove_file p) (\<lambda>_. cleanup_created_directories created))
             (if with_session then retire_session note_id w else w) of
        (Inl _, w) \<Rightarrow> (Inl (IoError ''could not roll back Link-target creation''), w)
      | (Inr _, w) \<Rightarrow> (Inl err, w))"

definition settle_link_target ::
    "lc_env \<Rightarrow> string \<Rightarrow> string \<Rightarrow> path \<Rightarrow> string list \<Rightarrow> path list \<Rightarrow> note_state terminal lc" where
  "settle_link_target env note_id title p rows created w =
     (let n = derived_at env note_id p (conformant_frontmatter (ce_alnum env) title) (lw_store w)
      in case in_owned_transaction (on_index (sql_then (write_note_rows (ce_lookup_key env) (ce_ws env) n) (\<lambda>_. sql_ret ()))) w of
           (Inl e, w) \<Rightarrow> rollback_link_target_creation env note_id p rows created False e w
         | (Inr _, w) \<Rightarrow>
             (case open_in env note_id w of
                (Inl e, w) \<Rightarrow> rollback_link_target_creation env note_id p rows created True e w
              | (Inr state, w) \<Rightarrow> commit_created env note_id title state w))"

definition create_link_target :: "lc_env \<Rightarrow> string \<Rightarrow> note_state terminal lc" where
  "create_link_target env target_id =
     lc_then (lc_lift (link_target_identity target_id)) (\<lambda>identity.
     lc_then (on_index (note_exists (ce_ws env) target_id)) (\<lambda>known.
       if known then lc_then (open_in env target_id) (\<lambda>state. lc_ret (Applied state))
       else
         lc_then (missing_directory_rows env (lt_directory_path identity)) (\<lambda>rows w.
           case materialize_link_target_directories env (lt_directory_path identity) w of
             ((Inl e, created), w) \<Rightarrow> finish_link_target_directory_cleanup created e w
           | ((Inr _, created), w) \<Rightarrow>
               lc_then (note_path_of env target_id) (\<lambda>p w.
                 case ensure_path_available env target_id p None w of
                   (Inl e, w) \<Rightarrow> finish_link_target_directory_cleanup created e w
                 | (Inr _, w) \<Rightarrow>
                     (case on_files (atomic_create p (conformant_frontmatter (ce_alnum env) (lt_title identity))) w of
                        (Inl e, w) \<Rightarrow> finish_link_target_directory_cleanup created e w
                      | (Inr False, w) \<Rightarrow>
                          finish_link_target_directory_cleanup created (PathUnavailable ''appeared while creating the Note'') w
                      | (Inr True, w) \<Rightarrow> settle_link_target env target_id (lt_title identity) p rows created w)) w)))"

subsection \<open>Deleting\<close>

text \<open>A transaction that fails after the file has been put aside.\<close>

definition putting_back :: "file_step list \<Rightarrow> app_error \<Rightarrow> 'a lc" where
  "putting_back steps e w =
     (case rolled_back (lw_store w, steps) e of (e', (st, _)) \<Rightarrow> (Inl e', w\<lparr>lw_store := st\<rparr>))"

definition settle_deleted ::
    "lc_env \<Rightarrow> string \<Rightarrow> string \<Rightarrow> string list \<Rightarrow> string list \<Rightarrow> string list \<Rightarrow> file_step list \<Rightarrow> string list terminal lc" where
  "settle_deleted env subject message pathspec retired removed steps w =
     (let (committed, w) = committing env message pathspec w;
          (cleanup, j) = commit (lw_store w, steps);
          w = fold retire_session retired (w\<lparr>lw_store := drop_journal j\<rparr>)
      in (Inr (case committed of
             Inl e \<Rightarrow> AppliedWithWarning removed CommitStage (commit_stage_failure subject e
               (case cleanup of Inl _ \<Rightarrow> [''removing the recovery trash artifact''] | Inr _ \<Rightarrow> []))
           | Inr _ \<Rightarrow>
               (case cleanup of
                  Inl e \<Rightarrow> AppliedWithWarning removed SettlementStage e
                | Inr _ \<Rightarrow> Applied removed)), w))"

definition delete_orphaned_draft :: "string \<Rightarrow> unit lc" where
  "delete_orphaned_draft note_id =
     lc_then (in_owned_transaction (lc_then (draft_exists note_id) (\<lambda>found.
                if \<not> found then lc_ret False else lc_then (clear_draft note_id) (\<lambda>_. lc_ret True)))) (\<lambda>cleared w.
       if \<not> cleared then (Inl (NotFound note_id), w) else (Inr (), retire_session note_id w))"

definition remove_note :: "lc_env \<Rightarrow> string \<Rightarrow> unit lc" where
  "remove_note env note_id = lc_then (on_index (remove_note_rows (ce_ws env) note_id)) (\<lambda>_. clear_draft note_id)"

text \<open>From the journal on.\<close>

definition trash_note :: "lc_env \<Rightarrow> string \<Rightarrow> string option \<Rightarrow> path \<Rightarrow> string list terminal lc" where
  "trash_note env note_id title p w =
     (case journal_trash p (lw_store w, []) of
        (Inl e, (st, _)) \<Rightarrow> (Inl e, w\<lparr>lw_store := st\<rparr>)
      | (Inr _, (st, steps)) \<Rightarrow>
          (case in_owned_transaction (remove_note env note_id) (w\<lparr>lw_store := st\<rparr>) of
             (Inl e, w) \<Rightarrow> putting_back steps e w
           | (Inr _, w) \<Rightarrow>
               (let relative = concept_id_to_path note_id;
                    subject = ''Delete '' @ (case title of None \<Rightarrow> file_stem note_id | Some t \<Rightarrow> t)
                in settle_deleted env subject (subject @ [LF, LF] @ relative @ [LF]) [relative] [note_id] [note_id]
                     steps w)))"

definition delete_note :: "lc_env \<Rightarrow> string \<Rightarrow> string list terminal lc" where
  "delete_note env note_id =
     lc_then (note_path_of env note_id) (\<lambda>p.
     lc_then (on_index (indexed_title (ce_ws env) note_id)) (\<lambda>title.
     lc_then (ask_files (fs_exists p)) (\<lambda>found.
       if \<not> found \<and> title = None
       then lc_then (delete_orphaned_draft note_id) (\<lambda>_. lc_ret (Applied [note_id]))
       else
         lc_then (ask_files (fs_exists p)) (\<lambda>found.
         lc_then (if found then ask_files (fs_is_file p) else lc_ret True) (\<lambda>is_file.
           if found \<and> \<not> is_file then lc_fail (NotFound note_id)
           else trash_note env note_id title p)))))"

definition clear_subtree :: "lc_env \<Rightarrow> string \<Rightarrow> string list \<Rightarrow> string list \<Rightarrow> unit lc" where
  "clear_subtree env directory notes_in orphaned =
     lc_then (lc_each (remove_note env) notes_in) (\<lambda>_.
     lc_then (lc_each clear_draft orphaned) (\<lambda>_.
       on_index (delete_directory_rows (ce_ws env)
         (\<lambda>i. i = directory \<or> like_match (like_escape directory @ [SLASH] @ ''%'') i))))"

definition trash_directory ::
    "lc_env \<Rightarrow> string \<Rightarrow> path \<Rightarrow> string list \<Rightarrow> string list \<Rightarrow> bool \<Rightarrow> string list terminal lc" where
  "trash_directory env directory p notes_in orphaned found w =
     (case (if found then journal_trash p (lw_store w, []) else (Inr (), (lw_store w, []))) of
        (Inl e, (st, _)) \<Rightarrow> (Inl e, w\<lparr>lw_store := st\<rparr>)
      | (Inr _, (st, steps)) \<Rightarrow>
          (case in_owned_transaction (clear_subtree env directory notes_in orphaned) (w\<lparr>lw_store := st\<rparr>) of
             (Inl e, w) \<Rightarrow> putting_back steps e w
           | (Inr _, w) \<Rightarrow>
               (let subject = ''Delete directory '' @ directory
                in settle_deleted env subject (subject @ [LF]) [directory] (notes_in @ orphaned)
                     (id_order (notes_in @ orphaned)) steps w)))"

text \<open>With the notes and the orphaned drafts below the directory listed.\<close>

definition delete_listed :: "lc_env \<Rightarrow> string \<Rightarrow> path \<Rightarrow> string list \<Rightarrow> string list \<Rightarrow> string list terminal lc" where
  "delete_listed env directory p notes_in orphaned =
     lc_then (ask_files (fs_exists p)) (\<lambda>found.
       if \<not> found \<and> notes_in = [] \<and> orphaned = [] then lc_fail (NotFound directory)
       else
         lc_then (ask_files (fs_exists p)) (\<lambda>found.
         lc_then (if found then ask_files (fs_is_dir p) else lc_ret True) (\<lambda>is_dir.
           if found \<and> \<not> is_dir then lc_fail (NotFound directory)
           else lc_then (ask_files (fs_exists p)) (trash_directory env directory p notes_in orphaned))))"

definition delete_directory :: "lc_env \<Rightarrow> string \<Rightarrow> string list terminal lc" where
  "delete_directory env path_s =
     lc_then (lc_lift (normalize_directory path_s)) (\<lambda>directory.
       if directory = [] then lc_fail (PathUnavailable ''the bundle root cannot be deleted'')
       else
         lc_then (directory_absolute env directory) (\<lambda>p.
         lc_then (on_index (note_ids_with_prefix (ce_ws env) (directory @ [SLASH]))) (\<lambda>notes_in.
         lc_then (draft_ids_with_prefix (directory @ [SLASH])) (\<lambda>drafted.
           delete_listed env directory p notes_in (filter (\<lambda>i. i \<notin> set notes_in) drafted)))))"

end
