(* ===== verification/Reidentify.thy ===== *)
theory Reidentify
  imports Lifecycle_World
begin

section \<open>Renaming and moving\<close>

text \<open>
  The re-identification of \<^verbatim>\<open>workspace/lifecycle.rs\<close>: the plan over every note that may hold a link to the ids
  that move, the file steps under the journal, the index transaction, the commit and the sessions carried forward;
  and the three operations built on it.
\<close>

record directory_rename =
  dn_old :: string
  dn_new :: string
  dn_old_absolute :: path
  dn_new_absolute :: path

record reidentify =
  re_remap :: remap
  re_file_less :: "string list"
  re_invoked :: "string option"
  re_retitled :: "(string \<times> string) option"
  re_absolutize :: "string option"
  re_directory_rename :: "directory_rename option"
  re_message :: string

record affected =
  af_old_id :: string
  af_new_id :: string
  af_old_path :: path
  af_new_path :: path
  af_on_disk :: bool
  af_new_file :: "string option"
  af_new_buffer :: "string option"
  af_new_draft :: "string option"
  af_revision :: string

subsection \<open>The plan\<close>

definition or_else :: "'a option \<Rightarrow> 'a option \<Rightarrow> 'a option" where
  "or_else x y = (case x of None \<Rightarrow> y | Some _ \<Rightarrow> x)"

definition rewrite_note_text :: "lc_env \<Rightarrow> string \<Rightarrow> string \<Rightarrow> remap \<Rightarrow> string option \<Rightarrow> bool \<Rightarrow> string option result" where
  "rewrite_note_text env src dir rmap new_title absolutize =
     (let retitled = Option.bind new_title (rewrite_frontmatter_title (ce_pulldown env) (ce_alnum env) src);
          base1 = (case retitled of None \<Rightarrow> src | Some t \<Rightarrow> t)
      in and_then (if absolutize then absolutize_relative_links (ce_pulldown env) base1 dir else Inr None) (\<lambda>absolutized.
           let base2 = (case absolutized of None \<Rightarrow> base1 | Some t \<Rightarrow> t)
           in and_then (rewrite_link_targets (ce_pulldown env) base2 dir rmap) (\<lambda>rewritten.
                Inr (or_else rewritten (or_else absolutized retitled)))))"

definition lift_opt :: "('a \<Rightarrow> 'b option result) \<Rightarrow> 'a option \<Rightarrow> 'b option result" where
  "lift_opt f x = (case x of None \<Rightarrow> Inr None | Some v \<Rightarrow> f v)"

text \<open>A candidate whose two paths resolve.\<close>

definition plan_at :: "lc_env \<Rightarrow> reidentify \<Rightarrow> string \<Rightarrow> string \<Rightarrow> path \<Rightarrow> path \<Rightarrow> affected option lc" where
  "plan_at env plan old_id new_id old_path new_path =
     (let new_title = (case re_retitled plan of
                         Some (i, t) \<Rightarrow> if i = old_id then Some t else None
                       | None \<Rightarrow> None);
          rewrite = lift_opt (\<lambda>src. rewrite_note_text env src (containing_dir old_id) (re_remap plan) new_title
                      (re_absolutize plan = Some old_id))
      in lc_then (read_source old_path) (\<lambda>disk.
           if disk = None \<and> map_of (re_remap plan) old_id \<noteq> None \<and> old_id \<notin> set (re_file_less plan)
           then lc_fail (NotFound old_id)
           else
             lc_then (lc_lift (rewrite disk)) (\<lambda>new_file.
             lc_then (session_of old_id) (\<lambda>session.
             lc_then (lc_lift (rewrite (map_option ns_source session))) (\<lambda>new_buffer.
             lc_then (read_draft_text old_id) (\<lambda>draft.
             lc_then (lc_lift (rewrite draft)) (\<lambda>new_draft.
               if disk = None \<and> draft = None \<and> session = None then lc_ret None
               else if new_file = None \<and> new_buffer = None \<and> new_draft = None \<and> old_id = new_id then lc_ret None
               else lc_ret (Some
                 \<lparr>af_old_id = old_id, af_new_id = new_id, af_old_path = old_path, af_new_path = new_path,
                  af_on_disk = (disk \<noteq> None), af_new_file = new_file, af_new_buffer = new_buffer,
                  af_new_draft = new_draft,
                  af_revision = ce_hash env (case or_else new_file disk of None \<Rightarrow> [] | Some t \<Rightarrow> t)\<rparr>))))))))"

definition plan_one :: "lc_env \<Rightarrow> reidentify \<Rightarrow> string list \<Rightarrow> string \<Rightarrow> affected option lc" where
  "plan_one env plan targets old_id =
     (let new_id = (case map_of (re_remap plan) old_id of None \<Rightarrow> old_id | Some n \<Rightarrow> n)
      in lc_then (lc_get (entry_of env)) (\<lambda>fs.
           case and_then (note_path fs old_id) (\<lambda>p. and_then (note_path fs new_id) (\<lambda>q. Inr (p, q))) of
             Inl e \<Rightarrow> if old_id \<in> set targets then lc_fail e else lc_ret None
           | Inr (old_path, new_path) \<Rightarrow> plan_at env plan old_id new_id old_path new_path))"

fun link_sources_all :: "string \<Rightarrow> string list \<Rightarrow> string list lc" where
  "link_sources_all ws [] = lc_ret []"
| "link_sources_all ws (i # ids) =
     lc_then (on_index (link_sources ws i)) (\<lambda>s. lc_then (link_sources_all ws ids) (\<lambda>ss. lc_ret (s @ ss)))"

definition plan_affected :: "lc_env \<Rightarrow> reidentify \<Rightarrow> affected list lc" where
  "plan_affected env plan =
     (let targets = map fst (re_remap plan) @ (case re_retitled plan of None \<Rightarrow> [] | Some (i, _) \<Rightarrow> [i])
      in lc_then (link_sources_all (ce_ws env) (id_order (map fst (re_remap plan)))) (\<lambda>sources.
         lc_then draft_note_ids (\<lambda>drafted.
         lc_then (lc_get (\<lambda>w. map fst (lw_sessions w))) (\<lambda>opened.
           lc_collect (plan_one env plan targets) (id_order (targets @ sources @ drafted @ opened))))))"

subsection \<open>Files\<close>

definition write_calls :: "reidentify \<Rightarrow> affected list \<Rightarrow> journal_call list" where
  "write_calls plan affected =
     concat (map (\<lambda>a. case af_new_file a of None \<Rightarrow> [] | Some t \<Rightarrow> [COverwrite (af_old_path a) t]) affected)
     @ (case re_directory_rename plan of
          Some r \<Rightarrow> [CRename (dn_old_absolute r) (dn_new_absolute r)]
        | None \<Rightarrow> map (\<lambda>a. CRename (af_old_path a) (af_new_path a))
                    (filter (\<lambda>a. af_old_path a \<noteq> af_new_path a) affected))"

definition write_files :: "reidentify \<Rightarrow> affected list \<Rightarrow> journal \<Rightarrow> unit result \<times> journal" where
  "write_files plan affected = run_calls (write_calls plan affected)"

definition final_source :: "affected \<Rightarrow> store \<Rightarrow> string result \<times> store" where
  "final_source a st =
     (case af_new_file a of
        Some t \<Rightarrow> (Inr t, st)
      | None \<Rightarrow>
          (case fs_read (af_new_path a) st of
             (Inl _, st) \<Rightarrow> (Inl (IoError ''read''), st)
           | (Inr b, st) \<Rightarrow> if valid_utf8 b then (Inr b, st) else (Inl (IoError ''read''), st)))"

fun derive_all :: "lc_env \<Rightarrow> affected list \<Rightarrow> store \<Rightarrow> indexed_note list result \<times> store" where
  "derive_all env [] st = (Inr [], st)"
| "derive_all env (a # as) st =
     (case final_source a st of
        (Inl e, st) \<Rightarrow> (Inl e, st)
      | (Inr src, st) \<Rightarrow>
          (let n = derive_note (ce_pulldown env) (ce_reader env) (af_new_id a) src (ce_hash env src)
                     (ce_mtime env (af_new_path a) st)
           in case derive_all env as st of
                (Inl e, st) \<Rightarrow> (Inl e, st)
              | (Inr ns, st) \<Rightarrow> (Inr (n # ns), st)))"

subsection \<open>The index\<close>

definition moved_directory :: "directory_rename \<Rightarrow> string \<Rightarrow> string option" where
  "moved_directory r i =
     (if i = dn_old r then Some (dn_new r)
      else map_option (\<lambda>rest. dn_new r @ [SLASH] @ rest) (strip_prefix (dn_old r @ [SLASH]) i))"

definition rekey_directories :: "string \<Rightarrow> directory_rename \<Rightarrow> unit sql" where
  "rekey_directories ws r =
     sql_then (statement (\<lambda>d. (Inr (map dr_id (filter (\<lambda>row. dr_ws row = ws) (db_dirs d))), d))) (\<lambda>existing.
     sql_then (sql_each (\<lambda>i. case moved_directory r i of
                 None \<Rightarrow> sql_ret ()
               | Some moved_id \<Rightarrow>
                   sql_then (delete_directory_rows ws ((=) i)) (\<lambda>_. insert_directory ws moved_id)) existing) (\<lambda>_.
       record_directories ws (dn_new r)))"

definition rekey_one :: "affected \<Rightarrow> unit lc" where
  "rekey_one a =
     lc_then (if af_old_id a \<noteq> af_new_id a then rekey_draft (af_old_id a) (af_new_id a) else lc_ret ()) (\<lambda>_.
       case af_new_draft a of None \<Rightarrow> lc_ret () | Some t \<Rightarrow> rewrite_draft (af_new_id a) t)"

definition rewrite_index :: "lc_env \<Rightarrow> reidentify \<Rightarrow> affected list \<Rightarrow> indexed_note list \<Rightarrow> unit lc" where
  "rewrite_index env plan affected indexed =
     lc_then (on_index (sql_each (\<lambda>(old_id, new_id). retarget_links (ce_ws env) old_id new_id) (re_remap plan))) (\<lambda>_.
     lc_then (lc_each rekey_one affected) (\<lambda>_.
     lc_then (on_index (sql_each (\<lambda>a. remove_note_rows (ce_ws env) (af_old_id a))
                (filter (\<lambda>a. af_old_id a \<noteq> af_new_id a) affected))) (\<lambda>_.
     lc_then (on_index (sql_each (\<lambda>n. sql_then (write_note_rows_deferring_analyze (ce_lookup_key env) (ce_ws env) n)
                (\<lambda>_. sql_ret ())) indexed)) (\<lambda>_.
       case re_directory_rename plan of
         None \<Rightarrow> lc_ret ()
       | Some r \<Rightarrow> on_index (rekey_directories (ce_ws env) r)))))"

subsection \<open>The operation\<close>

definition pathspec_of :: "lc_env \<Rightarrow> reidentify \<Rightarrow> affected list \<Rightarrow> store \<Rightarrow> string list" where
  "pathspec_of env plan affected st =
     concat (map (\<lambda>a. concept_id_to_path (af_old_id a)
         # (if af_old_id a \<noteq> af_new_id a then [concept_id_to_path (af_new_id a)] else []))
       (filter af_on_disk affected))
     @ (case re_directory_rename plan of
          None \<Rightarrow> []
        | Some r \<Rightarrow> dn_old r # collect_files env (dn_new_absolute r) st)"

text \<open>Every session is carried; the first failure is kept.\<close>

fun carry_all :: "lc_env \<Rightarrow> affected list \<Rightarrow> lc_world \<Rightarrow> unit result \<times> lc_world" where
  "carry_all env [] w = (Inr (), w)"
| "carry_all env (a # as) w =
     (case carry_forward env (af_old_id a) (af_new_id a) (af_new_buffer a) (af_revision a) w of
        (r, w) \<Rightarrow> (case carry_all env as w of
            (rs, w) \<Rightarrow> ((case r of Inl e \<Rightarrow> Inl e | Inr _ \<Rightarrow> rs), w)))"

definition effects_of :: "reidentify \<Rightarrow> affected list \<Rightarrow> effects" where
  "effects_of plan affected =
     (let beyond = filter (\<lambda>a. re_invoked plan \<noteq> Some (af_old_id a)) affected
      in \<lparr>ef_remapped = map (\<lambda>a. (af_old_id a, af_new_id a)) (filter (\<lambda>a. af_old_id a \<noteq> af_new_id a) beyond),
          ef_rewritten = map af_new_id (filter (\<lambda>a. af_old_id a = af_new_id a
            \<and> (af_new_file a \<noteq> None \<or> af_new_buffer a \<noteq> None \<or> af_new_draft a \<noteq> None)) beyond)\<rparr>)"

text \<open>Rolling back inside a workspace.\<close>

definition abandon :: "file_step list \<Rightarrow> app_error \<Rightarrow> 'a lc" where
  "abandon steps e w =
     (case rolled_back (lw_store w, steps) e of (e', (st, _)) \<Rightarrow> (Inl e', w\<lparr>lw_store := st\<rparr>))"

text \<open>The part after both stores have settled: statistics, commit, journal, sessions, in this order.\<close>

definition settle :: "lc_env \<Rightarrow> reidentify \<Rightarrow> affected list \<Rightarrow> file_step list \<Rightarrow> lc_world \<Rightarrow> effects terminal \<times> lc_world" where
  "settle env plan affected steps w =
     (let (analyzed, w) = on_index analyze w;
          best_effort = (case analyzed of Inl _ \<Rightarrow> [''refreshing the query planner's statistics''] | Inr _ \<Rightarrow> []);
          pathspec = pathspec_of env plan affected (lw_store w);
          committed = ce_commit env (re_message plan) pathspec (lw_store w);
          w = w\<lparr>lw_commits := lw_commits w @ [(re_message plan, pathspec)]\<rparr>;
          (cleanup, j) = commit (lw_store w, steps);
          w = w\<lparr>lw_store := drop_journal j\<rparr>;
          (carried, w) = carry_all env affected w;
          value_e = effects_of plan affected
      in ((case committed of
             Inl e \<Rightarrow> AppliedWithWarning value_e CommitStage (commit_stage_failure (takeWhile (\<lambda>c. c \<noteq> LF) (re_message plan)) e
               (best_effort
                @ (case carried of Inl _ \<Rightarrow> [''carrying the settled sessions forward''] | Inr _ \<Rightarrow> [])
                @ (case cleanup of Inl _ \<Rightarrow> [''removing the lifecycle recovery artifact''] | Inr _ \<Rightarrow> [])))
           | Inr _ \<Rightarrow>
               (case carried of
                  Inl e \<Rightarrow> AppliedWithWarning value_e SettlementStage e
                | Inr _ \<Rightarrow>
                    (case cleanup of
                       Inl e \<Rightarrow> AppliedWithWarning value_e SettlementStage e
                     | Inr _ \<Rightarrow> Applied value_e))), w))"

definition apply_reidentify :: "lc_env \<Rightarrow> reidentify \<Rightarrow> effects terminal lc" where
  "apply_reidentify env plan =
     lc_then (plan_affected env plan) (\<lambda>affected w.
       case write_files plan affected (lw_store w, []) of
         (Inl e, (st, steps)) \<Rightarrow> abandon steps e (w\<lparr>lw_store := st\<rparr>)
       | (Inr _, (st, steps)) \<Rightarrow>
           (case derive_all env (filter af_on_disk affected) st of
              (Inl e, st) \<Rightarrow> abandon steps e (w\<lparr>lw_store := st\<rparr>)
            | (Inr indexed, st) \<Rightarrow>
                (case in_owned_transaction (rewrite_index env plan affected indexed) (w\<lparr>lw_store := st\<rparr>) of
                   (Inl e, w) \<Rightarrow> abandon steps e w
                 | (Inr _, w) \<Rightarrow> (case settle env plan affected steps w of (t, w) \<Rightarrow> (Inr t, w)))))"

subsection \<open>The settled state\<close>

definition state_of_file :: "lc_env \<Rightarrow> string \<Rightarrow> path \<Rightarrow> string \<Rightarrow> (note_state \<times> app_error option) lc" where
  "state_of_file env note_id p src w =
     (let pn = parse_note (ce_pulldown env) src (containing_dir note_id);
          (linked, w) = on_index (resolve_link_existence (ce_ws env) (pn_ast pn)) w;
          ast = (case linked of Inr ast \<Rightarrow> ast | Inl _ \<Rightarrow> pn_ast pn)
      in (Inr (\<lparr>nt_ast = ast,
                nt_metadata = derive_metadata (ce_reader env) note_id src (pn_spans pn) (ce_mtime env p (lw_store w)),
                nt_base_revision = ce_hash env src, nt_restored = False\<rparr>,
               (case linked of Inr _ \<Rightarrow> None | Inl e \<Rightarrow> Some e)), w))"

definition settled_state :: "lc_env \<Rightarrow> string \<Rightarrow> (note_state \<times> app_error option) lc" where
  "settled_state env note_id =
     lc_then (session_of note_id) (\<lambda>session.
       case session of
         Some s \<Rightarrow> lc_ret (note_state_from s, None)
       | None \<Rightarrow>
           lc_then (note_path_of env note_id) (\<lambda>p.
           lc_then (ask_files (fs_read p)) (\<lambda>r.
             case r of
               Inl _ \<Rightarrow> lc_fail (IoError ''read'')
             | Inr src \<Rightarrow> state_of_file env note_id p src)))"

fun with_state_settlement_warning :: "'a terminal \<Rightarrow> app_error option \<Rightarrow> 'a terminal" where
  "with_state_settlement_warning t None = t"
| "with_state_settlement_warning (Applied x) (Some e) = AppliedWithWarning x SettlementStage e"
| "with_state_settlement_warning (AppliedWithWarning x s d) (Some e) =
     AppliedWithWarning x s (restate d (\<lambda>detail. detail @ '' (also, '' @ ''Link-existence badges'' @ '')''))"

definition with_settled_state :: "lc_env \<Rightarrow> reidentify \<Rightarrow> string \<Rightarrow> (note_state \<times> effects) terminal lc" where
  "with_settled_state env plan new_id =
     lc_then (apply_reidentify env plan) (\<lambda>t.
     lc_then (settled_state env new_id) (\<lambda>(state, warning).
       lc_ret (map_terminal_value (Pair state) (with_state_settlement_warning t warning))))"

subsection \<open>The operations\<close>

definition rename_plan :: "string \<Rightarrow> string \<Rightarrow> string \<Rightarrow> reidentify" where
  "rename_plan note_id new_id new_title =
     \<lparr>re_remap = (if new_id \<noteq> note_id then [(note_id, new_id)] else []), re_file_less = [],
      re_invoked = Some note_id, re_retitled = Some (note_id, new_title), re_absolutize = None,
      re_directory_rename = None,
      re_message = ''Rename '' @ file_stem note_id @ '' to '' @ new_title @ [LF, LF] @ concept_id_to_path new_id @ [LF]\<rparr>"

definition rename_note :: "lc_env \<Rightarrow> string \<Rightarrow> string \<Rightarrow> (note_state \<times> effects) terminal lc" where
  "rename_note env note_id new_title =
     lc_then (lc_lift (validate_title new_title)) (\<lambda>_.
     lc_then (note_path_of env note_id) (\<lambda>old_path.
     lc_then (ask_files (fs_is_file old_path)) (\<lambda>is_file.
       if \<not> is_file then lc_fail (NotFound note_id)
       else
         let new_id = join_id (containing_dir note_id) new_title
         in lc_then (note_path_of env new_id) (\<lambda>new_path.
            lc_then (ensure_path_available env new_id new_path (Some (note_id, old_path))) (\<lambda>_.
              with_settled_state env (rename_plan note_id new_id new_title) new_id)))))"

definition move_plan :: "string \<Rightarrow> string \<Rightarrow> string \<Rightarrow> reidentify" where
  "move_plan note_id new_id directory =
     \<lparr>re_remap = (if new_id \<noteq> note_id then [(note_id, new_id)] else []), re_file_less = [],
      re_invoked = Some note_id, re_retitled = None,
      re_absolutize = (if containing_dir note_id \<noteq> directory then Some note_id else None),
      re_directory_rename = None,
      re_message = ''Move '' @ file_stem note_id @ '' to ''
        @ (if directory = [] then ''the bundle root'' else directory) @ [LF, LF] @ concept_id_to_path new_id @ [LF]\<rparr>"

definition move_note :: "lc_env \<Rightarrow> string \<Rightarrow> string \<Rightarrow> (note_state \<times> effects) terminal lc" where
  "move_note env note_id new_directory_path =
     lc_then (note_path_of env note_id) (\<lambda>old_path.
     lc_then (ask_files (fs_is_file old_path)) (\<lambda>is_file.
       if \<not> is_file then lc_fail (NotFound note_id)
       else
         lc_then (lc_lift (normalize_directory new_directory_path)) (\<lambda>directory.
         lc_then (ensure_directory_exists env directory) (\<lambda>_.
         let new_id = join_id directory (file_stem note_id)
         in lc_then (note_path_of env new_id) (\<lambda>new_path.
            lc_then (ensure_path_available env new_id new_path (Some (note_id, old_path))) (\<lambda>_.
              with_settled_state env (move_plan note_id new_id directory) new_id))))))"

text \<open>The first destination with a draft of its own, then the first with a session of its own.\<close>

fun drafted_destination :: "(string \<times> string) list \<Rightarrow> string option lc" where
  "drafted_destination [] = lc_ret None"
| "drafted_destination ((old_id, new_id) # rest) =
     (if new_id = old_id then drafted_destination rest
      else lc_then (draft_exists new_id) (\<lambda>d. if d then lc_ret (Some new_id) else drafted_destination rest))"

definition ensure_destinations_free :: "remap \<Rightarrow> unit lc" where
  "ensure_destinations_free rmap =
     lc_then (drafted_destination rmap) (\<lambda>drafted.
       if drafted \<noteq> None then lc_fail (PathUnavailable ''still holds unflushed work'')
       else
         lc_then (lc_get lw_sessions) (\<lambda>sessions.
           if list_ex (\<lambda>(old_id, new_id). new_id \<noteq> old_id \<and> map_of rmap new_id = None \<and> map_of sessions new_id \<noteq> None) rmap
           then lc_fail (PathUnavailable ''still open in another session'')
           else lc_ret ()))"

definition directory_plan :: "string \<Rightarrow> string \<Rightarrow> path \<Rightarrow> path \<Rightarrow> string list \<Rightarrow> string list \<Rightarrow> reidentify" where
  "directory_plan directory new_directory old_absolute new_absolute subtree orphaned =
     \<lparr>re_remap = map (\<lambda>i. (i, new_directory @ [SLASH]
                     @ (case strip_prefix (directory @ [SLASH]) i of None \<Rightarrow> i | Some rest \<Rightarrow> rest)))
                   (id_order (subtree @ orphaned)),
      re_file_less = orphaned, re_invoked = None, re_retitled = None, re_absolutize = None,
      re_directory_rename = Some \<lparr>dn_old = directory, dn_new = new_directory,
        dn_old_absolute = old_absolute, dn_new_absolute = new_absolute\<rparr>,
      re_message = ''Rename directory '' @ directory @ '' to '' @ new_directory @ [LF]\<rparr>"

definition rename_directory :: "lc_env \<Rightarrow> string \<Rightarrow> string \<Rightarrow> effects terminal lc" where
  "rename_directory env path_s new_name =
     lc_then (lc_lift (normalize_directory path_s)) (\<lambda>directory.
       if directory = [] then lc_fail (PathUnavailable ''the bundle root cannot be renamed'')
       else
         lc_then (lc_lift (validate_segment new_name)) (\<lambda>_.
         let new_directory = join_id (containing_dir directory) new_name
         in lc_then (directory_absolute env directory) (\<lambda>old_absolute.
            lc_then (directory_absolute env new_directory) (\<lambda>new_absolute.
            lc_then (ask_files (fs_is_dir old_absolute)) (\<lambda>is_dir.
              if \<not> is_dir then lc_fail (NotFound directory)
              else
                lc_then (if new_directory \<noteq> directory then ask_files (fs_exists new_absolute) else lc_ret False) (\<lambda>occupied.
                  if occupied \<and> \<not> is_same_file env new_absolute (Some old_absolute)
                  then lc_fail (PathUnavailable ''already exists'')
                  else if new_directory = directory
                  then lc_ret (Applied \<lparr>ef_remapped = [], ef_rewritten = []\<rparr>)
                  else
                    lc_then (on_index (note_ids_with_prefix (ce_ws env) (directory @ [SLASH]))) (\<lambda>subtree.
                    lc_then (draft_ids_with_prefix (directory @ [SLASH])) (\<lambda>drafted.
                    let plan = directory_plan directory new_directory old_absolute new_absolute subtree
                                 (filter (\<lambda>i. i \<notin> set subtree) drafted)
                    in lc_then (ensure_destinations_free (re_remap plan)) (\<lambda>_. apply_reidentify env plan)))))))))"

end
