(* ===== verification/Reidentify_Laws.thy ===== *)
theory Reidentify_Laws
  imports Reidentify Journal_Rollback Index_Laws Flush_Laws
begin

section \<open>Renames and moves complete or change nothing\<close>

subsection \<open>Reading\<close>

text \<open>What reading leaves alone: everything but the schedules of faults.\<close>

definition same_world :: "lc_world \<Rightarrow> lc_world \<Rightarrow> bool" where
  "same_world w w' \<longleftrightarrow> same_tables (lw_db w) (lw_db w') \<and> db_in_tx (lw_db w') = db_in_tx (lw_db w)
     \<and> lw_drafts w' = lw_drafts w \<and> lw_sessions w' = lw_sessions w \<and> lw_armed w' = lw_armed w
     \<and> lw_commits w' = lw_commits w \<and> lw_now w' = lw_now w
     \<and> st_tree (lw_store w') = st_tree (lw_store w) \<and> fields_kept (lw_store w) (lw_store w')"

definition reads :: "'a lc \<Rightarrow> bool" where
  "reads m \<longleftrightarrow> (\<forall>w. same_world w (snd (m w)))"

definition reads_rows :: "'a sql \<Rightarrow> bool" where
  "reads_rows m \<longleftrightarrow> (\<forall>d. same_tables d (snd (m d)) \<and> db_in_tx (snd (m d)) = db_in_tx d)"

named_theorems reading

lemma same_world_refl [simp]: "same_world w w"
  by (simp add: same_world_def fields_kept_def)

lemma same_world_trans: "same_world a b \<Longrightarrow> same_world b c \<Longrightarrow> same_world a c"
  by (auto simp: same_world_def fields_kept_def intro: same_tables_trans)

lemma readsD: "reads m \<Longrightarrow> m w = (r, w') \<Longrightarrow> same_world w w'"
  by (metis reads_def snd_conv)

lemma readsI: "(\<And>w r w'. m w = (r, w') \<Longrightarrow> same_world w w') \<Longrightarrow> reads m"
  by (simp add: reads_def) (metis prod.collapse)

lemma reads_simple [reading]: "reads (lc_ret x)" "reads (lc_fail e)" "reads (lc_lift r)" "reads (lc_get g)"
  by (simp_all add: reads_def lc_ret_def lc_fail_def lc_lift_def lc_get_def)

lemma reads_then [reading]:
  assumes "reads m" and "\<And>x. reads (f x)"
  shows "reads (lc_then m f)"
proof (rule readsI)
  fix w r w' assume t: "lc_then m f w = (r, w')"
  obtain r1 w1 where 1: "m w = (r1, w1)" by (cases "m w")
  have "same_world w w1" using readsD [OF assms(1) 1] .
  moreover have "same_world w1 w'"
    using t 1 readsD [OF assms(2)] by (cases r1) (auto simp: lc_then_def)
  ultimately show "same_world w w'" by (rule same_world_trans)
qed

lemma reads_collect [reading]: "(\<And>x. reads (f x)) \<Longrightarrow> reads (lc_collect f xs)"
  by (induction xs) (auto intro!: reading)

lemma reads_if [reading]: "reads a \<Longrightarrow> reads b \<Longrightarrow> reads (if c then a else b)"
  by simp

lemma reads_index [reading]:
  assumes "reads_rows m"
  shows "reads (on_index m)"
proof (rule readsI)
  fix w r w' assume "on_index m w = (r, w')"
  moreover obtain r1 d1 where 1: "m (lw_db w) = (r1, d1)" by (cases "m (lw_db w)")
  moreover have "same_tables (lw_db w) d1 \<and> db_in_tx d1 = db_in_tx (lw_db w)"
    using assms [unfolded reads_rows_def, rule_format, of "lw_db w"] 1 by simp
  ultimately show "same_world w w'" by (auto simp: on_index_def same_world_def fields_kept_def)
qed

lemma rows_statement:
  assumes "\<And>d. snd (f d) = d"
  shows "reads_rows (statement f)"
  using assms by (simp add: reads_rows_def statement_def same_tables_def Let_def split: list.split option.split)

lemma reads_queries [reading]:
  "reads_rows (link_sources ws i)" "reads_rows (note_ids_with_prefix ws pre)" "reads_rows (indexed_title ws i)"
  "reads_rows (directory_known ws dir)" "reads_rows (note_exists ws i)"
  by (auto simp: link_sources_def note_ids_with_prefix_def indexed_title_def directory_known_def note_exists_def
      intro!: rows_statement)

lemma reads_plain [reading]: "reads (on_index (statement (\<lambda>d. (Inr (), d))))"
  by (intro reads_index rows_statement) simp

lemma reads_drafts:
  assumes "\<And>rows. snd (f rows) = rows"
  shows "reads (drafts_statement f)"
  unfolding drafts_statement_def
proof (intro reads_then reads_plain readsI)
  fix x :: unit and w :: lc_world and r w'
  assume "(\<lambda>w. case f (lw_drafts w) of (x, rows) \<Rightarrow> (Inr x, w\<lparr>lw_drafts := rows\<rparr>)) w = (r, w')"
  then show "same_world w w'"
    using assms [of "lw_drafts w"] by (auto simp: same_world_def fields_kept_def split: prod.splits)
qed

lemma reads_draft_queries [reading]:
  "reads (draft_exists i)" "reads (read_draft_text i)" "reads draft_note_ids" "reads (draft_ids_with_prefix pre)"
  by (auto simp: draft_exists_def read_draft_text_def draft_note_ids_def draft_ids_with_prefix_def intro!: reads_drafts)

lemma reads_ask:
  assumes "\<And>st. st_tree (snd (f st)) = st_tree st \<and> fields_kept st (snd (f st))"
  shows "reads (ask_files f)"
  using assms by (simp add: reads_def ask_files_def on_files_def same_world_def split: prod.split) (metis snd_conv)

lemma fs_read_keeps: "fs_read p st = (r, st') \<Longrightarrow> st_tree st' = st_tree st \<and> fields_kept st st'"
  using fs_read_effect read_mode_kept(1) by metis

lemma test_keeps: "sys (\<lambda>t. (r t, t)) st = (x, st') \<Longrightarrow> st_tree st' = st_tree st \<and> fields_kept st st'"
  using sys_kept by (auto elim: sysE)

lemma reads_tests [reading]:
  "reads (ask_files (fs_read p))" "reads (ask_files (fs_exists p))" "reads (ask_files (fs_is_file p))"
  "reads (ask_files (fs_is_dir p))"
proof -
  have t: "st_tree (snd (fs_test P p st)) = st_tree st \<and> fields_kept st (snd (fs_test P p st))" for P st
    using test_keeps [where r = "\<lambda>t. Inr (P (map_of t p)) :: io_kind + bool"]
    by (simp add: fs_test_def split: prod.split sum.split)
  have d: "st_tree (snd (fs_is_dir p st)) = st_tree st \<and> fields_kept st (snd (fs_is_dir p st))" for st
    using test_keeps [where r = "\<lambda>t. Inr (map_of t p = Some NDir) :: io_kind + bool"]
    by (simp add: fs_is_dir_def split: prod.split sum.split)
  show "reads (ask_files (fs_read p))" by (rule reads_ask) (metis fs_read_keeps prod.collapse)
  show "reads (ask_files (fs_exists p))" "reads (ask_files (fs_is_file p))" "reads (ask_files (fs_is_dir p))"
    by (simp_all add: fs_exists_def fs_is_file_def reads_ask t d)
qed

lemma reads_source [reading]: "reads (read_source p)"
  unfolding read_source_def by (auto intro!: reading split: sum.split)

lemma reads_paths [reading]: "reads (note_path_of env i)" "reads (session_of i)" "reads (directory_absolute env dir)"
  unfolding note_path_of_def session_of_def directory_absolute_def by (auto intro!: reading split: sum.split)

lemma reads_available [reading]: "reads (ensure_path_available env i p held)"
  unfolding ensure_path_available_def by (auto intro!: reading)

lemma reads_link_sources [reading]: "reads (link_sources_all ws ids)"
  by (induction ids) (auto intro!: reading)

lemma reads_plan_at [reading]: "reads (plan_at env plan i j p q)"
  unfolding plan_at_def Let_def by (intro reading)

lemma reads_plan_one [reading]: "reads (plan_one env plan targets i)"
  unfolding plan_one_def Let_def by (auto intro!: reads_then reads_simple reads_plan_at split: sum.split)

lemma reads_plan: "reads (plan_affected env plan)"
  unfolding plan_affected_def Let_def by (intro reading)


subsection \<open>The transaction\<close>

lemma plain_statement_world: "plain_statement w = (r, w') \<Longrightarrow> same_world w w'"
  using readsD [OF reads_plain] by (simp add: plain_statement_def)

text \<open>A body that stays inside the tables: it changes nothing but the index and the drafts.\<close>

definition tables_only :: "lc_world \<Rightarrow> lc_world \<Rightarrow> bool" where
  "tables_only w w' \<longleftrightarrow> lw_store w' = lw_store w \<and> lw_sessions w' = lw_sessions w \<and> lw_armed w' = lw_armed w
     \<and> lw_commits w' = lw_commits w \<and> lw_now w' = lw_now w"

lemma tables_only_trans: "tables_only a b \<Longrightarrow> tables_only b c \<Longrightarrow> tables_only a c"
  by (simp add: tables_only_def)

definition in_tables :: "'a lc \<Rightarrow> bool" where
  "in_tables m \<longleftrightarrow> (\<forall>w. tables_only w (snd (m w)))"

named_theorems tabling

lemma in_tablesD: "in_tables m \<Longrightarrow> m w = (r, w') \<Longrightarrow> tables_only w w'"
  by (metis in_tables_def snd_conv)

lemma in_tables_simple [tabling]: "in_tables (lc_ret x)" "in_tables (lc_fail e)" "in_tables (on_index m)"
  by (simp_all add: in_tables_def tables_only_def lc_ret_def lc_fail_def on_index_def split: prod.split)

lemma in_tables_then [tabling]:
  assumes "in_tables m" and "\<And>x. in_tables (f x)"
  shows "in_tables (lc_then m f)"
  unfolding in_tables_def
proof
  fix w
  obtain r1 w1 where 1: "m w = (r1, w1)" by (cases "m w")
  have "tables_only w w1" using in_tablesD [OF assms(1) 1] .
  then show "tables_only w (snd (lc_then m f w))"
    using 1 assms(2) by (cases r1) (auto simp: lc_then_def in_tables_def intro: tables_only_trans)
qed

lemma in_tables_drafts [tabling]: "in_tables (drafts_statement f)"
  unfolding drafts_statement_def
  by (intro in_tables_then tabling) (simp add: in_tables_def tables_only_def split: prod.split)

lemma in_tables_each [tabling]: "(\<And>x. in_tables (f x)) \<Longrightarrow> in_tables (lc_each f xs)"
  by (induction xs) (auto intro!: tabling)

lemma in_tables_draft_calls [tabling]:
  "in_tables (clear_draft i)" "in_tables (rekey_draft i j)" "in_tables (rewrite_draft i t)" "in_tables (draft_exists i)"
proof -
  show "in_tables (rewrite_draft i t)"
    using in_tables_drafts unfolding in_tables_def rewrite_draft_def by blast
qed (simp_all add: clear_draft_def rekey_draft_def draft_exists_def in_tables_drafts)

lemma plain_statement_tables: "plain_statement w = (r, w') \<Longrightarrow> tables_only w w'"
  unfolding plain_statement_def by (rule in_tablesD [OF in_tables_simple(3)])

lemma in_owned_transaction_cases:
  assumes "in_owned_transaction f w = (r, w')" and "in_tables f" and "\<not> db_in_tx (lw_db w)"
  obtains (failed) e where "r = Inl e" "same_tables (lw_db w) (lw_db w')" "lw_drafts w' = lw_drafts w" "tables_only w w'"
      "\<not> db_in_tx (lw_db w')"
  | (complete) x w0 w1 where "r = Inr x" "same_world w w0" "tables_only w w0" "lw_drafts w0 = lw_drafts w"
      "f (w0\<lparr>lw_db := (lw_db w0)\<lparr>db_in_tx := True\<rparr>\<rparr>) = (Inr x, w1)"
      "same_tables (lw_db w1) (lw_db w')" "lw_drafts w' = lw_drafts w1" "tables_only w w'" "\<not> db_in_tx (lw_db w')"
proof -
  obtain r0 w0 where 0: "plain_statement w = (r0, w0)" by (cases "plain_statement w")
  have s0: "same_world w w0" using plain_statement_world [OF 0] .
  have t0: "tables_only w w0" using plain_statement_tables [OF 0] .
  show ?thesis
  proof (cases r0)
    case (Inl e)
    then have "r = Inl e" "w' = w0" using assms(1) 0 by (simp_all add: in_owned_transaction_def)
    then show ?thesis using failed s0 t0 assms(3) by (simp add: same_world_def)
  next
    case (Inr u)
    let ?w0 = "w0\<lparr>lw_db := (lw_db w0)\<lparr>db_in_tx := True\<rparr>\<rparr>"
    obtain r1 w1 where 1: "f ?w0 = (r1, w1)" by (cases "f ?w0")
    obtain r2 w2 where 2: "plain_statement w1 = (r2, w2)" by (cases "plain_statement w1")
    have t1: "tables_only w w1" using in_tablesD [OF assms(2) 1] t0 by (simp add: tables_only_def)
    have t2: "tables_only w w2" "same_world w1 w2"
      using plain_statement_tables [OF 2] plain_statement_world [OF 2] t1 tables_only_trans by blast+
    have undo: "same_tables (lw_db w) (lw_db (undone w0 w2))" "lw_drafts (undone w0 w2) = lw_drafts w"
        "tables_only w (undone w0 w2)" "\<not> db_in_tx (lw_db (undone w0 w2))"
      using s0 t2 assms(3) by (auto simp: undone_def tx_rollback_def same_tables_def same_world_def tables_only_def)
    show ?thesis
    proof (cases r1)
      case (Inl e)
      then have "w' = undone w0 w2" "\<exists>e. r = Inl e"
        using assms(1) 0 Inr 1 2 by (auto simp: in_owned_transaction_def split: sum.splits)
      then show ?thesis using failed undo by auto
    next
      case body: (Inr x)
      show ?thesis
      proof (cases r2)
        case (Inl e)
        then have "w' = undone w0 w2" "r = Inl e"
          using assms(1) 0 Inr 1 2 body by (auto simp: in_owned_transaction_def)
        then show ?thesis using failed undo by auto
      next
        case (Inr u2)
        then have "r = Inr x" "w' = w2\<lparr>lw_db := (lw_db w2)\<lparr>db_in_tx := False\<rparr>\<rparr>"
          using assms(1) 0 \<open>r0 = Inr u\<close> 1 2 body by (auto simp: in_owned_transaction_def)
        then show ?thesis
          using complete [of x w0 w1] s0 t0 1 body t2
          by (auto simp: same_world_def same_tables_def tables_only_def)
      qed
    qed
  qed
qed

lemma in_tables_rewrite_index: "in_tables (rewrite_index env plan affected indexed)"
  unfolding rewrite_index_def rekey_one_def by (intro tabling allI impI) (auto intro!: tabling split: option.split)

subsection \<open>All or nothing\<close>

lemma derive_all_keeps:
  "derive_all env as st = (r, st') \<Longrightarrow> st_tree st' = st_tree st \<and> fields_kept st st'"
proof (induction as arbitrary: st r)
  case (Cons a as)
  obtain r1 st1 where 1: "final_source a st = (r1, st1)" by (cases "final_source a st")
  have "st_tree st1 = st_tree st \<and> fields_kept st st1"
    using 1 fs_read_keeps
    by (cases "fs_read (af_new_path a) st") (auto simp: final_source_def fields_kept_def split: option.splits sum.splits if_splits)
  then show ?case
    using Cons 1 by (auto simp: Let_def split: sum.splits prod.splits) (metis fields_kept_trans)+
qed (simp add: fields_kept_def)

text \<open>What an operation that gives up leaves behind.\<close>

definition untouched :: "lc_world \<Rightarrow> lc_world \<Rightarrow> bool" where
  "untouched w w' \<longleftrightarrow> same_tables (lw_db w) (lw_db w') \<and> lw_drafts w' = lw_drafts w \<and> lw_sessions w' = lw_sessions w
     \<and> lw_armed w' = lw_armed w \<and> lw_commits w' = lw_commits w"

definition undo_incomplete :: "app_error \<Rightarrow> bool" where
  "undo_incomplete e \<longleftrightarrow>
     (\<exists>cause. e = restate cause (\<lambda>detail. detail @ '' (and undoing it did not fully succeed)''))"

lemma abandon_effect:
  assumes "abandon steps e w = (r, w')" and "restores steps st (lw_store w)" and "sane (lw_store w)"
  shows "\<exists>e'. r = Inl e' \<and> (same (lw_store w') st \<or> undo_incomplete e')
    \<and> (st_faults (lw_store w) = [] \<longrightarrow> same (lw_store w') st) \<and> w' = w\<lparr>lw_store := lw_store w'\<rparr>"
proof -
  obtain summary st2 rest where rb: "rollback (lw_store w, steps) = (summary, (st2, rest))"
    by (cases "rollback (lw_store w, steps)") auto
  have w: "(lw_store w)\<lparr>st_faults := st_faults (lw_store w)\<rparr> = lw_store w" by simp
  from restores_rollback [OF assms(2,3), of "st_faults (lw_store w)" summary st2 rest] rb
  have "summary = None \<longrightarrow> same st2 st" "st_faults (lw_store w) = [] \<longrightarrow> summary = None" by (simp_all add: w)
  then show ?thesis
    using assms(1) rb by (auto simp: abandon_def rolled_back_def undo_incomplete_def split: option.splits)
qed


lemma no_faults_write: "atomic_write p b st = (r, st') \<Longrightarrow> st_faults st = [] \<Longrightarrow> st_faults st' = []"
  using atomic_write_kept [of p b st r st'] by (cases "p = []") (auto simp: fields_kept_def atomic_write_def)

lemma no_faults_call: "run_call c j = (r, j') \<Longrightarrow> st_faults (fst j) = [] \<Longrightarrow> st_faults (fst j') = []"
proof (cases c)
  case (COverwrite p b)
  assume run: "run_call c j = (r, j')" and q: "st_faults (fst j) = []"
  obtain r1 s1 where 1: "fs_read p (fst j) = (r1, s1)" by (cases "fs_read p (fst j)")
  obtain r2 s2 where 2: "atomic_write p b s1 = (r2, s2)" by (cases "atomic_write p b s1")
  have "fst j' \<in> {s1, s2}"
    using run COverwrite 1 2 by (auto simp: journal_overwrite_def split: sum.splits if_splits)
  then show ?thesis using fs_read_keeps [OF 1] no_faults_write [OF 2] q by (auto simp: fields_kept_def)
next
  case (CRename a b)
  assume run: "run_call c j = (r, j')" and q: "st_faults (fst j) = []"
  obtain r1 s1 where 1: "make_parent b (fst j) = (r1, s1)" by (cases "make_parent b (fst j)")
  obtain r2 s2 where 2: "fs_rename a b s1 = (r2, s2)" by (cases "fs_rename a b s1")
  have "fst j' \<in> {s1, s2}"
    using run CRename 1 2 by (auto simp: journal_rename_def split: sum.splits)
  moreover have "fields_kept (fst j) s1"
    using 1 calls_kept(6) by (auto simp: make_parent_def fields_kept_def split: if_splits)
  ultimately show ?thesis using calls_kept(5) [OF 2] q by (auto simp: fields_kept_def)
next
  case (CTrash p)
  assume run: "run_call c j = (r, j')" and q: "st_faults (fst j) = []"
  obtain r1 s1 where 1: "fs_mode p (fst j) = (r1, s1)" by (cases "fs_mode p (fst j)")
  let ?s = "s1\<lparr>st_next_trash := Suc (st_next_trash s1)\<rparr>"
  obtain r2 s2 where 2: "fs_rename p (trash_path (st_pid s1) p (st_next_trash s1)) ?s = (r2, s2)"
    by (cases "fs_rename p (trash_path (st_pid s1) p (st_next_trash s1)) ?s")
  have "fst j' \<in> {s1, s2}"
    using run CTrash 1 2 by (auto simp: journal_trash_def Let_def split: sum.splits if_splits)
  then show ?thesis using read_mode_kept(2) [OF 1] calls_kept(5) [OF 2] q by (auto simp: fields_kept_def)
qed

lemma no_faults_calls: "run_calls cs j = (r, j') \<Longrightarrow> st_faults (fst j) = [] \<Longrightarrow> st_faults (fst j') = []"
proof (induction cs arbitrary: j)
  case (Cons c cs)
  obtain r1 j1 where 1: "run_call c j = (r1, j1)" by (cases "run_call c j")
  have "st_faults (fst j1) = []" using no_faults_call [OF 1 Cons.prems(2)] .
  then show ?case using Cons 1 by (cases r1) auto
qed simp

lemma restores_same:
  assumes "restores ss a b" and "same b b'"
  shows "restores ss a b'"
  unfolding restores_def
proof (intro allI impI)
  fix u f u' assume "sane u" "same u b'" "undo_all (rev ss) u = (f, u')"
  moreover from this(2) have "same u b" using assms(2) same_sym same_trans by blast
  ultimately show "(f = [] \<longrightarrow> sane u' \<and> same u' a) \<and> (st_faults u = [] \<longrightarrow> f = [] \<and> st_faults u' = [])"
    using assms(1) [unfolded restores_def, rule_format, of u f u'] by blast
qed

text \<open>Every way the operation ends.\<close>

lemma apply_reidentify_cases:
  assumes "apply_reidentify env plan w = (r, w')" and "sane (lw_store w)" and "\<not> db_in_tx (lw_db w)"
    and "\<And>affected w1. plan_affected env plan w = (Inr affected, w1) \<Longrightarrow> calls_ok (write_calls plan affected) (lw_store w1, [])"
  obtains (refused) e where "r = Inl e" "untouched w w'"
      "same (lw_store w') (lw_store w) \<or> undo_incomplete e" "st_faults (lw_store w) = [] \<longrightarrow> same (lw_store w') (lw_store w)"
  | (applied) t affected indexed w1 st2 st3 steps w4 where "r = Inr t" "plan_affected env plan w = (Inr affected, w1)"
      "same_world w w1" "write_files plan affected (lw_store w1, []) = (Inr (), (st2, steps))"
      "derive_all env (filter af_on_disk affected) st2 = (Inr indexed, st3)"
      "in_owned_transaction (rewrite_index env plan affected indexed) (w1\<lparr>lw_store := st3\<rparr>) = (Inr (), w4)"
      "settle env plan affected steps w4 = (t, w')"
proof -
  obtain r1 w1 where 1: "plan_affected env plan w = (r1, w1)" by (cases "plan_affected env plan w")
  have s1: "same_world w w1" using readsD [OF reads_plan 1] .
  then have same1: "same (lw_store w1) (lw_store w)" "untouched w w1" "sane (lw_store w1)"
    using assms(2) sane_same_tree [of "lw_store w1" "lw_store w"]
    by (auto simp: same_world_def untouched_def same_def)
  show ?thesis
  proof (cases r1)
    case (Inl e)
    then show ?thesis using refused [of e] assms(1) 1 same1 by (simp add: apply_reidentify_def lc_then_def)
  next
    case (Inr affected)
    note ok = assms(4) [OF 1 [unfolded Inr]]
    obtain r2 st2 steps where 2: "write_files plan affected (lw_store w1, []) = (r2, (st2, steps))"
      by (cases "write_files plan affected (lw_store w1, [])") auto
    have st2: "sane st2" "restores steps (lw_store w1) st2"
      using run_calls_restores [OF 2 [unfolded write_files_def] ok] same1(3) by auto
    have q2: "st_faults (lw_store w) = [] \<Longrightarrow> st_faults st2 = []"
      using no_faults_calls [OF 2 [unfolded write_files_def]] s1 by (simp add: same_world_def fields_kept_def)
    have gives_up: thesis
      if "abandon steps e v = (r, w')" "untouched w v" "st_tree (lw_store v) = st_tree st2" "fields_kept st2 (lw_store v)" for e v
    proof -
      note gives_up = abandon_effect [OF that(1)]
      have "restores steps (lw_store w1) (lw_store v)"
        using restores_same [OF st2(2)] that(3) by (simp add: same_def)
      moreover have "sane (lw_store v)" using sane_same_tree [OF that(3,4) st2(1)] .
      moreover have "st_faults (lw_store w) = [] \<longrightarrow> st_faults (lw_store v) = []"
        using q2 that(4) by (simp add: fields_kept_def)
      ultimately obtain e' where e': "r = Inl e'" "same (lw_store w') (lw_store w1) \<or> undo_incomplete e'"
          "st_faults (lw_store w) = [] \<longrightarrow> same (lw_store w') (lw_store w1)" "w' = v\<lparr>lw_store := lw_store w'\<rparr>"
        using gives_up by blast
      obtain st where "w' = v\<lparr>lw_store := st\<rparr>" using e'(4) by blast
      then have "untouched w w'" using that(2) by (simp add: untouched_def)
      then show thesis using refused [OF e'(1)] e'(2,3) same1(1) same_trans by blast
    qed
    show ?thesis
    proof (cases r2)
      case (Inl e)
      then have "abandon steps e (w1\<lparr>lw_store := st2\<rparr>) = (r, w')"
        using assms(1) 1 Inr 2 by (simp add: apply_reidentify_def lc_then_def)
      then show ?thesis using gives_up [of e] same1(2) by (simp add: untouched_def fields_kept_def)
    next
      case written: (Inr u)
      obtain r3 st3 where 3: "derive_all env (filter af_on_disk affected) st2 = (r3, st3)"
        by (cases "derive_all env (filter af_on_disk affected) st2")
      note k3 = derive_all_keeps [OF 3]
      show ?thesis
      proof (cases r3)
        case (Inl e)
        then have "abandon steps e (w1\<lparr>lw_store := st3\<rparr>) = (r, w')"
          using assms(1) 1 Inr 2 written 3 by (simp add: apply_reidentify_def lc_then_def)
        then show ?thesis using gives_up [of e] same1(2) k3 by (simp add: untouched_def)
      next
        case derived: (Inr indexed)
        let ?v = "w1\<lparr>lw_store := st3\<rparr>"
        obtain r4 w4 where 4: "in_owned_transaction (rewrite_index env plan affected indexed) ?v = (r4, w4)"
          by (cases "in_owned_transaction (rewrite_index env plan affected indexed) ?v")
        have "\<not> db_in_tx (lw_db ?v)" using s1 assms(3) by (simp add: same_world_def)
        from 4 in_tables_rewrite_index this show ?thesis
        proof (cases rule: in_owned_transaction_cases)
          case (failed e)
          then have "abandon steps e w4 = (r, w')"
            using assms(1) 1 Inr 2 written 3 derived 4 by (simp add: apply_reidentify_def lc_then_def)
          moreover have "untouched w w4" "lw_store w4 = st3"
            using failed same1(2) by (auto simp: untouched_def tables_only_def intro: same_tables_trans)
          ultimately show ?thesis using gives_up k3 by simp
        next
          case (complete x w2 w3)
          obtain t where t: "settle env plan affected steps w4 = (t, w')" "r = Inr t"
            using assms(1) 1 Inr 2 written 3 derived 4 complete(1)
            by (cases "settle env plan affected steps w4") (simp add: apply_reidentify_def lc_then_def)
          show ?thesis
            by (rule applied [of t affected w1 st2 steps indexed st3 w4])
              (use t 1 Inr s1 2 written 3 derived 4 complete(1) in simp_all)
        qed
      qed
    qed
  qed
qed


end
