(* ===== verification/Reidentify_Carry.thy ===== *)
theory Reidentify_Carry
  imports Reidentify_Laws
begin

section \<open>A rename carries unwritten work with it\<close>

subsection \<open>Steps with a footprint\<close>

text \<open>
  Both the \<^verbatim>\<open>drafts\<close> rows and the registry of open notes are moved one affected note at a time, and a step touches
  only the two ids of its note. What a step does at home is then what the whole run does there.
\<close>

fun run_chain :: "('a \<Rightarrow> 's \<Rightarrow> 's \<Rightarrow> bool) \<Rightarrow> 'a list \<Rightarrow> 's \<Rightarrow> 's \<Rightarrow> bool" where
  "run_chain step [] s s' \<longleftrightarrow> s' = s"
| "run_chain step (a # as) s s' \<longleftrightarrow> (\<exists>s1. step a s s1 \<and> run_chain step as s1 s')"

fun apart :: "('a \<Rightarrow> 'k set) \<Rightarrow> 'a list \<Rightarrow> bool" where
  "apart foot [] \<longleftrightarrow> True"
| "apart foot (a # as) \<longleftrightarrow> (\<forall>b\<in>set as. foot a \<inter> foot b = {}) \<and> apart foot as"

locale keyed_steps =
  fixes step :: "'a \<Rightarrow> ('k \<Rightarrow> 'v option) \<Rightarrow> ('k \<Rightarrow> 'v option) \<Rightarrow> bool"
    and foot :: "'a \<Rightarrow> 'k set"
    and post :: "'a \<Rightarrow> ('k \<Rightarrow> 'v option) \<Rightarrow> ('k \<Rightarrow> 'v option) \<Rightarrow> bool"
  assumes outside: "step a m m' \<Longrightarrow> k \<notin> foot a \<Longrightarrow> m' k = m k"
    and lands: "step a m m' \<Longrightarrow> post a m m'"
    and at_home: "post a m m' \<Longrightarrow> (\<And>k. k \<in> foot a \<Longrightarrow> n k = m k) \<Longrightarrow> (\<And>k. k \<in> foot a \<Longrightarrow> n' k = m' k) \<Longrightarrow> post a n n'"
begin

lemma chain_outside: "run_chain step as m m' \<Longrightarrow> (\<And>a. a \<in> set as \<Longrightarrow> k \<notin> foot a) \<Longrightarrow> m' k = m k"
proof (induction as arbitrary: m)
  case (Cons a as)
  then obtain m1 where 1: "step a m m1" "run_chain step as m1 m'" by auto
  have "m' k = m1 k" by (rule Cons.IH [OF 1(2)]) (use Cons.prems(2) in simp)
  then show ?case using outside [OF 1(1), of k] Cons.prems(2) by simp
qed simp

lemma chain_post: "run_chain step as m m' \<Longrightarrow> apart foot as \<Longrightarrow> a \<in> set as \<Longrightarrow> post a m m'"
proof (induction as arbitrary: m)
  case (Cons b as)
  then obtain m1 where 1: "step b m m1" "run_chain step as m1 m'" by auto
  show ?case
  proof (cases "a = b")
    case True
    have "m' k = m1 k" if "k \<in> foot b" for k
      by (rule chain_outside [OF 1(2)]) (use Cons.prems(2) that in auto)
    then show ?thesis using at_home [OF lands [OF 1(1)], of m m'] True by simp
  next
    case False
    then have "a \<in> set as" using Cons.prems(3) by simp
    then have "post a m1 m'" using Cons.IH [OF 1(2)] Cons.prems(2) by simp
    moreover have "k \<notin> foot b" if "k \<in> foot a" for k
      using that Cons.prems(2) \<open>a \<in> set as\<close> by auto
    ultimately show ?thesis
      using at_home [of a m1 m' m m'] outside [OF 1(1)] by auto
  qed
qed simp

end

definition both_ids :: "affected \<Rightarrow> string set" where
  "both_ids a = {af_old_id a, af_new_id a}"

subsection \<open>The draft rows\<close>

definition carried_text :: "string option \<Rightarrow> string \<Rightarrow> string" where
  "carried_text new old = (case new of None \<Rightarrow> old | Some t \<Rightarrow> t)"

type_synonym rows = "string \<Rightarrow> draft_row option"

definition draft_step :: "affected \<Rightarrow> rows \<Rightarrow> rows \<Rightarrow> bool" where
  "draft_step a m m' \<longleftrightarrow>
     (\<exists>now. let m1 = (if af_old_id a = af_new_id a then m
                      else case m (af_old_id a) of None \<Rightarrow> m | Some row \<Rightarrow> (m(af_old_id a := None))(af_new_id a \<mapsto> row))
            in m' = (case af_new_draft a of
                       None \<Rightarrow> m1
                     | Some t \<Rightarrow> (case m1 (af_new_id a) of
                                   None \<Rightarrow> m1
                                 | Some row \<Rightarrow> m1(af_new_id a \<mapsto> row\<lparr>df_source := t, df_updated := now\<rparr>))))"

definition draft_post :: "affected \<Rightarrow> rows \<Rightarrow> rows \<Rightarrow> bool" where
  "draft_post a m m' \<longleftrightarrow>
     (\<forall>row. m (af_old_id a) = Some row \<longrightarrow>
        (\<exists>row'. m' (af_new_id a) = Some row' \<and> df_source row' = carried_text (af_new_draft a) (df_source row)
           \<and> df_seq row' = df_seq row))
     \<and> (af_old_id a \<noteq> af_new_id a \<longrightarrow> m' (af_old_id a) = None)"

interpretation drafts: keyed_steps draft_step both_ids draft_post
proof
  show "m' k = m k" if "draft_step a m m'" "k \<notin> both_ids a" for a m m' k
    using that by (auto simp: draft_step_def both_ids_def Let_def split: option.splits if_splits)
  show "draft_post a m m'" if "draft_step a m m'" for a m m'
    using that by (auto simp: draft_step_def draft_post_def carried_text_def Let_def split: option.splits if_splits)
  show "draft_post a n n'" if "draft_post a m m'" "\<And>k. k \<in> both_ids a \<Longrightarrow> n k = m k" "\<And>k. k \<in> both_ids a \<Longrightarrow> n' k = m' k"
    for a m m' n n'
    using that by (simp add: draft_post_def both_ids_def)
qed

lemma drafts_statement_Inr:
  assumes "drafts_statement f w = (Inr x, w')"
  shows "x = fst (f (lw_drafts w))" "lw_drafts w' = snd (f (lw_drafts w))" "lw_now w' = lw_now w"
  using assms by (auto simp: drafts_statement_def lc_then_def on_index_def split: sum.splits prod.splits)

lemma lc_then_Inr: "lc_then m f w = (Inr x, w') \<longleftrightarrow> (\<exists>y w1. m w = (Inr y, w1) \<and> f y w1 = (Inr x, w'))"
  by (auto simp: lc_then_def split: sum.splits prod.splits)

lemma rekey_one_Inr:
  assumes "rekey_one a w = (Inr (), w')"
  shows "draft_step a (map_of (lw_drafts w)) (map_of (lw_drafts w'))"
proof -
  obtain w1 where 1: "(if af_old_id a \<noteq> af_new_id a then rekey_draft (af_old_id a) (af_new_id a) else lc_ret ()) w = (Inr (), w1)"
      and 2: "(case af_new_draft a of None \<Rightarrow> lc_ret () | Some t \<Rightarrow> rewrite_draft (af_new_id a) t) w1 = (Inr (), w')"
    using assms by (auto simp: rekey_one_def lc_then_Inr)
  have m1: "map_of (lw_drafts w1) = (if af_old_id a = af_new_id a then map_of (lw_drafts w)
      else case map_of (lw_drafts w) (af_old_id a) of None \<Rightarrow> map_of (lw_drafts w)
        | Some row \<Rightarrow> ((map_of (lw_drafts w))(af_old_id a := None))(af_new_id a \<mapsto> row))"
    using 1 by (auto simp: lc_ret_def rekey_draft_def delete_conv update_conv split: if_splits option.splits
        dest!: drafts_statement_Inr(2))
  have "map_of (lw_drafts w') = (case af_new_draft a of None \<Rightarrow> map_of (lw_drafts w1)
      | Some t \<Rightarrow> (case map_of (lw_drafts w1) (af_new_id a) of None \<Rightarrow> map_of (lw_drafts w1)
          | Some row \<Rightarrow> (map_of (lw_drafts w1))(af_new_id a \<mapsto> row\<lparr>df_source := t, df_updated := lw_now w1\<rparr>)))"
    using 2 by (auto simp: lc_ret_def rewrite_draft_def update_conv split: option.splits dest!: drafts_statement_Inr(2))
  then show ?thesis unfolding draft_step_def m1 [symmetric] Let_def by blast
qed

lemma rekey_all_Inr:
  "lc_each rekey_one as w = (Inr (), w') \<Longrightarrow> run_chain draft_step as (map_of (lw_drafts w)) (map_of (lw_drafts w'))"
proof (induction as arbitrary: w)
  case (Cons a as)
  then obtain w1 where 1: "rekey_one a w = (Inr (), w1)" "lc_each rekey_one as w1 = (Inr (), w')"
    by (auto simp: lc_then_Inr)
  show ?case using rekey_one_Inr [OF 1(1)] Cons.IH [OF 1(2)] by auto
qed (simp add: lc_ret_def)

lemma on_index_drafts: "on_index m w = (r, w') \<Longrightarrow> lw_drafts w' = lw_drafts w"
  by (auto simp: on_index_def split: prod.splits)

lemma rewrite_index_drafts:
  assumes "rewrite_index env plan affected indexed w = (Inr (), w')"
  shows "run_chain draft_step affected (map_of (lw_drafts w)) (map_of (lw_drafts w'))"
  using assms
  by (auto simp: rewrite_index_def lc_then_Inr lc_ret_def dest!: on_index_drafts rekey_all_Inr split: option.splits)

subsection \<open>The open notes\<close>

type_synonym registry = "string \<Rightarrow> note_session option"

definition session_post :: "affected \<Rightarrow> registry \<Rightarrow> registry \<Rightarrow> bool" where
  "session_post a m m' \<longleftrightarrow>
     (\<forall>s. m (af_old_id a) = Some s \<longrightarrow>
        (\<exists>s'. m' (af_new_id a) = Some s' \<and> ns_source s' = carried_text (af_new_buffer a) (ns_source s)
           \<and> ns_seq s' = ns_seq s \<and> ns_unwritten s' = ns_unwritten s \<and> ns_revision s' = af_revision a))
     \<and> (af_old_id a \<noteq> af_new_id a \<longrightarrow> m' (af_old_id a) = None)"

definition session_step :: "affected \<Rightarrow> registry \<Rightarrow> registry \<Rightarrow> bool" where
  "session_step a m m' \<longleftrightarrow> (\<forall>k. k \<notin> both_ids a \<longrightarrow> m' k = m k) \<and> session_post a m m'"

interpretation sessions: keyed_steps session_step both_ids session_post
proof
  show "session_post a n n'"
    if "session_post a m m'" "\<And>k. k \<in> both_ids a \<Longrightarrow> n k = m k" "\<And>k. k \<in> both_ids a \<Longrightarrow> n' k = m' k" for a m m' n n'
    using that by (simp add: session_post_def both_ids_def)
qed (simp_all add: session_step_def)

lemma looked_up_session: "looked_up env ast w = (ast', w') \<Longrightarrow> w_session w' = w_session w"
  by (auto simp: looked_up_def resolve_links_def on_db_def split: prod.splits sum.splits)

lemma install_rewrite_session:
  "w_session (install_rewrite env new_source rev_s w) = s' \<Longrightarrow>
   ns_source s' = carried_text new_source (ns_source (w_session w)) \<and> ns_seq s' = ns_seq (w_session w)
    \<and> ns_unwritten s' = ns_unwritten (w_session w) \<and> ns_revision s' = rev_s"
  by (auto simp: install_rewrite_def in_session_def carried_text_def Let_def
      dest!: looked_up_session split: option.splits prod.splits)

lemma carried_session_fields:
  "carried_session env new_source rev_s s w = (s', w') \<Longrightarrow>
   ns_source s' = carried_text new_source (ns_source s) \<and> ns_seq s' = ns_seq s
    \<and> ns_unwritten s' = ns_unwritten s \<and> ns_revision s' = rev_s"
  by (auto simp: carried_session_def carried_text_def Let_def split: option.splits prod.splits)

lemma carry_forward_step:
  assumes "carry_forward env (af_old_id a) (af_new_id a) (af_new_buffer a) (af_revision a) w = (Inr (), w')"
  shows "session_step a (map_of (lw_sessions w)) (map_of (lw_sessions w'))"
proof (cases "map_of (lw_sessions w) (af_old_id a)")
  case None
  then show ?thesis using assms by (simp add: carry_forward_def session_step_def session_post_def)
next
  case (Some s)
  show ?thesis
  proof (cases "af_old_id a = af_new_id a")
    case True
    let ?v = "install_rewrite (env_of env (af_new_id a) (path_names (concept_id_to_path (af_new_id a))))
      (af_new_buffer a) (af_revision a) (note_view (af_new_id a) s w)"
    have "map_of (lw_sessions w') = (map_of (lw_sessions w))(af_new_id a \<mapsto> w_session ?v)"
      using assms Some True by (auto simp: carry_forward_def Let_def update_conv)
    moreover have "w_session (note_view (af_new_id a) s w) = s" by (simp add: note_view_def)
    ultimately show ?thesis
      using install_rewrite_session [of "env_of env (af_new_id a) (path_names (concept_id_to_path (af_new_id a)))"
          "af_new_buffer a" "af_revision a" "note_view (af_new_id a) s w", OF refl] Some True
      by (simp add: session_step_def session_post_def both_ids_def)
  next
    case False
    then obtain p s' v where "note_path (entry_of env w) (af_new_id a) = Inr p"
        and c: "carried_session (env_of env (af_new_id a) p) (af_new_buffer a) (af_revision a) s (note_view (af_old_id a) s w) = (s', v)"
      using assms Some by (auto simp: carry_forward_def split: sum.splits prod.splits)
    then have "map_of (lw_sessions w') = ((map_of (lw_sessions w))(af_old_id a := None))(af_new_id a \<mapsto> s')"
      using assms Some False by (auto simp: carry_forward_def update_conv delete_conv)
    then show ?thesis
      using carried_session_fields [OF c] Some False by (simp add: session_step_def session_post_def both_ids_def)
  qed
qed


lemma carry_forward_fails:
  assumes "carry_forward env (af_old_id a) (af_new_id a) (af_new_buffer a) (af_revision a) w = (Inl e, w')"
  shows "note_path (entry_of env w) (af_new_id a) = Inl e"
  using assms by (auto simp: carry_forward_def Let_def split: option.splits sum.splits prod.splits if_splits)

text \<open>Without symbolic links the path of a note is a matter of its id alone.\<close>

lemma contained_loop_no_symlink: "(\<And>p. fs p \<noteq> Some Symlink) \<Longrightarrow> contained_loop fs seen cs = Inr ()"
  by (induction cs arbitrary: seen) (auto simp: Let_def split: option.splits bundle_entry.splits)

lemma note_path_no_symlink:
  assumes "\<And>p. fs p \<noteq> Some Symlink" and "\<And>p. fs' p \<noteq> Some Symlink"
  shows "note_path fs i = note_path fs' i"
  using assms by (simp add: note_path_def ensure_directory_contained_def contained_loop_no_symlink Let_def)

definition no_symlinks :: "lc_env \<Rightarrow> bool" where
  "no_symlinks env \<longleftrightarrow> (\<forall>p. \<not> ce_symlink env p)"

lemma entry_no_symlink: "no_symlinks env \<Longrightarrow> entry_of env w p \<noteq> Some Symlink"
  by (auto simp: no_symlinks_def entry_of_def split: option.splits node.splits)

lemma note_path_any: "no_symlinks env \<Longrightarrow> note_path (entry_of env w) i = note_path (entry_of env w') i"
  by (rule note_path_no_symlink) (simp_all add: entry_no_symlink)

lemma carry_all_chain:
  assumes "carry_all env as w = (r, w')" and "no_symlinks env"
    and "\<And>a. a \<in> set as \<Longrightarrow> \<exists>p. note_path (entry_of env w0) (af_new_id a) = Inr p"
  shows "r = Inr () \<and> run_chain session_step as (map_of (lw_sessions w)) (map_of (lw_sessions w'))"
  using assms(1,3)
proof (induction as arbitrary: w r)
  case (Cons a as)
  obtain r1 w1 where 1: "carry_forward env (af_old_id a) (af_new_id a) (af_new_buffer a) (af_revision a) w = (r1, w1)"
    by (cases "carry_forward env (af_old_id a) (af_new_id a) (af_new_buffer a) (af_revision a) w")
  have r1: "r1 = Inr ()"
  proof (cases r1)
    case (Inl e)
    then have "note_path (entry_of env w) (af_new_id a) = Inl e" using carry_forward_fails 1 by blast
    then show ?thesis using Cons.prems(2) [of a] note_path_any [OF assms(2), of w "af_new_id a" w0] by auto
  qed simp
  have 2: "carry_all env as w1 = (r, w')" using Cons.prems(1) 1 r1 by (auto split: prod.splits)
  have "r = Inr () \<and> run_chain session_step as (map_of (lw_sessions w1)) (map_of (lw_sessions w'))"
    by (rule Cons.IH [OF 2]) (use Cons.prems(2) in simp)
  moreover have "session_step a (map_of (lw_sessions w)) (map_of (lw_sessions w1))"
    using carry_forward_step 1 r1 by blast
  ultimately show ?case by auto
qed simp

lemma carry_forward_drafts:
  "carry_forward env i j t v w = (r, w') \<Longrightarrow> lw_drafts w' = lw_drafts w \<and> lw_store w' = lw_store w"
  by (auto simp: carry_forward_def Let_def split: option.splits sum.splits prod.splits if_splits)

lemma carry_all_drafts: "carry_all env as w = (r, w') \<Longrightarrow> lw_drafts w' = lw_drafts w \<and> lw_store w' = lw_store w"
  by (induction as arbitrary: w r) (auto dest!: carry_forward_drafts split: prod.splits)

subsection \<open>What the plan knows\<close>

definition new_id_of :: "reidentify \<Rightarrow> string \<Rightarrow> string" where
  "new_id_of plan i = (case map_of (re_remap plan) i of None \<Rightarrow> i | Some n \<Rightarrow> n)"

definition rewritten_by :: "lc_env \<Rightarrow> reidentify \<Rightarrow> string \<Rightarrow> string \<Rightarrow> string option result" where
  "rewritten_by env plan i src =
     rewrite_note_text env src (containing_dir i) (re_remap plan)
       (case re_retitled plan of Some (j, t) \<Rightarrow> if j = i then Some t else None | None \<Rightarrow> None)
       (re_absolutize plan = Some i)"

definition planned :: "lc_env \<Rightarrow> reidentify \<Rightarrow> lc_world \<Rightarrow> affected \<Rightarrow> bool" where
  "planned env plan w a \<longleftrightarrow>
     af_new_id a = new_id_of plan (af_old_id a)
     \<and> note_path (entry_of env w) (af_old_id a) = Inr (af_old_path a)
     \<and> note_path (entry_of env w) (af_new_id a) = Inr (af_new_path a)
     \<and> lift_opt (rewritten_by env plan (af_old_id a)) (map_option df_source (map_of (lw_drafts w) (af_old_id a)))
         = Inr (af_new_draft a)
     \<and> lift_opt (rewritten_by env plan (af_old_id a)) (map_option ns_source (map_of (lw_sessions w) (af_old_id a)))
         = Inr (af_new_buffer a)
     \<and> (if af_on_disk a
        then \<exists>b m. look (lw_store w) (af_old_path a) = Some (NFile b m) \<and> rewritten_by env plan (af_old_id a) b = Inr (af_new_file a)
          \<and> af_revision a = ce_hash env (carried_text (af_new_file a) b)
        else look (lw_store w) (af_old_path a) = None \<and> af_new_file a = None
          \<and> (map_of (lw_drafts w) (af_old_id a) \<noteq> None \<or> map_of (lw_sessions w) (af_old_id a) \<noteq> None))"

text \<open>A candidate that is left out holds nothing, or nothing that changes.\<close>

definition left_out :: "lc_env \<Rightarrow> reidentify \<Rightarrow> lc_world \<Rightarrow> string \<Rightarrow> bool" where
  "left_out env plan w i \<longleftrightarrow>
     map_of (lw_drafts w) i = None \<and> map_of (lw_sessions w) i = None
     \<or> new_id_of plan i = i
       \<and> lift_opt (rewritten_by env plan i) (map_option df_source (map_of (lw_drafts w) i)) = Inr None
       \<and> lift_opt (rewritten_by env plan i) (map_option ns_source (map_of (lw_sessions w) i)) = Inr None"

lemma read_source_Inr:
  assumes "read_source p w = (Inr x, w')"
  shows "case x of Some b \<Rightarrow> (\<exists>m. look (lw_store w) p = Some (NFile b m)) | None \<Rightarrow> look (lw_store w) p = None"
proof -
  obtain r st where 1: "fs_read p (lw_store w) = (r, st)" by (cases "fs_read p (lw_store w)")
  then show ?thesis
    using assms fs_read_effect [OF 1]
    by (auto simp: read_source_def lc_then_def ask_files_def on_files_def lc_ret_def lc_fail_def split: sum.splits if_splits)
qed

lemma read_draft_text_Inr:
  "read_draft_text i w = (Inr x, w') \<Longrightarrow> x = map_option df_source (map_of (lw_drafts w) i)"
  using drafts_statement_Inr(1) by (fastforce simp: read_draft_text_def)

lemma plan_at_Inr:
  assumes "plan_at env plan i (new_id_of plan i) p q w = (Inr x, w')"
    and "note_path (entry_of env w) i = Inr p" and "note_path (entry_of env w) (new_id_of plan i) = Inr q"
  shows "case x of Some a \<Rightarrow> af_old_id a = i \<and> planned env plan w a | None \<Rightarrow> left_out env plan w i"
proof -
  let ?rw = "lift_opt (rewritten_by env plan i)"
  have rw: "lift_opt (\<lambda>src. rewrite_note_text env src (containing_dir i) (re_remap plan)
      (case re_retitled plan of Some (j, t) \<Rightarrow> if j = i then Some t else None | None \<Rightarrow> None)
      (re_absolutize plan = Some i)) = ?rw"
    by (simp add: rewritten_by_def [abs_def])
  let ?fin = "\<lambda>disk nf s nb d nd. if disk = None \<and> d = None \<and> s = None then lc_ret None
      else if nf = None \<and> nb = None \<and> nd = None \<and> i = new_id_of plan i then lc_ret None
      else lc_ret (Some \<lparr>af_old_id = i, af_new_id = new_id_of plan i, af_old_path = p, af_new_path = q,
        af_on_disk = (disk \<noteq> None), af_new_file = nf, af_new_buffer = nb, af_new_draft = nd,
        af_revision = ce_hash env (case or_else nf disk of None \<Rightarrow> [] | Some t \<Rightarrow> t)\<rparr>)"
  let ?s = "map_of (lw_sessions w) i" and ?d = "map_option df_source (map_of (lw_drafts w) i)"
  obtain disk w1 where 1: "read_source p w = (Inr disk, w1)"
      and a: "lc_then (lc_lift (?rw disk)) (\<lambda>nf. lc_then (session_of i) (\<lambda>s.
        lc_then (lc_lift (?rw (map_option ns_source s))) (\<lambda>nb. lc_then (read_draft_text i) (\<lambda>d.
        lc_then (lc_lift (?rw d)) (\<lambda>nd. ?fin disk nf s nb d nd))))) w1 = (Inr x, w')"
    using assms(1) unfolding plan_at_def Let_def rw
    by (subst (asm) lc_then_Inr) (auto simp: lc_fail_def split: if_splits)
  have s1: "same_world w w1" using readsD [OF reads_source 1] .
  note disk = read_source_Inr [OF 1]
  obtain new_file where nf: "?rw disk = Inr new_file"
      and b: "lc_then (session_of i) (\<lambda>s.
        lc_then (lc_lift (?rw (map_option ns_source s))) (\<lambda>nb. lc_then (read_draft_text i) (\<lambda>d.
        lc_then (lc_lift (?rw d)) (\<lambda>nd. ?fin disk new_file s nb d nd)))) w1 = (Inr x, w')"
    using a by (subst (asm) lc_then_Inr) (auto simp: lc_lift_def)
  have c: "lc_then (lc_lift (?rw (map_option ns_source ?s))) (\<lambda>nb. lc_then (read_draft_text i) (\<lambda>d.
        lc_then (lc_lift (?rw d)) (\<lambda>nd. ?fin disk new_file ?s nb d nd))) w1 = (Inr x, w')"
    using b s1 by (subst (asm) lc_then_Inr) (auto simp: session_of_def lc_get_def same_world_def)
  obtain new_buffer where nb: "?rw (map_option ns_source ?s) = Inr new_buffer"
      and d: "lc_then (read_draft_text i) (\<lambda>d. lc_then (lc_lift (?rw d)) (\<lambda>nd. ?fin disk new_file ?s new_buffer d nd)) w1
        = (Inr x, w')"
    using c by (subst (asm) lc_then_Inr) (auto simp: lc_lift_def)
  obtain w2 where e: "lc_then (lc_lift (?rw ?d)) (\<lambda>nd. ?fin disk new_file ?s new_buffer ?d nd) w2 = (Inr x, w')"
    using d s1 by (subst (asm) lc_then_Inr) (auto simp: same_world_def dest!: read_draft_text_Inr)
  obtain new_draft where nd: "?rw ?d = Inr new_draft" and g: "?fin disk new_file ?s new_buffer ?d new_draft w2 = (Inr x, w')"
    using e by (subst (asm) lc_then_Inr) (auto simp: lc_lift_def)
  show ?thesis
  proof (cases x)
    case None
    then show ?thesis using g nb nd by (auto simp: left_out_def lc_ret_def split: if_splits)
  next
    case (Some a)
    then have a: "a = \<lparr>af_old_id = i, af_new_id = new_id_of plan i, af_old_path = p, af_new_path = q,
        af_on_disk = (disk \<noteq> None), af_new_file = new_file, af_new_buffer = new_buffer, af_new_draft = new_draft,
        af_revision = ce_hash env (case or_else new_file disk of None \<Rightarrow> [] | Some t \<Rightarrow> t)\<rparr>"
        and held: "disk \<noteq> None \<or> map_of (lw_drafts w) i \<noteq> None \<or> ?s \<noteq> None"
      using g by (auto simp: lc_ret_def split: if_splits)
    have "(case or_else new_file disk of None \<Rightarrow> [] | Some t \<Rightarrow> t) = carried_text new_file t" if "disk = Some t" for t
      using that by (auto simp: or_else_def carried_text_def split: option.splits)
    then show ?thesis
      using Some nf nb nd disk held assms(2,3) unfolding a
      by (cases disk) (auto simp: planned_def lift_opt_def)
  qed
qed


lemma same_world_entry: "same_world w w' \<Longrightarrow> entry_of env w' = entry_of env w"
  by (rule ext) (simp add: same_world_def entry_of_def)

lemma planned_same: "same_world w w' \<Longrightarrow> planned env plan w' a \<longleftrightarrow> planned env plan w a"
  using same_world_entry [of w w' env] by (simp add: planned_def same_world_def)

lemma left_out_same: "same_world w w' \<Longrightarrow> left_out env plan w' i \<longleftrightarrow> left_out env plan w i"
  by (simp add: left_out_def same_world_def)

definition resolves :: "lc_env \<Rightarrow> reidentify \<Rightarrow> lc_world \<Rightarrow> string \<Rightarrow> bool" where
  "resolves env plan w i \<longleftrightarrow>
     (\<exists>p q. note_path (entry_of env w) i = Inr p \<and> note_path (entry_of env w) (new_id_of plan i) = Inr q)"

lemma plan_one_Inr:
  assumes "plan_one env plan targets i w = (Inr x, w')"
  shows "case x of Some a \<Rightarrow> af_old_id a = i \<and> planned env plan w a
    | None \<Rightarrow> left_out env plan w i \<or> \<not> resolves env plan w i \<and> i \<notin> set targets"
proof (cases "resolves env plan w i")
  case True
  then obtain p q where pq: "note_path (entry_of env w) i = Inr p" "note_path (entry_of env w) (new_id_of plan i) = Inr q"
    by (auto simp: resolves_def)
  then have "plan_at env plan i (new_id_of plan i) p q w = (Inr x, w')"
    using assms by (simp add: plan_one_def Let_def lc_then_def lc_get_def new_id_of_def)
  from plan_at_Inr [OF this pq] show ?thesis by (auto split: option.splits)
next
  case False
  then have "\<exists>e. and_then (note_path (entry_of env w) i) (\<lambda>p. and_then (note_path (entry_of env w) (new_id_of plan i)) (\<lambda>q. Inr (p, q))) = Inl e"
    by (auto simp: resolves_def and_then_def split: sum.splits)
  then show ?thesis
    using assms False
    by (auto simp: plan_one_def Let_def lc_then_def lc_get_def lc_fail_def lc_ret_def new_id_of_def split: if_splits)
qed

lemma plan_collect:
  assumes "lc_collect (plan_one env plan targets) ids w = (Inr affected, w')" and "distinct ids"
  shows "(\<forall>a\<in>set affected. af_old_id a \<in> set ids \<and> planned env plan w a) \<and> distinct (map af_old_id affected)
    \<and> (\<forall>i\<in>set ids. i \<in> af_old_id ` set affected \<or> left_out env plan w i \<or> \<not> resolves env plan w i \<and> i \<notin> set targets)"
  using assms
proof (induction ids arbitrary: w affected)
  case (Cons i ids)
  then obtain x w1 ys where 1: "plan_one env plan targets i w = (Inr x, w1)"
      and 2: "lc_collect (plan_one env plan targets) ids w1 = (Inr ys, w')"
      and af: "affected = (case x of None \<Rightarrow> ys | Some a \<Rightarrow> a # ys)"
    by (auto simp: lc_then_Inr lc_ret_def)
  have s: "same_world w w1" using readsD [OF reads_plan_one 1] .
  have r: "resolves env plan w1 j = resolves env plan w j" for j
    using same_world_entry [OF s, of env] by (simp add: resolves_def)
  note ih = Cons.IH [OF 2, unfolded planned_same [OF s] left_out_same [OF s] r]
  show ?case using ih plan_one_Inr [OF 1] Cons.prems(2) af by (auto split: option.splits)
qed (auto simp: lc_ret_def)

lemma id_order_facts [simp]: "set (id_order ids) = set ids" "distinct (id_order ids)"
  by (simp_all add: id_order_def)

lemma plan_affected_Inr:
  assumes "plan_affected env plan w = (Inr affected, w')"
  shows "\<forall>a\<in>set affected. planned env plan w a" "distinct (map af_old_id affected)"
    "map_of (lw_drafts w) i \<noteq> None \<or> map_of (lw_sessions w) i \<noteq> None \<or> new_id_of plan i \<noteq> i \<Longrightarrow>
       i \<in> af_old_id ` set affected \<or> left_out env plan w i \<or> \<not> resolves env plan w i \<and> new_id_of plan i = i"
proof -
  let ?targets = "map fst (re_remap plan) @ (case re_retitled plan of None \<Rightarrow> [] | Some (i, _) \<Rightarrow> [i])"
  obtain sources w1 drafted w2 where 1: "link_sources_all (ce_ws env) (id_order (map fst (re_remap plan))) w = (Inr sources, w1)"
      and 2: "draft_note_ids w1 = (Inr drafted, w2)"
      and 3: "lc_collect (plan_one env plan ?targets) (id_order (?targets @ sources @ drafted @ map fst (lw_sessions w2))) w2
        = (Inr affected, w')"
    using assms by (auto simp: plan_affected_def lc_then_Inr lc_get_def)
  have s: "same_world w w2"
    using same_world_trans [OF readsD [OF reads_link_sources 1] readsD [OF reads_draft_queries(3) 2]] .
  have "drafted = map fst (lw_drafts w1)" using drafts_statement_Inr(1) 2 by (fastforce simp: draft_note_ids_def)
  then have ids: "drafted = map fst (lw_drafts w)" "lw_sessions w2 = lw_sessions w"
    using readsD [OF reads_link_sources 1] s by (simp_all add: same_world_def)
  have r: "resolves env plan w2 j = resolves env plan w j" for j
    using same_world_entry [OF s, of env] by (simp add: resolves_def)
  note facts = plan_collect [OF 3 id_order_facts(2), unfolded planned_same [OF s] left_out_same [OF s] r]
  then show "\<forall>a\<in>set affected. planned env plan w a" "distinct (map af_old_id affected)" by auto
  assume held: "map_of (lw_drafts w) i \<noteq> None \<or> map_of (lw_sessions w) i \<noteq> None \<or> new_id_of plan i \<noteq> i"
  have t: "new_id_of plan i \<noteq> i \<Longrightarrow> i \<in> set ?targets"
    by (auto simp: new_id_of_def dest!: map_of_SomeD split: option.splits) (metis fst_conv image_eqI)
  have "i \<in> set (?targets @ sources @ drafted @ map fst (lw_sessions w2))"
    using held t ids by (auto simp: map_of_eq_None_iff)
  then have "i \<in> af_old_id ` set affected \<or> left_out env plan w i \<or> \<not> resolves env plan w i \<and> i \<notin> set ?targets"
    using facts unfolding id_order_facts(1) by blast
  then show "i \<in> af_old_id ` set affected \<or> left_out env plan w i \<or> \<not> resolves env plan w i \<and> new_id_of plan i = i"
    using t by blast
qed

subsection \<open>Where everything goes\<close>

definition destinations_free :: "lc_env \<Rightarrow> reidentify \<Rightarrow> lc_world \<Rightarrow> bool" where
  "destinations_free env plan w \<longleftrightarrow> distinct (map fst (re_remap plan)) \<and> distinct (map snd (re_remap plan))
     \<and> (\<forall>n\<in>snd ` set (re_remap plan). n \<notin> fst ` set (re_remap plan)
          \<and> map_of (lw_drafts w) n = None \<and> map_of (lw_sessions w) n = None
          \<and> (\<forall>p. note_path (entry_of env w) n = Inr p \<longrightarrow> look (lw_store w) p = None))"

lemma new_id_cases:
  obtains (stays) "new_id_of plan i = i" "map_of (re_remap plan) i = None"
  | (moves) "(i, new_id_of plan i) \<in> set (re_remap plan)"
  by (cases "map_of (re_remap plan) i") (auto simp: new_id_of_def dest: map_of_SomeD)

lemma apartI:
  "distinct as \<Longrightarrow> (\<And>a b. a \<in> set as \<Longrightarrow> b \<in> set as \<Longrightarrow> a \<noteq> b \<Longrightarrow> foot a \<inter> foot b = {}) \<Longrightarrow> apart foot as"
  by (induction as) auto

lemma destination_not_planned:
  assumes "destinations_free env plan w" and "planned env plan w b" and "n \<in> snd ` set (re_remap plan)"
  shows "af_old_id b \<noteq> n"
  using assms by (auto simp: destinations_free_def planned_def split: if_splits)

lemma affected_apart:
  assumes free: "destinations_free env plan w" and planned: "\<forall>a\<in>set affected. planned env plan w a"
    and "distinct (map af_old_id affected)"
  shows "apart both_ids affected"
proof (rule apartI)
  show "distinct affected" using assms(3) by (simp add: distinct_map)
  fix a b assume ab: "a \<in> set affected" "b \<in> set affected" "a \<noteq> b"
  then have old: "af_old_id a \<noteq> af_old_id b" using assms(3) by (auto simp: distinct_map inj_on_def)
  have new: "af_new_id c = new_id_of plan (af_old_id c)" if "c \<in> set affected" for c
    using planned that by (simp add: planned_def)
  have cross: "af_old_id c \<noteq> af_new_id d" if "c \<in> set affected" "d \<in> set affected" "af_old_id c \<noteq> af_old_id d" for c d
  proof (cases rule: new_id_cases [of plan "af_old_id d"])
    case moves
    then have "af_new_id d \<in> snd ` set (re_remap plan)" using new [OF that(2)] by force
    then show ?thesis using destination_not_planned [OF free] planned that(1) by blast
  qed (use new [OF that(2)] that(3) in simp)
  have "af_new_id a \<noteq> af_new_id b"
  proof
    assume eq: "af_new_id a = af_new_id b"
    have m: "(af_old_id c, af_new_id c) \<in> set (re_remap plan)" if "c \<in> {a, b}" for c
    proof (cases rule: new_id_cases [of plan "af_old_id c"])
      case stays
      then show ?thesis using that eq cross [OF ab(1,2) old] cross [OF ab(2,1)] old new ab by auto
    qed (use new that ab in auto)
    have "distinct (map snd (re_remap plan))" using free by (simp add: destinations_free_def)
    then have "inj_on snd (set (re_remap plan))" by (simp add: distinct_map)
    then have "(af_old_id a, af_new_id a) = (af_old_id b, af_new_id b)"
      using m [of a] m [of b] eq inj_onD by fastforce
    then have "af_old_id a = af_old_id b" by simp
    then show False using old by simp
  qed
  then show "both_ids a \<inter> both_ids b = {}"
    using old cross [OF ab(1,2)] cross [OF ab(2,1)] by (auto simp: both_ids_def)
qed


lemma on_index_sessions: "on_index m w = (r, w') \<Longrightarrow> lw_sessions w' = lw_sessions w \<and> lw_drafts w' = lw_drafts w"
  by (auto simp: on_index_def split: prod.splits)

lemma settle_carries:
  assumes "settle env plan affected steps w = (t, w')" and "no_symlinks env"
    and "\<forall>a\<in>set affected. \<exists>p. note_path (entry_of env w0) (af_new_id a) = Inr p"
  shows "lw_drafts w' = lw_drafts w \<and> run_chain session_step affected (map_of (lw_sessions w)) (map_of (lw_sessions w'))"
proof -
  obtain analyzed w1 where 1: "on_index analyze w = (analyzed, w1)" by (cases "on_index analyze w")
  define pathspec where "pathspec = pathspec_of env plan affected (lw_store w1)"
  obtain cleanup j where 2: "commit (lw_store w1, steps) = (cleanup, j)" by (cases "commit (lw_store w1, steps)")
  let ?v = "w1\<lparr>lw_commits := lw_commits w1 @ [(re_message plan, pathspec)], lw_store := drop_journal j\<rparr>"
  obtain carried w2 where 3: "carry_all env affected ?v = (carried, w2)" by (cases "carry_all env affected ?v")
  have "w' = w2"
    using assms(1) 1 2 3 by (simp add: settle_def Let_def pathspec_def split: prod.splits)
  moreover have "lw_sessions ?v = lw_sessions w \<and> lw_drafts ?v = lw_drafts w" using on_index_sessions [OF 1] by simp
  ultimately show ?thesis
    using carry_all_chain [OF 3 assms(2)] carry_all_drafts [OF 3] assms(3) by auto
qed

definition draft_carried :: "lc_env \<Rightarrow> reidentify \<Rightarrow> lc_world \<Rightarrow> lc_world \<Rightarrow> string \<Rightarrow> bool" where
  "draft_carried env plan w w' i \<longleftrightarrow>
     (\<forall>row. map_of (lw_drafts w) i = Some row \<longrightarrow>
        (\<exists>row' new. map_of (lw_drafts w') (new_id_of plan i) = Some row' \<and> rewritten_by env plan i (df_source row) = Inr new
           \<and> df_source row' = carried_text new (df_source row) \<and> df_seq row' = df_seq row))"

definition session_carried :: "lc_env \<Rightarrow> reidentify \<Rightarrow> lc_world \<Rightarrow> lc_world \<Rightarrow> string \<Rightarrow> bool" where
  "session_carried env plan w w' i \<longleftrightarrow>
     (\<forall>s. map_of (lw_sessions w) i = Some s \<longrightarrow>
        (\<exists>s' new. map_of (lw_sessions w') (new_id_of plan i) = Some s' \<and> rewritten_by env plan i (ns_source s) = Inr new
           \<and> ns_source s' = carried_text new (ns_source s) \<and> ns_seq s' = ns_seq s \<and> ns_unwritten s' = ns_unwritten s))"

lemma carried_everywhere:
  assumes free: "destinations_free env plan w" and planned: "\<forall>a\<in>set affected. planned env plan w a"
    and "distinct (map af_old_id affected)"
    and drafts: "run_chain draft_step affected (map_of (lw_drafts w)) (map_of (lw_drafts w'))"
    and sessions: "run_chain session_step affected (map_of (lw_sessions w)) (map_of (lw_sessions w'))"
    and known: "map_of (lw_drafts w) i \<noteq> None \<or> map_of (lw_sessions w) i \<noteq> None \<or> new_id_of plan i \<noteq> i \<Longrightarrow>
       i \<in> af_old_id ` set affected \<or> left_out env plan w i"
  shows "draft_carried env plan w w' i \<and> session_carried env plan w w' i
    \<and> (new_id_of plan i \<noteq> i \<longrightarrow> map_of (lw_drafts w') i = None \<and> map_of (lw_sessions w') i = None)"
proof (cases "i \<in> af_old_id ` set affected")
  case True
  then obtain a where a: "a \<in> set affected" "af_old_id a = i" by auto
  have apart: "apart both_ids affected" using affected_apart [OF assms(1-3)] .
  have "draft_post a (map_of (lw_drafts w)) (map_of (lw_drafts w'))"
    by (rule drafts.chain_post [OF drafts apart a(1)])
  moreover have "session_post a (map_of (lw_sessions w)) (map_of (lw_sessions w'))"
    by (rule sessions.chain_post [OF sessions apart a(1)])
  moreover have "planned env plan w a" using planned a(1) by blast
  ultimately show ?thesis
    using a(2) by (auto simp: planned_def draft_post_def session_post_def draft_carried_def session_carried_def lift_opt_def)
next
  case False
  have away: "i \<notin> both_ids a" if "a \<in> set affected" "i \<notin> snd ` set (re_remap plan)" for a
  proof
    assume "i \<in> both_ids a"
    then have i: "i = af_new_id a" using False that(1) by (auto simp: both_ids_def)
    have new: "af_new_id a = new_id_of plan (af_old_id a)" using planned that(1) by (simp add: planned_def)
    show False
    proof (cases rule: new_id_cases [of plan "af_old_id a"])
      case stays
      then show False using False that(1) i new by auto
    next
      case moves
      then show False using that(2) i new by force
    qed
  qed
  show ?thesis
  proof (cases "i \<in> snd ` set (re_remap plan)")
    case True
    then have "map_of (lw_drafts w) i = None" "map_of (lw_sessions w) i = None" "i \<notin> fst ` set (re_remap plan)"
      using free by (auto simp: destinations_free_def)
    moreover from this(3) have "new_id_of plan i = i"
      by (simp add: new_id_of_def map_of_eq_None_iff [THEN iffD2])
    ultimately show ?thesis by (simp add: draft_carried_def session_carried_def)
  next
    case outside: False
    have same: "map_of (lw_drafts w') i = map_of (lw_drafts w) i" "map_of (lw_sessions w') i = map_of (lw_sessions w) i"
      using drafts.chain_outside [OF drafts] sessions.chain_outside [OF sessions] away [OF _ outside] by blast+
    show ?thesis
    proof (cases "map_of (lw_drafts w) i \<noteq> None \<or> map_of (lw_sessions w) i \<noteq> None \<or> new_id_of plan i \<noteq> i")
      case True
      then have "left_out env plan w i" using known False by blast
      then show ?thesis
        using same by (auto simp: left_out_def draft_carried_def session_carried_def lift_opt_def carried_text_def)
    qed (use same in \<open>auto simp: draft_carried_def session_carried_def\<close>)
  qed
qed

text \<open>C4: A rename or a move carries all unwritten work along. When it succeeds, every draft row and every open note is
  found again under the id its note now has, with its text rewritten exactly as the links and the title demand and
  with its edit sequence, and nothing is left under an id that was vacated.\<close>

theorem reidentify_carries_work:
  assumes "apply_reidentify env plan w = (Inr t, w')" and "sane (lw_store w)" and "\<not> db_in_tx (lw_db w)"
    and "\<And>affected w1. plan_affected env plan w = (Inr affected, w1) \<Longrightarrow> calls_ok (write_calls plan affected) (lw_store w1, [])"
    and "no_symlinks env" and "destinations_free env plan w" and "resolves env plan w i"
  shows "draft_carried env plan w w' i \<and> session_carried env plan w w' i
    \<and> (new_id_of plan i \<noteq> i \<longrightarrow> map_of (lw_drafts w') i = None \<and> map_of (lw_sessions w') i = None)"
proof -
  obtain affected indexed w1 st3 steps w4 where applied: "plan_affected env plan w = (Inr affected, w1)" "same_world w w1"
      "in_owned_transaction (rewrite_index env plan affected indexed) (w1\<lparr>lw_store := st3\<rparr>) = (Inr (), w4)"
      "settle env plan affected steps w4 = (t, w')"
    by (rule apply_reidentify_cases [OF assms(1-4)]) auto
  note facts = plan_affected_Inr [OF applied(1)]
  have "\<not> db_in_tx (lw_db (w1\<lparr>lw_store := st3\<rparr>))" using applied(2) assms(3) by (simp add: same_world_def)
  from applied(3) in_tables_rewrite_index this
  have w4: "run_chain draft_step affected (map_of (lw_drafts w)) (map_of (lw_drafts w4)) \<and> lw_sessions w4 = lw_sessions w"
  proof (cases rule: in_owned_transaction_cases)
    case (complete x w5 w6)
    then show ?thesis
      using rewrite_index_drafts [of env plan affected indexed "w5\<lparr>lw_db := (lw_db w5)\<lparr>db_in_tx := True\<rparr>\<rparr>" w6] applied(2)
      by (simp add: same_world_def tables_only_def)
  qed simp
  have "\<forall>a\<in>set affected. \<exists>p. note_path (entry_of env w) (af_new_id a) = Inr p"
    using facts(1) by (auto simp: planned_def)
  from settle_carries [OF applied(4) assms(5) this] w4
  have "run_chain draft_step affected (map_of (lw_drafts w)) (map_of (lw_drafts w'))"
      "run_chain session_step affected (map_of (lw_sessions w)) (map_of (lw_sessions w'))" by simp_all
  then show ?thesis
    by (rule carried_everywhere [OF assms(6) facts(1,2)]) (use facts(3) assms(7) in blast)
qed

end
