(* ===== verification/Delete_Laws.thy ===== *)
theory Delete_Laws
  imports Lifecycle_Ops Reidentify_Carry Identity_Laws
begin

section \<open>Deletions complete or change nothing\<close>

text \<open>
  Deleting a note or a directory puts the file aside, clears the rows in one transaction, commits and only then
  discards what was put aside. The shared part is \<open>deletion_cases\<close>; the two operations differ in their rows.
\<close>

subsection \<open>Putting a file aside\<close>

abbreviation trash_of :: "path \<Rightarrow> store \<Rightarrow> path" where
  "trash_of p st \<equiv> trash_path (st_pid st) p (st_next_trash st)"

text \<open>A step list that parks \<open>p\<close>, or nothing.\<close>

definition parked :: "path \<Rightarrow> store \<Rightarrow> file_step list \<Rightarrow> store \<Rightarrow> bool" where
  "parked p st steps st' \<longleftrightarrow> sane st' \<and> restores steps st st' \<and> (st_faults st = [] \<longrightarrow> st_faults st' = [])
     \<and> (steps = [] \<and> st_tree st' = st_tree st \<and> (st_faults st = [] \<longrightarrow> look st p = None)
        \<or> steps = [Trashed p (trash_of p st)] \<and> (\<forall>q. look st' q = moved st p (trash_of p st) q))"

lemma quiet_mode: "fs_mode p st = (Inl e, st') \<Longrightarrow> st_faults st = [] \<Longrightarrow> look st p = None"
  by (auto simp: fs_mode_def sys_quiet split: option.splits node.splits)

lemma journal_trash_effect:
  assumes "journal_trash p (st, []) = (r, (st', steps))" and "sane st" and "clean p" and "look st (trash_of p st) = None"
  shows "sane st' \<and> restores steps st st' \<and> (st_faults st = [] \<longrightarrow> st_faults st' = [])"
    and "r = Inr () \<Longrightarrow> parked p st steps st'" and "r = Inl e \<Longrightarrow> steps = []"
proof -
  have run: "run_call (CTrash p) (st, []) = (r, (st', steps))" using assms(1) by simp
  show all: "sane st' \<and> restores steps st st' \<and> (st_faults st = [] \<longrightarrow> st_faults st' = [])"
    using run_call_restores [OF run] no_faults_call [OF run] assms(2-4) by (auto simp: call_ok_def)
  obtain r1 s1 where 1: "fs_mode p st = (r1, s1)" by (cases "fs_mode p st")
  let ?s1 = "s1\<lparr>st_next_trash := Suc (st_next_trash s1)\<rparr>"
  have t1: "st_tree s1 = st_tree st" "fields_kept st s1" using fs_mode_effect [OF 1] read_mode_kept(2) [OF 1] by auto
  then have b: "trash_of p s1 = trash_of p st" by (simp add: fields_kept_def)
  obtain r2 s2 where 2: "fs_rename p (trash_of p st) ?s1 = (r2, s2)" by (cases "fs_rename p (trash_of p st) ?s1")
  have wf: "wf_tree (st_tree ?s1)" "look ?s1 (trash_of p st) = None" using assms(2,4) t1 by (auto simp: sane_def)
  show "r = Inl e \<Longrightarrow> steps = []"
    using assms(1) 1 2 b by (auto simp: journal_trash_def Let_def split: sum.splits if_splits)
  assume "r = Inr ()"
  then consider "st' = s1" "steps = []" "\<exists>e. r1 = Inl e" | "r2 = Inr ()" "st' = s2" "steps = [Trashed p (trash_of p st)]"
    using assms(1) 1 2 b by (auto simp: journal_trash_def Let_def split: sum.splits if_splits)
  then show "parked p st steps st'"
  proof cases
    case 1
    then show ?thesis using all t1 quiet_mode \<open>fs_mode p st = (r1, s1)\<close> by (auto simp: parked_def)
  next
    case 2
    have "look s2 q = moved st p (trash_of p st) q" for q
      using fs_rename_effect(2) [OF \<open>fs_rename p (trash_of p st) ?s1 = (r2, s2)\<close> wf 2(1)] t1 by (simp add: moved_def)
    then show ?thesis using all 2 by (simp add: parked_def)
  qed
qed

lemma parked_nothing: "sane st \<Longrightarrow> st_tree st' = st_tree st \<Longrightarrow> fields_kept st st' \<Longrightarrow>
    (st_faults st = [] \<Longrightarrow> look st p = None) \<Longrightarrow> parked p st [] st'"
  using sane_same_tree same_same_tree restores_Nil by (auto simp: parked_def fields_kept_def same_sym)

text \<open>What is left once the parked file has been discarded.\<close>

lemma discarded:
  assumes "parked p st steps st1" and "commit (st1, steps) = (c, j)"
  shows "\<not> prefix p q \<Longrightarrow> \<not> prefix (trash_of p st) q \<Longrightarrow> look (drop_journal j) q = look st q"
    and "wf_tree (st_tree st) \<Longrightarrow> look st (trash_of p st) = None \<Longrightarrow> st_faults st = [] \<Longrightarrow> prefix p q \<Longrightarrow>
      \<not> prefix (trash_of p st) q \<Longrightarrow> look (drop_journal j) q = None"
proof -
  obtain st2 left where j: "j = (st2, left)" by (cases j)
  obtain c3 st3 left3 where 3: "commit (st2, left) = (c3, (st3, left3))" by (cases "commit (st2, left)") auto
  then have d: "drop_journal j = st3" using j by (auto simp: drop_journal_def commit_def split: prod.splits if_splits)
  have sub: "set left \<subseteq> set steps"
    using assms(2) j commit_discards_trash [of st1 steps c st2 left] by (cases c) auto
  have st: "set steps \<subseteq> {Trashed p (trash_of p st)}" using assms(1) by (auto simp: parked_def)
  have keep: "look (drop_journal j) q = look st1 q" if "\<not> prefix (trash_of p st) q" for q
  proof -
    have none: "\<forall>a b. Trashed a b \<in> set ss \<longrightarrow> \<not> prefix b q" if "set ss \<subseteq> set steps" for ss
      using that st \<open>\<not> prefix (trash_of p st) q\<close> by auto
    have "look st2 q = look st1 q"
      using commit_discards_trash [of st1 steps c st2 left] assms(2) j none [of steps] by simp
    moreover have "look st3 q = look st2 q" using commit_discards_trash [OF 3] none [OF sub] by simp
    ultimately show ?thesis using d by simp
  qed
  show "\<not> prefix p q \<Longrightarrow> \<not> prefix (trash_of p st) q \<Longrightarrow> look (drop_journal j) q = look st q"
    using keep assms(1) by (auto simp: parked_def moved_def)
  assume a: "wf_tree (st_tree st)" "look st (trash_of p st) = None" "st_faults st = []" "prefix p q"
    "\<not> prefix (trash_of p st) q"
  have "look st1 q = None"
  proof (cases "steps = []")
    case True
    then have "look st p = None" "st_tree st1 = st_tree st" using assms(1) a by (auto simp: parked_def)
    moreover obtain z where "q = p @ z" using a(4) by (auto simp: prefix_def)
    ultimately show ?thesis using wf_no_child [OF a(1), of p z] by (cases "z = []") auto
  next
    case False
    then show ?thesis using assms(1) a by (auto simp: parked_def moved_def)
  qed
  then show "look (drop_journal j) q = None" using keep a by simp
qed

subsection \<open>The common part\<close>

lemma retire_sessions:
  "map_of (lw_sessions (fold retire_session is w)) j = (if j \<in> set is then None else map_of (lw_sessions w) j)"
  "set (lw_armed (fold retire_session is w)) = set (lw_armed w) - set is"
  "lw_store (fold retire_session is w) = lw_store w" "lw_db (fold retire_session is w) = lw_db w"
  "lw_drafts (fold retire_session is w) = lw_drafts w" "lw_commits (fold retire_session is w) = lw_commits w"
  by (induction "is" arbitrary: w) (auto simp: retire_session_def delete_conv)

lemma putting_back_effect:
  assumes "putting_back steps e w = (r, w')" and "restores steps st (lw_store w)" and "sane (lw_store w)"
  shows "\<exists>e'. r = Inl e' \<and> (same (lw_store w') st \<or> undo_incomplete e')
    \<and> (st_faults (lw_store w) = [] \<longrightarrow> same (lw_store w') st) \<and> w' = w\<lparr>lw_store := lw_store w'\<rparr>"
  using abandon_effect [of steps e w "Inl (fst (rolled_back (lw_store w, steps) e))" w' st] assms
  by (auto simp: abandon_def putting_back_def split: prod.splits)

text \<open>The file put aside, the rows cleared, the file discarded: all of it, or none.\<close>

definition gone :: "path \<Rightarrow> lc_world \<Rightarrow> lc_world \<Rightarrow> bool" where
  "gone p w w' \<longleftrightarrow>
     (\<forall>q. \<not> prefix p q \<longrightarrow> \<not> prefix (trash_of p (lw_store w)) q \<longrightarrow> look (lw_store w') q = look (lw_store w) q)
     \<and> (st_faults (lw_store w) = [] \<longrightarrow>
          (\<forall>q. prefix p q \<longrightarrow> \<not> prefix (trash_of p (lw_store w)) q \<longrightarrow> look (lw_store w') q = None))"

definition refused_clean :: "app_error \<Rightarrow> lc_world \<Rightarrow> lc_world \<Rightarrow> bool" where
  "refused_clean e w w' \<longleftrightarrow> untouched w w' \<and> (same (lw_store w') (lw_store w) \<or> undo_incomplete e)
     \<and> (st_faults (lw_store w) = [] \<longrightarrow> same (lw_store w') (lw_store w))"

definition after_parking :: "(unit result \<times> journal) \<Rightarrow> 'b lc \<Rightarrow> (file_step list \<Rightarrow> 'a lc) \<Rightarrow> 'a lc" where
  "after_parking j body settle_f w =
     (case j of
        (Inl e, (st, _)) \<Rightarrow> (Inl e, w\<lparr>lw_store := st\<rparr>)
      | (Inr _, (st, steps)) \<Rightarrow>
          (case in_owned_transaction body (w\<lparr>lw_store := st\<rparr>) of
             (Inl e, w) \<Rightarrow> putting_back steps e w
           | (Inr _, w) \<Rightarrow> settle_f steps w))"

lemma deletion_cases:
  assumes run: "after_parking (rj, (st, steps)) body (settle_deleted env s m ps retired removed) w = (r, w')"
    and tables: "in_tables body" and tx: "\<not> db_in_tx (lw_db w)"
    and ok: "sane st" "restores steps (lw_store w) st" "st_faults (lw_store w) = [] \<longrightarrow> st_faults st = []"
    and fail: "\<And>e. rj = Inl e \<Longrightarrow> steps = []" and completes: "rj = Inr () \<Longrightarrow> parked p (lw_store w) steps st"
    and free: "sane (lw_store w)" "look (lw_store w) (trash_of p (lw_store w)) = None"
  obtains (refused) e where "r = Inl e" "refused_clean e w w'"
  | (removed) t x w0 w1 where "r = Inr t" "terminal_value t = removed" "same_tables (lw_db w) (lw_db w0)" "lw_drafts w0 = lw_drafts w"
      "body (w0\<lparr>lw_db := (lw_db w0)\<lparr>db_in_tx := True\<rparr>\<rparr>) = (Inr x, w1)"
      "same_tables (lw_db w1) (lw_db w')" "lw_drafts w' = lw_drafts w1"
      "\<And>j. map_of (lw_sessions w') j = (if j \<in> set retired then None else map_of (lw_sessions w) j)"
      "set (lw_armed w') = set (lw_armed w) - set retired" "gone p w w'" "lw_commits w' = lw_commits w @ [(m, ps)]"
proof (cases rj)
  case (Inl e)
  have "same st (lw_store w)"
    using ok fail [OF Inl] by (auto simp: restores_def)
  then show ?thesis
    using refused [of e] run Inl by (auto simp: after_parking_def refused_clean_def untouched_def)
next
  case (Inr u)
  let ?w = "w\<lparr>lw_store := st\<rparr>"
  obtain r2 w2 where 2: "in_owned_transaction body ?w = (r2, w2)" by (cases "in_owned_transaction body ?w")
  have tx': "\<not> db_in_tx (lw_db ?w)" using tx by simp
  have park: "parked p (lw_store w) steps st" using completes Inr by simp
  show ?thesis
    using 2 tables tx'
  proof (cases rule: in_owned_transaction_cases)
    case (failed e)
    then have t: "lw_store w2 = st" by (simp add: tables_only_def)
    have "putting_back steps e w2 = (r, w')" using run Inr 2 failed by (simp add: after_parking_def)
    from putting_back_effect [OF this, of "lw_store w"] ok t obtain e' where
      e': "r = Inl e'" "same (lw_store w') (lw_store w) \<or> undo_incomplete e'"
        "st_faults st = [] \<longrightarrow> same (lw_store w') (lw_store w)" "w' = w2\<lparr>lw_store := lw_store w'\<rparr>"
      by auto
    then obtain st' where st': "w' = w2\<lparr>lw_store := st'\<rparr>" by metis
    have "refused_clean e' w w'"
      using e'(2,3) ok failed by (simp add: refused_clean_def untouched_def st' tables_only_def)
    then show ?thesis using refused e'(1) by blast
  next
    case (complete x w0 w1)
    have settle: "settle_deleted env s m ps retired removed steps w2 = (r, w')"
      using run Inr 2 complete by (simp add: after_parking_def)
    obtain c j where c: "commit (st, steps) = (c, j)" by (cases "commit (st, steps)")
    have t2: "lw_store w2 = st" "lw_sessions w2 = lw_sessions w" "lw_armed w2 = lw_armed w" "lw_commits w2 = lw_commits w"
      using complete by (simp_all add: tables_only_def)
    let ?done = "w2\<lparr>lw_commits := lw_commits w2 @ [(m, ps)], lw_store := drop_journal j\<rparr>"
    have r: "\<exists>t. r = Inr t \<and> terminal_value t = removed" and w': "w' = fold retire_session retired ?done"
      using settle c t2 by (auto simp: settle_deleted_def committing_def Let_def split: sum.splits prod.splits)
    from r obtain t where t: "r = Inr t" "terminal_value t = removed" by blast
    have g: "gone p w w'"
      using discarded [OF park c] free by (simp add: gone_def w' retire_sessions sane_def)
    show ?thesis
    proof (rule removed [OF t _ _ complete(5) _ _ _ _ g])
      show "same_tables (lw_db w) (lw_db w0)" using complete(2) by (simp add: same_world_def)
      show "lw_drafts w0 = lw_drafts w" using complete(4) by simp
      show "same_tables (lw_db w1) (lw_db w')" "lw_drafts w' = lw_drafts w1"
        using complete(6,7) by (simp_all add: w' retire_sessions)
    qed (simp_all add: w' retire_sessions t2)
  qed
qed


subsection \<open>The rows\<close>

definition rows_cleared :: "string \<Rightarrow> string set \<Rightarrow> db \<Rightarrow> db \<Rightarrow> bool" where
  "rows_cleared ws S d d' \<longleftrightarrow> db_notes d' = filter (\<lambda>n. \<not> (nr_ws n = ws \<and> nr_id n \<in> S)) (db_notes d)
     \<and> db_links d' = filter (\<lambda>l. \<not> (lr_ws l = ws \<and> lr_source l \<in> S)) (db_links d)
     \<and> (index_ok d \<longrightarrow> index_ok d')"

definition drafts_cleared :: "string set \<Rightarrow> lc_world \<Rightarrow> lc_world \<Rightarrow> bool" where
  "drafts_cleared S w w' \<longleftrightarrow> (\<forall>j. map_of (lw_drafts w') j = (if j \<in> S then None else map_of (lw_drafts w) j))"

lemma rows_cleared_none: "same_tables d d' \<Longrightarrow> rows_cleared ws {} d d'"
  using index_ok_same [of d d'] by (simp add: rows_cleared_def same_tables_def)

lemma filter_both: "filter (\<lambda>x. \<not> (P x \<and> f x \<in> T)) (filter (\<lambda>x. \<not> (P x \<and> f x \<in> S)) xs)
    = filter (\<lambda>x. \<not> (P x \<and> f x \<in> S \<union> T)) xs"
  by (induction xs) auto

lemma rows_cleared_trans: "rows_cleared ws S a b \<Longrightarrow> rows_cleared ws T b c \<Longrightarrow> rows_cleared ws (S \<union> T) a c"
  unfolding rows_cleared_def filter_both [symmetric] by simp

lemma drafts_cleared_trans: "drafts_cleared S a b \<Longrightarrow> drafts_cleared T b c \<Longrightarrow> drafts_cleared (S \<union> T) a c"
  by (simp add: drafts_cleared_def)

lemma rows_cleared_same: "same_tables a a' \<Longrightarrow> same_tables b b' \<Longrightarrow> rows_cleared ws S a b = rows_cleared ws S a' b'"
  using index_ok_same [of a a'] index_ok_same [of b b'] by (simp add: rows_cleared_def same_tables_def)

lemma drafts_statement_tables:
  assumes "drafts_statement f w = (r, w')"
  shows "same_tables (lw_db w) (lw_db w')"
proof -
  obtain r1 w1 where 1: "on_index (statement (\<lambda>d. (Inr (), d))) w = (r1, w1)"
    by (cases "on_index (statement (\<lambda>d. (Inr (), d))) w")
  then have "same_tables (lw_db w) (lw_db w1)" using readsD [OF reads_plain 1] by (simp add: same_world_def)
  then show ?thesis using assms 1 by (auto simp: drafts_statement_def lc_then_def split: sum.splits prod.splits)
qed

lemma clear_draft_Inr:
  assumes "clear_draft i w = (Inr (), w')"
  shows "same_tables (lw_db w) (lw_db w')" "drafts_cleared {i} w w'"
proof -
  have a: "drafts_statement (\<lambda>rows. ((), AList.delete i rows)) w = (Inr (), w')" using assms by (simp add: clear_draft_def)
  show "same_tables (lw_db w) (lw_db w')" by (rule drafts_statement_tables [OF a])
  show "drafts_cleared {i} w w'" using drafts_statement_Inr(2) [OF a] by (simp add: drafts_cleared_def delete_conv)
qed

lemma clear_drafts_Inr:
  "lc_each clear_draft is w = (Inr (), w') \<Longrightarrow> same_tables (lw_db w) (lw_db w') \<and> drafts_cleared (set is) w w'"
proof (induction "is" arbitrary: w)
  case (Cons i "is")
  then obtain w1 where 1: "clear_draft i w = (Inr (), w1)" "lc_each clear_draft is w1 = (Inr (), w')"
    by (auto simp: lc_then_Inr)
  show ?case
    using clear_draft_Inr [OF 1(1)] Cons.IH [OF 1(2)] same_tables_trans drafts_cleared_trans [of "{i}" w w1 "set is" w']
    by auto
qed (simp add: lc_ret_def drafts_cleared_def)

lemma remove_note_Inr:
  assumes "remove_note env i w = (Inr (), w')"
  shows "rows_cleared (ce_ws env) {i} (lw_db w) (lw_db w') \<and> db_dirs (lw_db w') = db_dirs (lw_db w) \<and> drafts_cleared {i} w w'"
proof -
  obtain w1 where 1: "on_index (remove_note_rows (ce_ws env) i) w = (Inr (), w1)" "clear_draft i w1 = (Inr (), w')"
    using assms by (auto simp: remove_note_def lc_then_Inr)
  have r: "remove_note_rows (ce_ws env) i (lw_db w) = (Inr (), lw_db w1)" "lw_drafts w1 = lw_drafts w"
    using 1(1) by (auto simp: on_index_def split: prod.splits)
  let ?d = "without_notes (\<lambda>v j. v = ce_ws env \<and> j = i) (lw_db w)"
  have t: "same_tables ?d (lw_db w')"
    using remove_note_rows_Inr [OF r(1)] clear_draft_Inr(1) [OF 1(2)] same_tables_trans by blast
  have "rows_cleared (ce_ws env) {i} (lw_db w) ?d"
    using without_notes_ok [of "lw_db w" "\<lambda>v j. v = ce_ws env \<and> j = i"] by (simp add: rows_cleared_def) (simp add: without_notes_def)
  then show ?thesis
    using t rows_cleared_same [OF same_tables_refl t] clear_draft_Inr(2) [OF 1(2)] r(2)
    by (simp add: drafts_cleared_def same_tables_def without_notes_def)
qed

lemma remove_notes_Inr:
  "lc_each (remove_note env) is w = (Inr (), w') \<Longrightarrow>
   rows_cleared (ce_ws env) (set is) (lw_db w) (lw_db w') \<and> db_dirs (lw_db w') = db_dirs (lw_db w) \<and> drafts_cleared (set is) w w'"
proof (induction "is" arbitrary: w)
  case (Cons i "is")
  then obtain w1 where 1: "remove_note env i w = (Inr (), w1)" "lc_each (remove_note env) is w1 = (Inr (), w')"
    by (auto simp: lc_then_Inr)
  show ?case
    using remove_note_Inr [OF 1(1)] Cons.IH [OF 1(2)] drafts_cleared_trans [of "{i}" w w1 "set is" w']
      rows_cleared_trans [of "ce_ws env" "{i}" "lw_db w" "lw_db w1" "set is" "lw_db w'"]
    by auto
qed (simp add: lc_ret_def drafts_cleared_def rows_cleared_none)

lemma in_tables_remove_note: "in_tables (remove_note env i)"
  unfolding remove_note_def by (intro tabling)

subsection \<open>Reading first\<close>

lemma refused_reading: "same_world w w' \<Longrightarrow> refused_clean e w w'"
  using same_same_tree by (auto simp: refused_clean_def untouched_def same_world_def same_sym)

lemma refused_after_reading:
  assumes "same_world w w1" and "refused_clean e w1 w'"
  shows "refused_clean e w w'"
proof -
  have s: "same (lw_store w1) (lw_store w)" and f: "st_faults (lw_store w) = [] \<longrightarrow> st_faults (lw_store w1) = []"
    using assms(1) same_same_tree by (auto simp: same_world_def fields_kept_def same_sym)
  have "untouched w w'"
    using assms same_tables_trans [of "lw_db w" "lw_db w1" "lw_db w'"]
    by (simp add: refused_clean_def untouched_def same_world_def)
  then show ?thesis
    using assms(2) s f same_trans [OF _ s] by (simp add: refused_clean_def) blast
qed

lemma gone_after_reading: "same_world w w1 \<Longrightarrow> gone p w1 w' \<Longrightarrow> gone p w w'"
  by (simp add: gone_def same_world_def fields_kept_def)

lemma sane_reading: "same_world w w' \<Longrightarrow> sane (lw_store w) \<Longrightarrow> sane (lw_store w')"
  using sane_same_tree by (auto simp: same_world_def)

text \<open>A step of reading: it refuses, or the rest goes on from a world that is the same.\<close>

lemma reading_step:
  assumes "lc_then m f w = (r, w')" and "reads m"
  obtains (refused) e where "r = Inl e" "refused_clean e w w'"
  | (goes_on) x w1 where "m w = (Inr x, w1)" "same_world w w1" "f x w1 = (r, w')"
proof (cases "m w")
  case (Pair r1 w1)
  then have "same_world w w1" using readsD [OF assms(2)] by simp
  then show ?thesis
    using assms(1) Pair refused goes_on refused_reading by (cases r1) (auto simp: lc_then_def)
qed


text \<open>Everything kept under the ids of \<open>S\<close> is forgotten, the rest is kept.\<close>

definition forgotten :: "lc_env \<Rightarrow> path \<Rightarrow> string set \<Rightarrow> string list \<Rightarrow> lc_world \<Rightarrow> lc_world \<Rightarrow> bool" where
  "forgotten env p S retired w w' \<longleftrightarrow> rows_cleared (ce_ws env) S (lw_db w) (lw_db w') \<and> drafts_cleared S w w'
     \<and> (\<forall>j. map_of (lw_sessions w') j = (if j \<in> set retired then None else map_of (lw_sessions w) j))
     \<and> set (lw_armed w') = set (lw_armed w) - set retired \<and> gone p w w'"

lemma forgotten_after_reading:
  assumes "same_world w w1" and "forgotten env p S retired w1 w'"
  shows "forgotten env p S retired w w'"
proof -
  have "same_tables (lw_db w1) (lw_db w)" using assms(1) same_tables_sym by (simp add: same_world_def)
  from rows_cleared_same [OF this same_tables_refl] show ?thesis
    using assms gone_after_reading [OF assms(1)] by (simp add: forgotten_def drafts_cleared_def same_world_def)
qed

lemma nothing_gone:
  assumes "lw_store w' = lw_store w" and "wf_tree (st_tree (lw_store w))"
    and "st_faults (lw_store w) = [] \<Longrightarrow> look (lw_store w) p = None"
  shows "gone p w w'"
proof -
  have "look (lw_store w) q = None" if f: "st_faults (lw_store w) = []" and q: "prefix p q" for q
  proof -
    obtain z where z: "q = p @ z" using q by (auto simp: prefix_def)
    then show ?thesis using assms(3) [OF f] wf_no_child [OF assms(2), of p z] by (cases "z = []") auto
  qed
  then show ?thesis using assms(1) by (simp add: gone_def)
qed

lemma note_path_step: "note_path (entry_of env w) i = Inr p \<Longrightarrow> note_path_of env i w = (Inr p, w)"
  by (simp add: note_path_of_def lc_then_def lc_get_def lc_lift_def)

lemma indexed_title_None:
  assumes "on_index (indexed_title ws i) w = (Inr None, w')" and "index_ok (lw_db w)"
  shows "rows_cleared ws {i} (lw_db w) (lw_db w')"
proof -
  have n: "List.find (\<lambda>r. nr_ws r = ws \<and> nr_id r = i) (db_notes (lw_db w)) = None"
    and d: "lw_db w' = (lw_db w)\<lparr>db_faults := tl (db_faults (lw_db w))\<rparr>"
    using assms by (auto simp: on_index_def indexed_title_def statement_Inr split: prod.splits)
  have k: "filter (\<lambda>r. \<not> (nr_ws r = ws \<and> nr_id r \<in> {i})) (db_notes (lw_db w)) = db_notes (lw_db w)"
    using n by (auto simp: find_None_iff intro!: filter_True)
  have "(lr_ws l, lr_source l) \<noteq> (ws, i)" if "l \<in> set (db_links (lw_db w))" for l
    using that assms(2) n by (force simp: index_ok_def find_None_iff)
  then have l: "filter (\<lambda>l. \<not> (lr_ws l = ws \<and> lr_source l \<in> {i})) (db_links (lw_db w)) = db_links (lw_db w)"
    by (auto intro!: filter_True)
  have "same_tables (lw_db w) (lw_db w')" using d by (simp add: same_tables_def)
  from index_ok_same [OF this] this k l assms(2) show ?thesis by (simp add: rows_cleared_def same_tables_def)
qed

lemma exists_quiet:
  assumes "ask_files (fs_exists p) w = (Inr False, w')" and "st_faults (lw_store w) = []"
  shows "look (lw_store w) p = None"
  using assms by (auto simp: ask_files_def on_files_def fs_exists_def fs_test_def sys_quiet split: prod.splits sum.splits)

lemma trash_step:
  assumes "journal_trash p (lw_store w, []) = (rj, (st, steps))" and "sane (lw_store w)" and "clean p"
    and "look (lw_store w) (trash_of p (lw_store w)) = None"
    and run: "after_parking (rj, (st, steps)) body (settle_deleted env s m ps retired removed) w = (r, w')"
    and tables: "in_tables body" and tx: "\<not> db_in_tx (lw_db w)"
  obtains (refused) e where "r = Inl e" "refused_clean e w w'"
  | (removed) t x w0 w1 where "r = Inr t" "terminal_value t = removed" "same_tables (lw_db w) (lw_db w0)"
      "lw_drafts w0 = lw_drafts w" "body (w0\<lparr>lw_db := (lw_db w0)\<lparr>db_in_tx := True\<rparr>\<rparr>) = (Inr x, w1)"
      "same_tables (lw_db w1) (lw_db w')" "lw_drafts w' = lw_drafts w1"
      "\<And>j. map_of (lw_sessions w') j = (if j \<in> set retired then None else map_of (lw_sessions w) j)"
      "set (lw_armed w') = set (lw_armed w) - set retired" "gone p w w'" "lw_commits w' = lw_commits w @ [(m, ps)]"
proof -
  have e: "sane st" "restores steps (lw_store w) st" "st_faults (lw_store w) = [] \<longrightarrow> st_faults st = []"
    using journal_trash_effect(1) [OF assms(1-4)] by blast+
  note cases_here = deletion_cases [OF run tables tx e journal_trash_effect(3) [OF assms(1-4)]
      journal_trash_effect(2) [OF assms(1-4)] assms(2,4)]
  show ?thesis
  proof (rule cases_here)
    fix e assume "r = Inl e" "refused_clean e w w'"
    then show ?thesis by (rule refused)
  qed (assumption | (rule removed, (assumption | simp)+))+
qed


subsection \<open>A note\<close>

lemma orphan_body_Inr:
  assumes "lc_then (draft_exists i) (\<lambda>found. if \<not> found then lc_ret False else lc_then (clear_draft i) (\<lambda>_. lc_ret True)) w
    = (Inr found, w')"
  shows "same_tables (lw_db w) (lw_db w')" "found \<Longrightarrow> drafts_cleared {i} w w'" "\<not> found \<Longrightarrow> lw_drafts w' = lw_drafts w"
proof -
  obtain y w1 where 1: "draft_exists i w = (Inr y, w1)"
      "(if \<not> y then lc_ret False else lc_then (clear_draft i) (\<lambda>_. lc_ret True)) w1 = (Inr found, w')"
    using assms unfolding lc_then_Inr by blast
  have d: "same_tables (lw_db w) (lw_db w1)" "lw_drafts w1 = lw_drafts w"
    using 1(1) drafts_statement_tables drafts_statement_Inr(2) unfolding draft_exists_def by fastforce+
  have c: "clear_draft i w1 = (Inr (), w')" if y using 1(2) that by (auto simp: lc_then_Inr lc_ret_def)
  have n: "w' = w1 \<and> \<not> found" if "\<not> y" using 1(2) that by (simp add: lc_ret_def)
  show "same_tables (lw_db w) (lw_db w')"
    using d(1) c clear_draft_Inr(1) same_tables_trans n by (cases y) blast+
  show "drafts_cleared {i} w w'" if found
    using that n d(2) clear_draft_Inr(2) [OF c] by (cases y) (auto simp: drafts_cleared_def)
  show "lw_drafts w' = lw_drafts w" if "\<not> found"
    using that 1(2) n d(2) by (cases y) (auto simp: lc_then_Inr lc_ret_def)
qed

lemma delete_orphaned_draft_effect:
  assumes "delete_orphaned_draft i w = (r, w')" and "\<not> db_in_tx (lw_db w)"
  obtains (refused) e where "r = Inl e" "refused_clean e w w'"
  | (cleared) "r = Inr ()" "same_tables (lw_db w) (lw_db w')" "drafts_cleared {i} w w'" "lw_store w' = lw_store w"
      "\<And>j. map_of (lw_sessions w') j = (if j = i then None else map_of (lw_sessions w) j)"
      "set (lw_armed w') = set (lw_armed w) - {i}"
proof -
  let ?body = "lc_then (draft_exists i) (\<lambda>found. if \<not> found then lc_ret False else lc_then (clear_draft i) (\<lambda>_. lc_ret True))"
  have tables: "in_tables ?body" by (auto intro!: tabling)
  obtain r1 w1 where 1: "in_owned_transaction ?body w = (r1, w1)" by (cases "in_owned_transaction ?body w")
  note whole = assms(1) [unfolded delete_orphaned_draft_def lc_then_def [of "in_owned_transaction ?body"] 1]
  show ?thesis
    using 1 tables assms(2)
  proof (cases rule: in_owned_transaction_cases)
    case (failed e)
    then show ?thesis using refused [of e] whole by (simp add: refused_clean_def untouched_def tables_only_def)
  next
    case (complete found w0 w2)
    let ?w0 = "w0\<lparr>lw_db := (lw_db w0)\<lparr>db_in_tx := True\<rparr>\<rparr>"
    note b = orphan_body_Inr [OF complete(5)]
    have t: "same_tables (lw_db w) (lw_db w1)"
      using complete(2,6) b(1) by (simp add: same_tables_def same_world_def)
    have keep: "lw_store w1 = lw_store w" "lw_sessions w1 = lw_sessions w" "lw_armed w1 = lw_armed w" "lw_commits w1 = lw_commits w"
      using complete(8) by (simp_all add: tables_only_def)
    show ?thesis
    proof (cases found)
      case True
      then have "r = Inr ()" "w' = retire_session i w1" using whole complete(1) by simp_all
      moreover have "drafts_cleared {i} w w1" using b(2) True complete(4,7) by (simp add: drafts_cleared_def)
      ultimately show ?thesis
        using cleared t keep by (auto simp: retire_session_def delete_conv drafts_cleared_def)
    next
      case False
      then have "r = Inl (NotFound i)" "w' = w1" using whole complete(1) by simp_all
      then show ?thesis
        using refused [of "NotFound i"] t keep b(3) False complete(4,7) by (simp add: refused_clean_def untouched_def)
    qed
  qed
qed


definition deletion_ready :: "path \<Rightarrow> lc_world \<Rightarrow> bool" where
  "deletion_ready p w \<longleftrightarrow> clean p \<and> look (lw_store w) (trash_of p (lw_store w)) = None \<and> sane (lw_store w)
     \<and> \<not> db_in_tx (lw_db w) \<and> index_ok (lw_db w)"

lemma ready_reading: "same_world w w' \<Longrightarrow> deletion_ready p w \<Longrightarrow> deletion_ready p w'"
  using sane_reading [of w w'] index_ok_same [of "lw_db w" "lw_db w'"]
  by (simp add: deletion_ready_def same_world_def fields_kept_def)

text \<open>How an operation that deletes ends.\<close>

definition deletes :: "lc_env \<Rightarrow> path \<Rightarrow> string set \<Rightarrow> string set \<Rightarrow> string list terminal result \<Rightarrow> lc_world \<Rightarrow> lc_world \<Rightarrow> bool" where
  "deletes env p S R r w w' \<longleftrightarrow>
     (case r of
        Inl e \<Rightarrow> refused_clean e w w'
      | Inr t \<Rightarrow> set (terminal_value t) = R \<and> distinct (terminal_value t) \<and> forgotten env p S (terminal_value t) w w')"

lemma deletes_after_reading:
  "same_world w w1 \<Longrightarrow> deletes env p S R r w1 w' \<Longrightarrow> deletes env p S R r w w'"
  using refused_after_reading forgotten_after_reading by (auto simp: deletes_def split: sum.splits)

lemma settle_note_deletes:
  assumes "after_parking (journal_trash p (lw_store w, [])) (remove_note env i) (settle_deleted env s m ps [i] [i]) w = (r, w')"
    and "deletion_ready p w"
  shows "deletes env p {i} {i} r w w'"
proof -
  obtain rj st steps where j: "journal_trash p (lw_store w, []) = (rj, (st, steps))"
    by (cases "journal_trash p (lw_store w, [])") auto
  show ?thesis
  proof (rule trash_step [OF j _ _ _ assms(1) [unfolded j] in_tables_remove_note])
    fix e assume "r = Inl e" "refused_clean e w w'"
    then show ?thesis by (simp add: deletes_def)
  next
    fix t x w0 w1
    assume t: "r = Inr t" "terminal_value t = [i]" "same_tables (lw_db w) (lw_db w0)" "lw_drafts w0 = lw_drafts w"
      and b: "remove_note env i (w0\<lparr>lw_db := (lw_db w0)\<lparr>db_in_tx := True\<rparr>\<rparr>) = (Inr x, w1)"
      and k: "same_tables (lw_db w1) (lw_db w')" "lw_drafts w' = lw_drafts w1"
        "\<And>j. map_of (lw_sessions w') j = (if j \<in> set [i] then None else map_of (lw_sessions w) j)"
        "set (lw_armed w') = set (lw_armed w) - set [i]" "gone p w w'"
    let ?w0 = "w0\<lparr>lw_db := (lw_db w0)\<lparr>db_in_tx := True\<rparr>\<rparr>"
    have s: "same_tables (lw_db ?w0) (lw_db w)" using t(3) by (simp add: same_tables_def)
    have "rows_cleared (ce_ws env) {i} (lw_db ?w0) (lw_db w1)" "drafts_cleared {i} ?w0 w1"
      using remove_note_Inr [of env i ?w0 w1] b by simp_all
    then have "rows_cleared (ce_ws env) {i} (lw_db w) (lw_db w')" "drafts_cleared {i} w w'"
      using rows_cleared_same [OF s k(1)] t(4) k(2) by (simp_all add: drafts_cleared_def)
    then show ?thesis using t k by (simp add: deletes_def forgotten_def)
  qed (use assms(2) in \<open>simp_all add: deletion_ready_def\<close>)
qed

lemma orphan_deletes:
  assumes "lc_then (delete_orphaned_draft i) (\<lambda>_. lc_ret (Applied [i])) w = (r, w')"
    and v: "same_world v w" "deletion_ready p v" "rows_cleared (ce_ws env) {i} (lw_db v) (lw_db v)"
    and "st_faults (lw_store v) = [] \<Longrightarrow> look (lw_store v) p = None"
  shows "deletes env p {i} {i} r v w'"
proof -
  obtain r1 w1 where 1: "delete_orphaned_draft i w = (r1, w1)" by (cases "delete_orphaned_draft i w")
  have tx: "\<not> db_in_tx (lw_db w)" using v by (simp add: deletion_ready_def same_world_def)
  show ?thesis
    using 1 tx
  proof (cases rule: delete_orphaned_draft_effect)
    case (refused e)
    then show ?thesis using assms(1) 1 refused_after_reading [OF v(1)] by (auto simp: lc_then_def deletes_def)
  next
    case cleared
    then have r: "r = Inr (Applied [i])" "w' = w1" using assms(1) 1 by (simp_all add: lc_then_def lc_ret_def)
    have same: "same_tables (lw_db v) (lw_db w)" "lw_drafts w = lw_drafts v" "lw_sessions w = lw_sessions v"
        "lw_armed w = lw_armed v" "st_tree (lw_store w1) = st_tree (lw_store v)"
      using v(1) cleared(4) by (simp_all add: same_world_def)
    have "rows_cleared (ce_ws env) {i} (lw_db v) (lw_db w1)"
      using rows_cleared_same [OF same_tables_refl same_tables_trans [OF same(1) cleared(2)]] v(3) by blast
    moreover have "gone p v w1"
      using nothing_gone [of "v\<lparr>lw_store := lw_store v\<rparr>" v p] v(2) assms(5) same(5)
      by (simp add: deletion_ready_def sane_def gone_def)
    ultimately show ?thesis using r cleared same by (simp add: deletes_def forgotten_def drafts_cleared_def)
  qed
qed

lemma trash_note_parks:
  "\<exists>s m ps. trash_note env i title p w
     = after_parking (journal_trash p (lw_store w, [])) (remove_note env i) (settle_deleted env s m ps [i] [i]) w"
  unfolding trash_note_def after_parking_def Let_def by blast

lemma delete_note_deletes:
  assumes run: "delete_note env i w = (r, w')" and p: "note_path (entry_of env w) i = Inr p" and ready: "deletion_ready p w"
  shows "deletes env p {i} {i} r w w'"
proof -
  have refuse: "deletes env p {i} {i} r w w'" if "r = Inl e" "refused_clean e w w'" for e
    using that by (simp add: deletes_def)
  let ?rest = "\<lambda>title found. if \<not> found \<and> title = None
       then lc_then (delete_orphaned_draft i) (\<lambda>_. lc_ret (Applied [i]))
       else
         lc_then (ask_files (fs_exists p)) (\<lambda>found.
         lc_then (if found then ask_files (fs_is_file p) else lc_ret True) (\<lambda>is_file.
           if found \<and> \<not> is_file then lc_fail (NotFound i) else trash_note env i title p))"
  from run [unfolded delete_note_def lc_then_def [of "note_path_of env i"] note_path_step [OF p], simplified]
  show ?thesis
  proof (rule reading_step)
    fix title w1
    assume 1: "on_index (indexed_title (ce_ws env) i) w = (Inr title, w1)" "same_world w w1"
      and "lc_then (ask_files (fs_exists p)) (?rest title) w1 = (r, w')"
    from this(3) have "deletes env p {i} {i} r w1 w'"
    proof (rule reading_step)
      fix found w2
      assume 2: "ask_files (fs_exists p) w1 = (Inr found, w2)" "same_world w1 w2" "?rest title found w2 = (r, w')"
      note ready1 = ready_reading [OF 1(2) ready]
      note ready2 = ready_reading [OF 2(2) ready1]
      show "deletes env p {i} {i} r w1 w'"
      proof (cases "\<not> found \<and> title = None")
        case True
        show ?thesis
        proof (rule orphan_deletes [OF _ 2(2) ready1])
          show "lc_then (delete_orphaned_draft i) (\<lambda>_. lc_ret (Applied [i])) w2 = (r, w')" using 2(3) True by simp
          show "rows_cleared (ce_ws env) {i} (lw_db w1) (lw_db w1)"
            using indexed_title_None [of "ce_ws env" i w w1] 1 True ready
              rows_cleared_same [of "lw_db w" "lw_db w1" "lw_db w1" "lw_db w1" "ce_ws env" "{i}"]
            by (simp add: same_world_def deletion_ready_def)
          show "look (lw_store w1) p = None" if "st_faults (lw_store w1) = []"
            using exists_quiet [of p w1 w2] that 2(1) True by simp
        qed
      next
        case False
        then have "lc_then (ask_files (fs_exists p)) (\<lambda>found.
         lc_then (if found then ask_files (fs_is_file p) else lc_ret True) (\<lambda>is_file.
           if found \<and> \<not> is_file then lc_fail (NotFound i) else trash_note env i title p)) w2 = (r, w')" using 2(3) by auto
        then have "deletes env p {i} {i} r w2 w'"
        proof (rule reading_step)
          fix found w3
          assume 3: "same_world w2 w3" "lc_then (if found then ask_files (fs_is_file p) else lc_ret True) (\<lambda>is_file.
             if found \<and> \<not> is_file then lc_fail (NotFound i) else trash_note env i title p) w3 = (r, w')"
          from 3(2) have "deletes env p {i} {i} r w3 w'"
          proof (rule reading_step)
            fix is_file w4
            assume 4: "same_world w3 w4" "(if found \<and> \<not> is_file then lc_fail (NotFound i) else trash_note env i title p) w4 = (r, w')"
            note ready4 = ready_reading [OF 4(1) ready_reading [OF 3(1) ready2]]
            have "deletes env p {i} {i} r w4 w'"
              using 4(2) trash_note_parks [of env i title p w4] settle_note_deletes ready4 refused_reading [of w4 w4]
              by (auto simp: lc_fail_def deletes_def split: if_splits)
            then show "deletes env p {i} {i} r w3 w'" by (rule deletes_after_reading [OF 4(1)])
          qed (auto simp: deletes_def intro!: reading)
          then show "deletes env p {i} {i} r w2 w'" by (rule deletes_after_reading [OF 3(1)])
        qed (auto simp: deletes_def intro!: reading)
        then show ?thesis by (rule deletes_after_reading [OF 2(2)])
      qed
    qed (auto simp: deletes_def intro!: reading)
    then show ?thesis by (rule deletes_after_reading [OF 1(2)])
  qed (use refuse in \<open>auto intro!: reading\<close>)
qed


subsection \<open>A directory\<close>

lemma like_prefix: "prefix pre j \<Longrightarrow> like_match (like_escape pre @ ''%'') j"
  unfolding like_escape_prefix by (rule map_mono_prefix)

lemma note_ids_Inr:
  assumes "on_index (note_ids_with_prefix ws pre) w = (Inr is, w')"
  shows "set is = {nr_id n |n. n \<in> set (db_notes (lw_db w)) \<and> nr_ws n = ws \<and> prefix pre (nr_id n)}"
    and "distinct is"
  using assms like_prefix
  by (auto simp: on_index_def note_ids_with_prefix_def statement_Inr split: prod.splits)

lemma draft_ids_Inr:
  assumes "draft_ids_with_prefix pre w = (Inr is, w')"
  shows "set is = {j. map_of (lw_drafts w) j \<noteq> None \<and> prefix pre j}"
proof -
  have "set is = {j \<in> fst ` set (lw_drafts w). prefix pre j}"
    using drafts_statement_Inr(1) [OF assms [unfolded draft_ids_with_prefix_def]] like_prefix by auto
  then show ?thesis by (simp add: map_of_eq_None_iff)
qed

lemma clear_subtree_Inr:
  assumes "clear_subtree env d is os w = (Inr (), w')"
  shows "rows_cleared (ce_ws env) (set is) (lw_db w) (lw_db w')" "drafts_cleared (set is \<union> set os) w w'"
proof -
  obtain w1 w2 where 1: "lc_each (remove_note env) is w = (Inr (), w1)" "lc_each clear_draft os w1 = (Inr (), w2)"
      and 3: "on_index (delete_directory_rows (ce_ws env)
        (\<lambda>i. i = d \<or> like_match (like_escape d @ [SLASH] @ ''%'') i)) w2 = (Inr (), w')"
    using assms by (auto simp: clear_subtree_def lc_then_Inr)
  note n = remove_notes_Inr [OF 1(1)] and o = clear_drafts_Inr [OF 1(2)]
  have d: "lw_drafts w' = lw_drafts w2" "db_notes (lw_db w') = db_notes (lw_db w2)" "db_links (lw_db w') = db_links (lw_db w2)"
      "index_ok (lw_db w') = index_ok (lw_db w2)"
  proof -
    have e: "w' = w2\<lparr>lw_db := (lw_db w2)\<lparr>db_faults := tl (db_faults (lw_db w2)),
        db_dirs := filter (\<lambda>r. \<not> (dr_ws r = ce_ws env \<and> (dr_id r = d \<or> like_match (like_escape d @ [SLASH] @ ''%'') (dr_id r))))
          (db_dirs (lw_db w2))\<rparr>\<rparr>"
      using 3 unfolding on_index_def delete_directory_rows_def statement_def Let_def
      by (auto split: list.splits option.splits)
    show "lw_drafts w' = lw_drafts w2" "db_notes (lw_db w') = db_notes (lw_db w2)" "db_links (lw_db w') = db_links (lw_db w2)"
      unfolding e by simp_all
    show "index_ok (lw_db w') = index_ok (lw_db w2)" unfolding e index_ok_def by simp
  qed
  have "rows_cleared (ce_ws env) (set is) (lw_db w) (lw_db w2)"
    using n o rows_cleared_same [OF same_tables_refl, of "lw_db w1" "lw_db w2"] by blast
  then show "rows_cleared (ce_ws env) (set is) (lw_db w) (lw_db w')" using d by (simp add: rows_cleared_def)
  show "drafts_cleared (set is \<union> set os) w w'"
    using drafts_cleared_trans [of "set is" w w1 "set os" w2] n o d by (simp add: drafts_cleared_def)
qed

lemma in_tables_subtree: "in_tables (clear_subtree env d is os)"
  unfolding clear_subtree_def by (intro tabling in_tables_remove_note)

text \<open>Clearing the rows of the ids that have some clears all that begin with the prefix.\<close>

lemma rows_cleared_prefix:
  assumes "rows_cleared ws S d d'" and "index_ok d"
    and "\<And>n. n \<in> set (db_notes d) \<Longrightarrow> nr_ws n = ws \<Longrightarrow> nr_id n \<in> S \<longleftrightarrow> nr_id n \<in> T"
  shows "rows_cleared ws T d d'"
proof -
  have "lr_source l \<in> S \<longleftrightarrow> lr_source l \<in> T" if l: "l \<in> set (db_links d)" "lr_ws l = ws" for l
  proof -
    obtain n where "n \<in> set (db_notes d)" "nr_ws n = ws" "nr_id n = lr_source l"
      using assms(2) l by (force simp: index_ok_def)
    then show ?thesis using assms(3) [of n] by simp
  qed
  then show ?thesis using assms by (auto simp: rows_cleared_def intro!: filter_cong)
qed


abbreviation below :: "string \<Rightarrow> string set" where
  "below d \<equiv> {j. prefix (d @ [SLASH]) j}"

definition known_below :: "lc_env \<Rightarrow> string \<Rightarrow> lc_world \<Rightarrow> string set" where
  "known_below env d w =
     {j \<in> below d. map_of (lw_drafts w) j \<noteq> None \<or> (\<exists>n\<in>set (db_notes (lw_db w)). nr_ws n = ce_ws env \<and> nr_id n = j)}"

text \<open>The ids the operation has collected are those it must.\<close>

definition collected :: "lc_env \<Rightarrow> string \<Rightarrow> string list \<Rightarrow> string list \<Rightarrow> lc_world \<Rightarrow> bool" where
  "collected env d is os w \<longleftrightarrow> set is \<union> set os = known_below env d w
     \<and> set is = {nr_id n |n. n \<in> set (db_notes (lw_db w)) \<and> nr_ws n = ce_ws env \<and> prefix (d @ [SLASH]) (nr_id n)}"

lemma known_below_reading: "same_world w w' \<Longrightarrow> known_below env d w' = known_below env d w"
  by (simp add: known_below_def same_world_def same_tables_def)

lemma collected_reading: "same_world w w' \<Longrightarrow> collected env d is os w \<Longrightarrow> collected env d is os w'"
proof -
  assume s: "same_world w w'" and c: "collected env d is os w"
  have "db_notes (lw_db w') = db_notes (lw_db w)" using s by (simp add: same_world_def same_tables_def)
  then show "collected env d is os w'" using c unfolding collected_def known_below_reading [OF s] by metis
qed

lemma settle_directory_deletes:
  assumes "after_parking (rj, (st, steps)) (clear_subtree env d is os)
      (settle_deleted env s m ps (is @ os) (id_order (is @ os))) w = (r, w')"
    and ready: "deletion_ready p w" and c: "collected env d is os w"
    and ok: "sane st" "restores steps (lw_store w) st" "st_faults (lw_store w) = [] \<longrightarrow> st_faults st = []"
    and fail: "\<And>e. rj = Inl e \<Longrightarrow> steps = []" and completes: "rj = Inr () \<Longrightarrow> parked p (lw_store w) steps st"
  shows "deletes env p (below d) (known_below env d w) r w w'"
proof -
  have tx: "\<not> db_in_tx (lw_db w)" "sane (lw_store w)" "look (lw_store w) (trash_of p (lw_store w)) = None"
    using ready by (simp_all add: deletion_ready_def)
  show ?thesis
  proof (rule deletion_cases [OF assms(1) in_tables_subtree tx(1) ok fail completes tx(2,3)])
    fix e assume "r = Inl e" "refused_clean e w w'"
    then show ?thesis by (simp add: deletes_def)
  next
    fix t x w0 w1
    assume t: "r = Inr t" "terminal_value t = id_order (is @ os)" "same_tables (lw_db w) (lw_db w0)" "lw_drafts w0 = lw_drafts w"
      and b: "clear_subtree env d is os (w0\<lparr>lw_db := (lw_db w0)\<lparr>db_in_tx := True\<rparr>\<rparr>) = (Inr x, w1)"
      and k: "same_tables (lw_db w1) (lw_db w')" "lw_drafts w' = lw_drafts w1"
        "\<And>j. map_of (lw_sessions w') j = (if j \<in> set (is @ os) then None else map_of (lw_sessions w) j)"
        "set (lw_armed w') = set (lw_armed w) - set (is @ os)" "gone p w w'"
    let ?w0 = "w0\<lparr>lw_db := (lw_db w0)\<lparr>db_in_tx := True\<rparr>\<rparr>"
    have s: "same_tables (lw_db ?w0) (lw_db w)" using t(3) by (simp add: same_tables_def)
    note z = clear_subtree_Inr [of env d "is" os ?w0 w1]
    have "rows_cleared (ce_ws env) (set is) (lw_db w) (lw_db w')"
      using z(1) b rows_cleared_same [OF s k(1)] by simp
    then have "rows_cleared (ce_ws env) (below d) (lw_db w) (lw_db w')"
      by (rule rows_cleared_prefix) (use ready c in \<open>auto simp: deletion_ready_def collected_def\<close>)
    moreover have "drafts_cleared (below d) w w'"
    proof -
      have "map_of (lw_drafts w) j = None" if "j \<in> below d" "j \<notin> set is \<union> set os" for j
      proof -
        have "set is \<union> set os = known_below env d w" using c unfolding collected_def by (rule conjunct1)
        then have "j \<notin> known_below env d w" using that(2) by blast
        then show ?thesis using that(1) by (simp add: known_below_def)
      qed
      moreover have "j \<in> below d" if "j \<in> set is \<union> set os" for j
        using that c unfolding collected_def known_below_def by blast
      moreover have "map_of (lw_drafts w') j = (if j \<in> set is \<union> set os then None else map_of (lw_drafts w) j)" for j
        using z(2) b t(4) k(2) by (simp add: drafts_cleared_def)
      ultimately show ?thesis unfolding drafts_cleared_def by metis
    qed
    moreover have "set (id_order (is @ os)) = known_below env d w" 
      using c [unfolded collected_def, THEN conjunct1] by (simp only: id_order_facts set_append)
    ultimately show ?thesis
      using t k by (simp add: deletes_def forgotten_def)
  qed
qed

lemma ask_exists_world:
  assumes "ask_files (fs_exists p) w = (r, w')"
  shows "w' = w\<lparr>lw_store := lw_store w'\<rparr>" "st_tree (lw_store w') = st_tree (lw_store w)"
    "fields_kept (lw_store w) (lw_store w')"
  using readsD [OF reads_tests(2) assms] assms by (auto simp: same_world_def ask_files_def on_files_def split: prod.splits)

lemma trash_directory_parks:
  "trash_directory env d p is os found w =
     after_parking (if found then journal_trash p (lw_store w, []) else (Inr (), (lw_store w, [])))
       (clear_subtree env d is os)
       (settle_deleted env (''Delete directory '' @ d) ((''Delete directory '' @ d) @ [LF]) [d] (is @ os) (id_order (is @ os))) w"
  by (simp only: trash_directory_def after_parking_def Let_def)

lemma trash_directory_deletes:
  assumes run: "lc_then (ask_files (fs_exists p)) (trash_directory env d p is os) w = (r, w')"
    and ready: "deletion_ready p w" and c: "collected env d is os w"
  shows "deletes env p (below d) (known_below env d w) r w w'"
proof -
  obtain found w1 where 1: "ask_files (fs_exists p) w = (Inr found, w1)"
    by (cases "ask_files (fs_exists p) w") (auto simp: ask_files_def split: prod.splits)
  have s: "same_world w w1" using readsD [OF reads_tests(2) 1] .
  have run1: "trash_directory env d p is os found w1 = (r, w')" using run 1 by (simp add: lc_then_def)
  let ?settle = "settle_deleted env (''Delete directory '' @ d) ((''Delete directory '' @ d) @ [LF]) [d] (is @ os) (id_order (is @ os))"
  show ?thesis
  proof (cases found)
    case True
    note ready1 = ready_reading [OF s ready]
    obtain rj st steps where j: "journal_trash p (lw_store w1, []) = (rj, (st, steps))"
      by (cases "journal_trash p (lw_store w1, [])") auto
    have "after_parking (rj, (st, steps)) (clear_subtree env d is os) ?settle w1 = (r, w')"
      using run1 unfolding trash_directory_parks j if_P [OF True] .
    moreover note e = journal_trash_effect [OF j]
    ultimately have "deletes env p (below d) (known_below env d w1) r w1 w'"
      using settle_directory_deletes [OF _ ready1 collected_reading [OF s c]] ready1 by (auto simp: deletion_ready_def)
    then show ?thesis using deletes_after_reading [OF s] known_below_reading [OF s] by simp
  next
    case False
    have w1: "w1 = w\<lparr>lw_store := lw_store w1\<rparr>" using ask_exists_world(1) [OF 1] .
    have again: "after_parking (Inr (), (st, [])) body f (w\<lparr>lw_store := st\<rparr>) = after_parking (Inr (), (st, [])) body f w"
      for st and body :: "unit lc" and f :: "file_step list \<Rightarrow> string list terminal lc"
      by (simp add: after_parking_def)
    have "after_parking (Inr (), (lw_store w1, [])) (clear_subtree env d is os) ?settle w1 = (r, w')"
      using run1 unfolding trash_directory_parks if_not_P [OF False] .
    then have run2: "after_parking (Inr (), (lw_store w1, [])) (clear_subtree env d is os) ?settle w = (r, w')"
      using again [of "lw_store w1"] w1 by metis
    have park: "parked p (lw_store w) [] (lw_store w1)"
      using parked_nothing [OF _ ask_exists_world(2,3) [OF 1]] exists_quiet [of p w w1] 1 False ready
      by (simp add: deletion_ready_def)
    show ?thesis
      by (rule settle_directory_deletes [OF run2 ready c]) (use park in \<open>simp_all add: parked_def\<close>)
  qed
qed


lemma directory_absolute_Inr: "directory_absolute env d w = (Inr p, w') \<Longrightarrow> p = path_names d"
  by (auto simp: directory_absolute_def lc_then_Inr lc_get_def lc_ret_def lc_fail_def split: sum.splits)

lemma known_below_collected:
  assumes "on_index (note_ids_with_prefix (ce_ws env) (d @ [SLASH])) w = (Inr is, w1)" and "same_world w w1"
    and "draft_ids_with_prefix (d @ [SLASH]) w1 = (Inr js, w2)"
  shows "collected env d is (filter (\<lambda>i. i \<notin> set is) js) w"
proof -
  have "lw_drafts w1 = lw_drafts w" using assms(2) by (simp add: same_world_def)
  then have "set js = {j. map_of (lw_drafts w) j \<noteq> None \<and> prefix (d @ [SLASH]) j}"
    using draft_ids_Inr [OF assms(3)] by simp
  then show ?thesis
    using note_ids_Inr(1) [OF assms(1)] unfolding collected_def known_below_def by auto
qed

abbreviation deletes_below :: "lc_env \<Rightarrow> string \<Rightarrow> string list terminal result \<Rightarrow> lc_world \<Rightarrow> lc_world \<Rightarrow> bool" where
  "deletes_below env d r w w' \<equiv> deletes env (path_names d) (below d) (known_below env d w) r w w'"

lemma deletes_below_refused: "refused_clean e w w' \<Longrightarrow> r = Inl e \<Longrightarrow> deletes_below env d r w w'"
  by (simp add: deletes_def)

lemma deletes_below_reading: "same_world w w1 \<Longrightarrow> deletes_below env d r w1 w' \<Longrightarrow> deletes_below env d r w w'"
  using deletes_after_reading [of w w1] known_below_reading [of w w1] by simp

text \<open>So it is enough to look at what is reached through reading.\<close>

lemma deletes_step:
  assumes "lc_then m f w = (r, w')" and "reads m"
    and "\<And>x w1. m w = (Inr x, w1) \<Longrightarrow> same_world w w1 \<Longrightarrow> f x w1 = (r, w') \<Longrightarrow> deletes_below env d r w1 w'"
  shows "deletes_below env d r w w'"
  using assms(1,2)
proof (rule reading_step)
  fix x w1 assume "m w = (Inr x, w1)" "same_world w w1" "f x w1 = (r, w')"
  then show ?thesis using assms(3) deletes_below_reading by blast
qed (rule deletes_below_refused)

lemma deletes_fail: "lc_fail e w = (r, w') \<Longrightarrow> deletes_below env d r w w'"
  using refused_reading [of w w] by (auto simp: lc_fail_def intro: deletes_below_refused)

lemma delete_listed_deletes:
  assumes "delete_listed env d (path_names d) is os w = (r, w')"
    and "deletion_ready (path_names d) w" and "collected env d is os w"
  shows "deletes_below env d r w w'"
  using assms(1) unfolding delete_listed_def
proof (rule deletes_step)
  let ?p = "path_names d"
  let ?last = "\<lambda>found is_dir. if found \<and> \<not> is_dir then lc_fail (NotFound d)
    else lc_then (ask_files (fs_exists ?p)) (trash_directory env d ?p is os)"
  fix found w1
  assume 1: "same_world w w1" "(if \<not> found \<and> is = [] \<and> os = [] then lc_fail (NotFound d)
    else lc_then (ask_files (fs_exists ?p)) (\<lambda>found.
      lc_then (if found then ask_files (fs_is_dir ?p) else lc_ret True) (?last found))) w1 = (r, w')"
  show "deletes_below env d r w1 w'"
  proof (cases "\<not> found \<and> is = [] \<and> os = []")
    case False
    show ?thesis
      using 1(2) unfolding if_not_P [OF False]
    proof (rule deletes_step)
      fix found w2
      assume 2: "same_world w1 w2" "lc_then (if found then ask_files (fs_is_dir ?p) else lc_ret True) (?last found) w2 = (r, w')"
      from 2(2) show "deletes_below env d r w2 w'"
      proof (rule deletes_step)
        fix is_dir w3 assume 3: "same_world w2 w3" "?last found is_dir w3 = (r, w')"
        note s = same_world_trans [OF 1(1) same_world_trans [OF 2(1) 3(1)]]
        show "deletes_below env d r w3 w'"
        proof (cases "found \<and> \<not> is_dir")
          case True
          from 3(2) show ?thesis unfolding if_P [OF True] by (rule deletes_fail)
        next
          case False
          from 3(2) show ?thesis unfolding if_not_P [OF False]
            by (rule trash_directory_deletes [OF _ ready_reading [OF s assms(2)] collected_reading [OF s assms(3)]])
        qed
      qed (auto intro!: reading)
    qed (intro reading)
  qed (use 1(2) deletes_fail in auto)
qed (intro reading)

lemma lift_then: "lc_then (lc_lift (Inr x)) f = f x"
  by (rule ext) (simp add: lc_then_def lc_lift_def)

lemma delete_directory_deletes:
  assumes run: "delete_directory env path_s w = (r, w')" and d: "normalize_directory path_s = Inr d"
    and ready: "deletion_ready (path_names d) w"
  shows "deletes_below env d r w w'"
proof (cases "d = []")
  case True
  then have "lc_fail (PathUnavailable ''the bundle root cannot be deleted'') w = (r, w')"
    using run by (simp add: delete_directory_def lift_then d)
  then show ?thesis by (rule deletes_fail)
next
  case False
  let ?list = "\<lambda>p is js. delete_listed env d p is (filter (\<lambda>i. i \<notin> set is) js)"
  have "lc_then (directory_absolute env d) (\<lambda>p. lc_then (on_index (note_ids_with_prefix (ce_ws env) (d @ [SLASH]))) (\<lambda>is.
      lc_then (draft_ids_with_prefix (d @ [SLASH])) (?list p is))) w = (r, w')"
    using run False by (simp add: delete_directory_def lift_then d)
  then show ?thesis
  proof (rule deletes_step)
    fix p w1 assume 1: "directory_absolute env d w = (Inr p, w1)" "same_world w w1"
      "lc_then (on_index (note_ids_with_prefix (ce_ws env) (d @ [SLASH]))) (\<lambda>is.
         lc_then (draft_ids_with_prefix (d @ [SLASH])) (?list p is)) w1 = (r, w')"
    from 1(3) show "deletes_below env d r w1 w'"
    proof (rule deletes_step)
      fix "is" w2 assume 2: "on_index (note_ids_with_prefix (ce_ws env) (d @ [SLASH])) w1 = (Inr is, w2)" "same_world w1 w2"
        "lc_then (draft_ids_with_prefix (d @ [SLASH])) (?list p is) w2 = (r, w')"
      from 2(3) show "deletes_below env d r w2 w'"
      proof (rule deletes_step)
        fix js w3 assume 3: "draft_ids_with_prefix (d @ [SLASH]) w2 = (Inr js, w3)" "same_world w2 w3"
          "?list p is js w3 = (r, w')"
        note s = same_world_trans [OF 2(2) 3(2)]
        note ready_reading [OF same_world_trans [OF 1(2) s] ready]
          collected_reading [OF s known_below_collected [OF 2(1,2) 3(1)]]
        with 3(3) show "deletes_below env d r w3 w'"
          unfolding directory_absolute_Inr [OF 1(1)] by (rule delete_listed_deletes)
      qed (intro reading)
    qed (intro reading)
  qed (intro reading)
qed


section \<open>Properties\<close>

text \<open>C8: Deleting a note completes or changes nothing. An error leaves the index, the draft rows, the open notes with
  their timers, the history and every file as they were, unless it says that undoing did not fully succeed. Otherwise
  the note's rows, its draft and its session with its timer are gone, no text of it is left in the full-text index,
  its file is gone when no file operation was made to fail, and nothing else has changed, the recovery copy apart.\<close>

theorem delete_note_all_or_nothing:
  assumes "delete_note env i w = (r, w')" and "note_path (entry_of env w) i = Inr p" and "deletion_ready p w"
  shows "deletes env p {i} {i} r w w'"
  using assms by (rule delete_note_deletes)


end
