(* ===== verification/Reidentify_Examples.thy ===== *)
theory Reidentify_Examples
  imports Reidentify_Carry
begin

section \<open>A shared desk\<close>

text \<open>A bundle of two notes, the second of which links to the first, and a Markdown library that sees a link at the
  start of a text.\<close>

definition link_pulldown :: pulldown where
  "link_pulldown metadata t =
     (if prefix ''['' t then
        (let label = takeWhile (\<lambda>c. c \<noteq> CHR '']'') (tl t);
             shown = takeWhile (\<lambda>c. c \<noteq> CHR '')'') (drop (length label + 3) t);
             dest = (if prefix ''<'' shown then butlast (tl shown) else shown);
             n = length label + 3 + length shown + 1
         in [(EvStart TParagraph, (0, length t)), (EvStart (TLink dest), (0, n)), (EvText label, (1, 1 + length label)),
             (EvEnd ELink, (0, n)), (EvText (drop n t), (n, length t)), (EvEnd EParagraph, (0, length t))])
      else one_paragraph metadata t)"

definition shared_env :: lc_env where
  "shared_env =
     \<lparr>ce_ws = ''w'', ce_pulldown = link_pulldown, ce_reader = (\<lambda>_. frontmatter_default), ce_lookup_key = id, ce_hash = id,
      ce_alnum = (\<lambda>_. True), ce_mtime = (\<lambda>_ _. 0), ce_symlink = (\<lambda>_. False), ce_same_file = (=),
      ce_readable = (\<lambda>_. True), ce_commit = (\<lambda>_ _ _. Inr True)\<rparr>"

definition b_env :: note_env where
  "b_env = env_of shared_env ''b'' [''b.md'']"

definition b_session :: note_session where
  "b_session =
     (let src = ''[a](/a.md) mine'' in opened_session b_env src (pn_spans (parsed b_env src)) (pn_ast (parsed b_env src)) 1
        ''[a](/a.md)'' False False 0)\<lparr>ns_edited := True, ns_unwritten := True\<rparr>"

definition shared_desk :: "string \<Rightarrow> fault option list \<Rightarrow> lc_world" where
  "shared_desk b_file faults =
     \<lparr>lw_store = \<lparr>st_tree = [([], NDir), ([''a.md''], NFile ''alpha'' 420), ([''b.md''], NFile b_file 420)],
        st_faults = faults, st_pid = 1, st_next_temp = 0, st_next_create = 0, st_next_trash = 0\<rparr>,
      lw_db = \<lparr>db_workspaces = [''w''],
        db_notes = map (\<lambda>i. \<lparr>nr_ws = ''w'', nr_id = i, nr_path = i @ ''.md'', nr_title = i, nr_key = i, nr_modified = 0,
          nr_hash = i, nr_conformant = False\<rparr>) [''a'', ''b''],
        db_links = [\<lparr>lr_ws = ''w'', lr_source = ''b'', lr_target = ''a'', lr_title = ''a''\<rparr>],
        db_fts = [], db_mapping = [], db_dirs = [], db_faults = [], db_in_tx = False\<rparr>,
      lw_drafts = [(''b'', \<lparr>df_source = ''[a](/a.md) mine'', df_seq = 1, df_updated = 0\<rparr>)],
      lw_sessions = [(''b'', b_session)], lw_armed = [''b''], lw_commits = [], lw_now = 5\<rparr>"

definition b_flush :: "lc_world \<Rightarrow> written_through result \<times> string option" where
  "b_flush w = (case map_of (lw_sessions w) ''b'' of
     None \<Rightarrow> (Inl GitConflict, None)
   | Some s \<Rightarrow> (case flush_covering b_env (note_view ''b'' s w) of
       (r, v) \<Rightarrow> (r, case map_of (st_tree (w_store v)) [''b.md''] of Some (NFile b _) \<Rightarrow> Some b | _ \<Rightarrow> None)))"



lemma desk_store_sane: "sane (lw_store (shared_desk b_file faults))"
proof -
  have "wf_tree (st_tree (lw_store (shared_desk b_file faults)))"
    by (auto simp: wf_tree_def shared_desk_def split: if_splits)
  moreover have "temps_free (lw_store (shared_desk b_file faults))"
    by (auto simp: temps_free_def shared_desk_def temp_name_def split: if_splits)
  ultimately show ?thesis by (simp add: sane_def)
qed



definition ac_plan :: reidentify where
  "ac_plan = rename_plan ''a'' ''c'' ''c''"

definition failing_desk :: lc_world where
  "failing_desk = (shared_desk ''[a](/a.md)'' [])\<lparr>lw_db :=
     (lw_db (shared_desk ''[a](/a.md)'' []))\<lparr>db_faults := replicate 9 None @ [Some DiskFull]\<rparr>\<rparr>"

lemma desk_calls_ok:
  assumes "plan_affected shared_env ac_plan w = (Inr affected, w1)"
    and "case plan_affected shared_env ac_plan w of (Inr as, w1) \<Rightarrow> calls_ok (write_calls ac_plan as) (lw_store w1, []) | _ \<Rightarrow> True"
  shows "calls_ok (write_calls ac_plan affected) (lw_store w1, [])"
  using assms by simp


definition quiet_desk :: lc_world where
  "quiet_desk = shared_desk ''[a](/a.md)'' []"

theorem reidentify_carries_work_witness:
  "\<exists>row s. map_of (lw_drafts (snd (apply_reidentify shared_env ac_plan quiet_desk))) ''b'' = Some row
     \<and> df_source row = ''[a](</c.md>) mine''
     \<and> map_of (lw_sessions (snd (apply_reidentify shared_env ac_plan quiet_desk))) ''b'' = Some s
     \<and> ns_source s = ''[a](</c.md>) mine''"
proof -
  let ?call = "apply_reidentify shared_env ac_plan quiet_desk"
  have "case fst ?call of Inl _ \<Rightarrow> False | Inr _ \<Rightarrow> True" by code_simp
  then obtain t where "fst ?call = Inr t" by (auto split: sum.splits)
  then have c: "?call = (Inr t, snd ?call)" by (metis prod.collapse)
  have s: "sane (lw_store quiet_desk)" using desk_store_sane by (simp add: quiet_desk_def)
  have t: "\<not> db_in_tx (lw_db quiet_desk)"
    and ok: "case plan_affected shared_env ac_plan quiet_desk of
      (Inr as, w1) \<Rightarrow> calls_ok (write_calls ac_plan as) (lw_store w1, []) | _ \<Rightarrow> True"
    by code_simp+
  have n: "no_symlinks shared_env" by (simp add: no_symlinks_def shared_env_def)
  have p: "note_path (entry_of shared_env quiet_desk) ''c'' = Inr [''c.md'']"
      "note_path (entry_of shared_env quiet_desk) ''b'' = Inr [''b.md'']" "new_id_of ac_plan ''b'' = ''b''"
      "re_remap ac_plan = [(''a'', ''c'')]" "look (lw_store quiet_desk) [''c.md''] = None"
      "map_of (lw_drafts quiet_desk) ''c'' = None"
    by code_simp+
  have "map_of (lw_sessions quiet_desk) ''c'' = None" by (simp add: quiet_desk_def shared_desk_def)
  then have d: "destinations_free shared_env ac_plan quiet_desk" using p by (simp add: destinations_free_def)
  have r: "resolves shared_env ac_plan quiet_desk ''b''" using p by (simp add: resolves_def)
  have i: "rewritten_by shared_env ac_plan ''b'' ''[a](/a.md) mine'' = Inr (Some ''[a](</c.md>) mine'')"
      "map_option df_source (map_of (lw_drafts quiet_desk) ''b'') = Some ''[a](/a.md) mine''"
      "map_option ns_source (map_of (lw_sessions quiet_desk) ''b'') = Some ''[a](/a.md) mine''"
    by code_simp+
  from reidentify_carries_work [OF c s t desk_calls_ok [OF _ ok] n d r] i p(3) show ?thesis
    by (auto simp: draft_carried_def session_carried_def carried_text_def)
qed

end
