(* ===== verification/Delete_Examples.thy ===== *)
theory Delete_Examples
  imports Delete_Laws Reidentify_Examples
begin

section \<open>Deletions and directories on a small bundle\<close>

text \<open>A note in a directory, with an unwritten draft, beside an empty directory that differs from it only in case.\<close>

definition filed_desk :: "fault option list \<Rightarrow> lc_world" where
  "filed_desk faults =
     \<lparr>lw_store = \<lparr>st_tree = [([], NDir), ([''A''], NDir), ([''a''], NDir), ([''a'', ''d''], NDir), ([''A'', ''n.md''], NFile ''body'' 420)],
        st_faults = faults, st_pid = 1, st_next_temp = 0, st_next_create = 0, st_next_trash = 0\<rparr>,
      lw_db = \<lparr>db_workspaces = [''w''],
        db_notes = [\<lparr>nr_ws = ''w'', nr_id = ''A/n'', nr_path = ''A/n.md'', nr_title = ''n'', nr_key = ''n'', nr_modified = 0,
          nr_hash = ''h'', nr_conformant = False\<rparr>],
        db_links = [], db_fts = [\<lparr>fr_rowid = 1, fr_title = ''n'', fr_content = ''body''\<rparr>],
        db_mapping = [\<lparr>mr_ws = ''w'', mr_note = ''A/n'', mr_rowid = 1\<rparr>],
        db_dirs = map (\<lambda>d. \<lparr>dr_id = d, dr_ws = ''w''\<rparr>) [''A'', ''a'', ''a/d''], db_faults = [], db_in_tx = False\<rparr>,
      lw_drafts = [(''A/n'', \<lparr>df_source = ''body more'', df_seq = 1, df_updated = 0\<rparr>)],
      lw_sessions = [], lw_armed = [], lw_commits = [], lw_now = 5\<rparr>"

lemma filed_desk_ready:
  "deletion_ready [''A'', ''n.md''] (filed_desk faults)" "deletion_ready [''A''] (filed_desk faults)"
proof -
  have "wf_tree (st_tree (lw_store (filed_desk faults)))"
    by (auto simp: wf_tree_def filed_desk_def split: if_splits)
  moreover have "temps_free (lw_store (filed_desk faults))"
    by (auto simp: temps_free_def filed_desk_def temp_name_def split: if_splits)
  ultimately have "sane (lw_store (filed_desk faults))" by (simp add: sane_def)
  moreover have "index_ok (lw_db (filed_desk faults))" by (simp add: index_ok_def filed_desk_def)
  moreover have "clean [''A'', ''n.md'']" "clean [''A'']"
    by (auto simp: clean_def clean_name_def suffix_def)
  moreover have "look (lw_store (filed_desk faults)) (trash_of [''A'', ''n.md''] (lw_store (filed_desk faults))) = None"
    "look (lw_store (filed_desk faults)) (trash_of [''A''] (lw_store (filed_desk faults))) = None"
    by (simp_all add: filed_desk_def trash_path_def trash_prefix_def)
  ultimately show "deletion_ready [''A'', ''n.md''] (filed_desk faults)" "deletion_ready [''A''] (filed_desk faults)"
    by (simp_all add: deletion_ready_def filed_desk_def)
qed

theorem delete_note_all_or_nothing_witness:
  "let w' = snd (delete_note shared_env ''A/n'' (filed_desk []))
   in map_of (lw_drafts w') ''A/n'' = None \<and> look (lw_store w') [''A'', ''n.md''] = None
    \<and> look (lw_store w') [''a'', ''d''] = Some NDir"
proof -
  let ?w = "filed_desk []"
  let ?call = "delete_note shared_env ''A/n'' ?w"
  have "case fst ?call of Inl _ \<Rightarrow> False | Inr _ \<Rightarrow> True" by code_simp
  then obtain t where "fst ?call = Inr t" by (auto split: sum.splits)
  then have c: "?call = (Inr t, snd ?call)" by (metis prod.collapse)
  have p: "note_path (entry_of shared_env ?w) ''A/n'' = Inr [''A'', ''n.md'']" by code_simp
  have f: "st_faults (lw_store ?w) = []" "look (lw_store ?w) [''a'', ''d''] = Some NDir" by code_simp+
  have t: "\<not> prefix (trash_of [''A'', ''n.md''] (lw_store ?w)) [''A'', ''n.md'']"
    "\<not> prefix (trash_of [''A'', ''n.md''] (lw_store ?w)) [''a'', ''d'']"
    by (simp_all add: trash_path_def trash_prefix_def)
  from delete_note_all_or_nothing [OF c p filed_desk_ready(1)] f t show ?thesis
    by (simp add: deletes_def forgotten_def drafts_cleared_def gone_def)
qed


text \<open>Deleting a directory also forgets a sibling's rows: the directories table is cleared with a pattern that SQLite
  matches without regard to case, so the rows of what lies below a directory whose name differs only in case are lost
  although its folders stay.\<close>

theorem delete_directory_forgets_twin:
  "let (r, w') = delete_directory shared_env ''A'' (filed_desk [])
   in (case r of Inl _ \<Rightarrow> False | Inr _ \<Rightarrow> True) \<and> map dr_id (db_dirs (lw_db w')) = [''a'']
    \<and> look (lw_store w') [''a'', ''d''] = Some NDir"
  by code_simp


end
