(* ===== verification/Spec2Isabelle.thy ===== *)
theory Spec2Isabelle
  imports Link_Rewrite Md_Splice Identity_Laws Sync_Scheduler Journal_Rollback Session_Laws Focus_Laws Index_Rebuild
    Note_Examples Delete_Examples
begin

text \<open>
  burlmd is a local Markdown notebook. Its core (\<^verbatim>\<open>rust/src\<close>) keeps a workspace, a directory of notes in a Git
  repository, next to an SQLite index, and edits one note per open session. This library models that core and
  proves what it promises about the text of its users.

  \<^bold>\<open>The program.\<close> An open note (\<^verbatim>\<open>workspace/persist.rs\<close>) is one buffer of source. The parser
  (\<^verbatim>\<open>markdown/parser.rs\<close>) turns the source into a tree and a span map; the user interface addresses blocks by path,
  the map says which bytes a path means (\<^verbatim>\<open>markdown/spans.rs\<close>, \<^verbatim>\<open>markdown/splice.rs\<close>). An edit goes through three
  tiers: the buffer with a row of the table \<^verbatim>\<open>drafts\<close> (tier 1), the file under a revision check, with the index rows
  of the note (tier 2), and a Git commit at the close (tier 3). Renames and moves (\<^verbatim>\<open>workspace/lifecycle.rs\<close>) rewrite
  the links of other notes (\<^verbatim>\<open>workspace/links_rewrite.rs\<close>, \<^verbatim>\<open>okf/links.rs\<close>) and journal their file operations. A
  background thread (\<^verbatim>\<open>sync/scheduler.rs\<close>) commits, pulls and pushes. The user interface stores its session in a
  snapshot file (\<^verbatim>\<open>workspace/session_snapshot.rs\<close>).

  \<^bold>\<open>The theories\<close>, in the order of their imports; each opens with what it translates.

  \<^item> \<open>Prelude\<close>: results (\<open>app_error + 'a\<close>) and the generic lemmas. \<open>Utf8\<close>: Rust's \<^verbatim>\<open>str\<close> as its bytes, characters,
    boundaries, and the string functions the code uses.
  \<^item> \<open>Md_Ast\<close>, \<open>Md_Spans\<close>, \<open>Md_Parser\<close>, \<open>Md_Tree\<close>, \<open>Md_Splice\<close>, \<open>Conflict\<close>: the tree, the span map and its builder,
    the event-driven parser, its invariant, the splices, the collapse of merge conflicts.
  \<^item> \<open>Okf\<close>, \<open>Identity\<close>, \<open>Identity_Laws\<close>, \<open>Link_Rewrite\<close>: concept ids, link destinations, frontmatter, the names a
    note or directory may have, and the rewriting of links and titles.
  \<^item> \<open>Durable_Files\<close> (the contract of publishing a file), \<open>File_Store\<close>, \<open>File_Store_Laws\<close>, \<open>File_Journal\<close>,
    \<open>File_Journal_Laws\<close>, \<open>Journal_Rollback\<close>, \<open>Session_Snapshot\<close>, \<open>Session_Laws\<close>: the file system as the code uses it
    with a schedule of faults, \<^verbatim>\<open>atomic_write\<close>, the journal of composite operations, the snapshot file.
  \<^item> \<open>Edit_Seams\<close>, \<open>Edit_Ops\<close>, \<open>Seam_Laws\<close>, \<open>Edit_Laws\<close>, \<open>Focus_Laws\<close>: the source rewriting of every structural edit.
  \<^item> \<open>Index_Rows\<close>, \<open>Index_Laws\<close>, \<open>Index_Rebuild\<close>: the tables, the statements that write a note's rows, the rebuild.
  \<^item> \<open>Note_Session\<close>, \<open>Note_Tiers\<close>: \<^verbatim>\<open>NoteSession\<close>, its state and its operations as sequences of critical sections.
    \<open>Note_Laws\<close>, \<open>Flush_Laws\<close>: each operation run alone. \<open>Tier_Steps\<close>: the sections of the editing and of the
    writing thread interleaved. \<open>Note_Examples\<close>: the laws applied to a note.
  \<^item> \<open>Sync_Scheduler\<close>: the loop of the background thread.

  \<^bold>\<open>Correspondence.\<close> A struct is a \<open>record\<close> with the fields of the code, an enum a \<open>datatype\<close>, \<^verbatim>\<open>AppError\<close> the type
  \<open>app_error\<close> (its messages are shortened), a fallible function returns \<open>app_error + 'a\<close>. Functions keep their names
  where HOL leaves them free. Text is a list of bytes, offsets are byte offsets as in the code. Code with effects
  takes and returns the state it acts on: a file tree (\<open>store\<close>), the tables (\<open>db\<close>), an open note (\<open>note_world\<close>).
  Every system call and every statement takes the next entry of a schedule of faults, so that a law for all
  schedules covers a failure, and a crash, at every point.

  \<^bold>\<open>What is shown.\<close> Splices and buffered edits change exactly their range and keep the map in step; the parser's map
  addresses its own tree; every structural edit keeps all text but the part it names; a rename rewrites what the
  program wrote; a publication is all or nothing and a failed composite operation is undone; the index keeps its
  invariant and a rebuild is all or nothing; snapshots are never lost. For an open note: a keystroke is in the draft
  row or refused, structural edits are transactions, a write through replaces only bytes the session has seen, a
  close or a reload does not lose text, and under any interleaving of typing with the idle writer a crash loses
  nothing as long as the database takes the draft rows. \<open>refused_draft_strands_text\<close> shows that this hypothesis
  is needed.

  \<^bold>\<open>Bounds and fuel.\<close> The lookups of the span map descend at most the depth of the tree (\<open>resolve_at_fuel_enough\<close>).
  The retry loops of structural edits and commits take one element of a list per attempt, what the other threads
  did in it; \<open>edit_loops_end\<close> shows that the first undisturbed attempt returns. Instants are naturals and do not
  overflow; the edit sequence is an integer (an \<^verbatim>\<open>i64\<close> incremented once per edit).

  \<^bold>\<open>Parameters.\<close> The Markdown library (its event stream, \<open>pulldown\<close>), the YAML reader, JSON, SHA-256, the Unicode
  normalisation of a title, the modification time of a file and the answers of Git are arguments. Where a law needs
  something of them it is a hypothesis: events are properly nested, the hash does not collide on the bytes at hand.

  \<^bold>\<open>Not modelled.\<close> The Git operations, the connection to the database with its key and migrations, the keyring and
  the OAuth exchange are calls of libraries; the FFI layer forwards to the functions modelled here; the bridge is
  generated. Poisoned locks, the Windows variants and the contents of messages are left out.
\<close>

end
